(* ===== verification/Prelude.thy ===== *)
theory Prelude
  imports Main "HOL-Library.Char_ord" "HOL-Library.List_Lexorder" "HOL-Library.Sublist"
    "HOL-Library.Code_Target_Numeral"
begin

text \<open>
  Shared vocabulary of the development: the outcome of a Go call (a value, an error return or
  a run-time panic), calls that act on a state, Hoare triples over such calls with the rules
  that let invariants be proved by following the code, Go maps as HOL maps, and generic
  lemmas on lists.
\<close>

subsection \<open>Outcomes of calls\<close>

text \<open>
  The errors that the server's code distinguishes or passes on. \<open>ErrDb\<close> stands for any
  failure reported by the SQL driver (disk, lock, scan), \<open>ErrNotNull\<close> for the
  \<open>NOT NULL\<close> constraint of the schema, \<open>ErrNotExist\<close> for a missing file or directory and \<open>ErrIO\<close> for
  any other failure of the file system.
\<close>

datatype go_error =
    ErrDb
  | ErrNotNull
  | ErrNoRows
  | ErrAccountExists
  | ErrPersonaNameTaken
  | ErrPacketLength
  | ErrNotExist
  | ErrIO

datatype 'a outcome = Ret 'a | Fail go_error | Panic

type_synonym ('s, 'a) go = "'s \<Rightarrow> 'a outcome \<times> 's"

definition gret :: "'a \<Rightarrow> ('s, 'a) go" where
  "gret x = (\<lambda>s. (Ret x, s))"

definition gfail :: "go_error \<Rightarrow> ('s, 'a) go" where
  "gfail e = (\<lambda>s. (Fail e, s))"

definition gpanic :: "('s, 'a) go" where
  "gpanic = (\<lambda>s. (Panic, s))"

definition gbind :: "('s, 'a) go \<Rightarrow> ('a \<Rightarrow> ('s, 'b) go) \<Rightarrow> ('s, 'b) go" where
  "gbind m f = (\<lambda>s. case m s of
      (Ret x, s') \<Rightarrow> f x s'
    | (Fail e, s') \<Rightarrow> (Fail e, s')
    | (Panic, s') \<Rightarrow> (Panic, s'))"

text \<open>\<open>gtry m h f\<close> is \<open>x, err := m\<close> followed by the error branch \<open>h\<close> or the rest \<open>f\<close>.\<close>

definition gtry :: "('s, 'a) go \<Rightarrow> (go_error \<Rightarrow> ('s, 'b) go) \<Rightarrow> ('a \<Rightarrow> ('s, 'b) go) \<Rightarrow> ('s, 'b) go" where
  "gtry m h f = (\<lambda>s. case m s of
      (Ret x, s') \<Rightarrow> f x s'
    | (Fail e, s') \<Rightarrow> h e s'
    | (Panic, s') \<Rightarrow> (Panic, s'))"

definition gget :: "('s \<Rightarrow> 'a) \<Rightarrow> ('s, 'a) go" where
  "gget f = (\<lambda>s. (Ret (f s), s))"

definition gmodify :: "('s \<Rightarrow> 's) \<Rightarrow> ('s, unit) go" where
  "gmodify f = (\<lambda>s. (Ret (), f s))"

text \<open>A loop over a list whose body carries an accumulator: the first error ends it.\<close>

fun gfold :: "('x \<Rightarrow> 'a \<Rightarrow> ('s, 'a) go) \<Rightarrow> 'x list \<Rightarrow> 'a \<Rightarrow> ('s, 'a) go" where
  "gfold body [] acc = gret acc"
| "gfold body (x # xs) acc = gbind (body x acc) (gfold body xs)"

named_theorems go_run "evaluation of calls on a given state"

lemma gret_apply [go_run]: "gret x s = (Ret x, s)"
  by (simp add: gret_def)

lemma gfail_apply [go_run]: "gfail e s = (Fail e, s)"
  by (simp add: gfail_def)

lemma gpanic_apply [go_run]: "gpanic s = (Panic, s)"
  by (simp add: gpanic_def)

lemma gget_apply [go_run]: "gget f s = (Ret (f s), s)"
  by (simp add: gget_def)

lemma gmodify_apply [go_run]: "gmodify f s = (Ret (), f s)"
  by (simp add: gmodify_def)

lemma gbind_Ret [go_run]: "m s = (Ret x, s') \<Longrightarrow> gbind m f s = f x s'"
  by (simp add: gbind_def)

lemma gbind_Fail [go_run]: "m s = (Fail e, s') \<Longrightarrow> gbind m f s = (Fail e, s')"
  by (simp add: gbind_def)

lemma gbind_Panic [go_run]: "m s = (Panic, s') \<Longrightarrow> gbind m f s = (Panic, s')"
  by (simp add: gbind_def)

lemma gtry_Ret [go_run]: "m s = (Ret x, s') \<Longrightarrow> gtry m h f s = f x s'"
  by (simp add: gtry_def)

lemma gtry_Fail [go_run]: "m s = (Fail e, s') \<Longrightarrow> gtry m h f s = h e s'"
  by (simp add: gtry_def)

lemma gtry_Panic [go_run]: "m s = (Panic, s') \<Longrightarrow> gtry m h f s = (Panic, s')"
  by (simp add: gtry_def)

lemma gbind_returns:
  "gbind m f s = (Ret y, s2) \<longleftrightarrow> (\<exists>x s1. m s = (Ret x, s1) \<and> f x s1 = (Ret y, s2))"
  by (auto simp: gbind_def split: prod.splits outcome.splits)

subsection \<open>Triples\<close>

text \<open>
  \<open>triple P m Q R\<close>: from a state satisfying \<open>P\<close>, a normal return leaves \<open>Q\<close> of the value
  and the state, and an error return or a panic leaves \<open>R\<close>. \<open>keeps I m\<close> is the special
  case of an invariant, kept on every outcome.
\<close>

definition triple ::
  "('s \<Rightarrow> bool) \<Rightarrow> ('s, 'a) go \<Rightarrow> ('a \<Rightarrow> 's \<Rightarrow> bool) \<Rightarrow> ('s \<Rightarrow> bool) \<Rightarrow> bool" where
  "triple P m Q R \<longleftrightarrow>
     (\<forall>s. P s \<longrightarrow> (case m s of (Ret x, s') \<Rightarrow> Q x s' | (_, s') \<Rightarrow> R s'))"

definition keeps :: "('s \<Rightarrow> bool) \<Rightarrow> ('s, 'a) go \<Rightarrow> bool" where
  "keeps I m \<longleftrightarrow> (\<forall>s. I s \<longrightarrow> I (snd (m s)))"

named_theorems keeps_intro "how an invariant goes through the calls of the model"

lemma keepsI: "(\<And>s. I s \<Longrightarrow> I (snd (m s))) \<Longrightarrow> keeps I m"
  by (simp add: keeps_def)

lemma keepsD: "keeps I m \<Longrightarrow> I s \<Longrightarrow> m s = (r, s') \<Longrightarrow> I s'"
  by (auto simp: keeps_def dest: spec [of _ s])

lemma keeps_triple: "keeps I m \<longleftrightarrow> triple I m (\<lambda>_. I) I"
proof -
  have "(case m s of (Ret x, s') \<Rightarrow> I s' | (_, s') \<Rightarrow> I s') \<longleftrightarrow> I (snd (m s))" for s
    by (auto split: prod.splits outcome.splits)
  then show ?thesis by (simp add: keeps_def triple_def)
qed

lemma keeps_gret [keeps_intro]: "keeps I (gret x)"
  by (simp add: keeps_def go_run)

lemma keeps_gfail [keeps_intro]: "keeps I (gfail e)"
  by (simp add: keeps_def go_run)

lemma keeps_gpanic [keeps_intro]: "keeps I gpanic"
  by (simp add: keeps_def go_run)

lemma keeps_gget [keeps_intro]: "keeps I (gget f)"
  by (simp add: keeps_def go_run)

lemma keeps_gbind [keeps_intro]:
  "keeps I m \<Longrightarrow> (\<And>x. keeps I (f x)) \<Longrightarrow> keeps I (gbind m f)"
  by (fastforce simp: keeps_def gbind_def split: prod.splits outcome.splits)

lemma keeps_gtry [keeps_intro]:
  "keeps I m \<Longrightarrow> (\<And>e. keeps I (h e)) \<Longrightarrow> (\<And>x. keeps I (f x)) \<Longrightarrow> keeps I (gtry m h f)"
  by (fastforce simp: keeps_def gtry_def split: prod.splits outcome.splits)

lemma keeps_if [keeps_intro]:
  "(b \<Longrightarrow> keeps I m) \<Longrightarrow> (\<not> b \<Longrightarrow> keeps I n) \<Longrightarrow> keeps I (if b then m else n)"
  by simp

lemma keeps_case_option [keeps_intro]:
  "keeps I m \<Longrightarrow> (\<And>x. keeps I (f x)) \<Longrightarrow> keeps I (case v of None \<Rightarrow> m | Some x \<Rightarrow> f x)"
  by (cases v) auto

lemma keeps_let [keeps_intro]:
  "(\<And>x. keeps I (f x)) \<Longrightarrow> keeps I (let x = v in f x)"
  by simp

lemma keeps_gfold [keeps_intro]:
  "(\<And>x acc. keeps I (body x acc)) \<Longrightarrow> keeps I (gfold body xs acc)"
  by (induction xs arbitrary: acc) (auto intro!: keeps_gret keeps_gbind)

text \<open>
  A call that reads the state only to decide what to do next keeps an invariant when each of
  its continuations does; a call that may change the state keeps it when the update does.
\<close>

lemma keeps_gmodify: "(\<And>s. I s \<Longrightarrow> I (f s)) \<Longrightarrow> keeps I (gmodify f)"
  by (simp add: keeps_def go_run)

lemma tripleI:
  "(\<And>s x s'. P s \<Longrightarrow> m s = (Ret x, s') \<Longrightarrow> Q x s') \<Longrightarrow>
   (\<And>s r s'. P s \<Longrightarrow> m s = (r, s') \<Longrightarrow> (\<And>x. r \<noteq> Ret x) \<Longrightarrow> R s') \<Longrightarrow> triple P m Q R"
  by (auto simp: triple_def split: prod.splits outcome.splits)

lemma tripleD: "triple P m Q R \<Longrightarrow> P s \<Longrightarrow> m s = (Ret x, s') \<Longrightarrow> Q x s'"
  by (auto simp: triple_def split: prod.splits outcome.splits)

lemma triple_gbind:
  "triple P m Q R \<Longrightarrow> (\<And>x. triple (Q x) (f x) S R) \<Longrightarrow> triple P (gbind m f) S R"
  by (fastforce simp: triple_def gbind_def split: prod.splits outcome.splits)

lemma triple_gret: "(\<And>s. P s \<Longrightarrow> Q x s) \<Longrightarrow> triple P (gret x) Q R"
  by (simp add: triple_def go_run)

lemma triple_conseq:
  "triple P m Q R \<Longrightarrow> (\<And>s. P' s \<Longrightarrow> P s) \<Longrightarrow> (\<And>x s. Q x s \<Longrightarrow> Q' x s) \<Longrightarrow>
   (\<And>s. R s \<Longrightarrow> R' s) \<Longrightarrow> triple P' m Q' R'"
  by (fastforce simp: triple_def split: prod.splits outcome.splits)

lemma triple_gfail: "(\<And>s. P s \<Longrightarrow> R s) \<Longrightarrow> triple P (gfail e) Q R"
  by (simp add: triple_def go_run)

lemma triple_gtry:
  "triple P m Q R \<Longrightarrow> (\<And>e. triple R (h e) S T) \<Longrightarrow> (\<And>x. triple (Q x) (f x) S T) \<Longrightarrow>
   (\<And>s. R s \<Longrightarrow> T s) \<Longrightarrow> triple P (gtry m h f) S T"
  by (fastforce simp: triple_def gtry_def split: prod.splits outcome.splits)

lemma triple_if:
  "(b \<Longrightarrow> triple P m Q R) \<Longrightarrow> (\<not> b \<Longrightarrow> triple P n Q R) \<Longrightarrow> triple P (if b then m else n) Q R"
  by simp

lemma triple_case_option:
  "(v = None \<Longrightarrow> triple P m Q R) \<Longrightarrow> (\<And>x. v = Some x \<Longrightarrow> triple P (f x) Q R) \<Longrightarrow>
   triple P (case v of None \<Rightarrow> m | Some x \<Rightarrow> f x) Q R"
  by (cases v) auto

text \<open>An invariant through a call whose result the rest of the handler relies on.\<close>

lemma keeps_gbind_triple:
  assumes "triple I m Q I" "\<And>x. triple (Q x) (f x) (\<lambda>_. I) I"
  shows "keeps I (gbind m f)"
  unfolding keeps_triple by (rule triple_gbind [OF assms])

lemma keeps_gtry_triple:
  assumes "triple I m Q I" "\<And>e. keeps I (h e)" "\<And>x. triple (Q x) (f x) (\<lambda>_. I) I"
  shows "keeps I (gtry m h f)"
  using assms unfolding keeps_triple by (auto intro: triple_gtry)

lemma triple_keeps:
  assumes "keeps J m" "\<And>s. P s \<Longrightarrow> J s" "\<And>s. J s \<Longrightarrow> I s"
  shows "triple P m (\<lambda>_. I) I"
  by (rule triple_conseq [OF assms(1) [unfolded keeps_triple]]) (use assms in auto)

lemma triple_gfold:
  assumes "\<And>x acc. triple (I acc) (body x acc) I R"
  shows "triple (I acc) (gfold body xs acc) I R"
proof (induction xs arbitrary: acc)
  case Nil
  show ?case unfolding gfold.simps by (rule triple_gret)
next
  case (Cons x xs)
  show ?case unfolding gfold.simps by (rule triple_gbind) (rule assms, rule Cons.IH)
qed

subsection \<open>Calls that never panic\<close>

definition no_panic :: "('s, 'a) go \<Rightarrow> bool" where
  "no_panic m \<longleftrightarrow> (\<forall>s. fst (m s) \<noteq> Panic)"

named_theorems no_panic_intro "how the absence of panics goes through the calls of the model"

lemma no_panic_basic [no_panic_intro]:
  "no_panic (gret x)" "no_panic (gfail e)" "no_panic (gget f)" "no_panic (gmodify g)"
  by (simp_all add: no_panic_def go_run)

lemma no_panic_gbind [no_panic_intro]: "no_panic m \<Longrightarrow> (\<And>x. no_panic (f x)) \<Longrightarrow> no_panic (gbind m f)"
  by (auto simp: no_panic_def gbind_def split: prod.splits outcome.splits) (metis fst_conv)+

lemma no_panic_gtry [no_panic_intro]:
  "no_panic m \<Longrightarrow> (\<And>e. no_panic (h e)) \<Longrightarrow> (\<And>x. no_panic (f x)) \<Longrightarrow> no_panic (gtry m h f)"
  by (auto simp: no_panic_def gtry_def split: prod.splits outcome.splits) (metis fst_conv)+

lemma no_panic_control [no_panic_intro]:
  "(b \<Longrightarrow> no_panic m) \<Longrightarrow> (\<not> b \<Longrightarrow> no_panic n) \<Longrightarrow> no_panic (if b then m else n)"
  "no_panic m \<Longrightarrow> (\<And>x. no_panic (f x)) \<Longrightarrow> no_panic (case v of None \<Rightarrow> m | Some x \<Rightarrow> f x)"
  "(\<And>x. no_panic (f x)) \<Longrightarrow> no_panic (let x = y in f x)"
  by (auto split: option.split)

lemma no_panic_gfold [no_panic_intro]: "(\<And>x acc. no_panic (body x acc)) \<Longrightarrow> no_panic (gfold body xs acc)"
  by (induction xs arbitrary: acc) (auto intro: no_panic_basic no_panic_gbind)

subsection \<open>Go maps\<close>

text \<open>Indexing a Go \<open>map[string]string\<close> gives the empty string for a missing key.\<close>

type_synonym params = "string \<rightharpoonup> string"

definition mget :: "params \<Rightarrow> string \<Rightarrow> string" where
  "mget m k = (case m k of None \<Rightarrow> [] | Some v \<Rightarrow> v)"

lemma mget_update [simp]: "mget (m(k \<mapsto> v)) k' = (if k' = k then v else mget m k')"
  by (simp add: mget_def)

subsection \<open>Options and lists\<close>

lemma option_eq_by_Some: "(\<And>i. x = Some i \<longleftrightarrow> y = Some i) \<Longrightarrow> x = y"
  by (cases x; cases y) auto

lemma takeWhile_all: "(\<And>x. x \<in> set xs \<Longrightarrow> P x) \<Longrightarrow> takeWhile P xs = xs"
  by (induction xs) auto

lemma find_Some_iff_unique:
  assumes "distinct (map f xs)"
  shows "find (\<lambda>x. f x = k) xs = Some x \<longleftrightarrow> x \<in> set xs \<and> f x = k"
  using assms by (induction xs) auto

lemma find_None_iff': "find P xs = None \<longleftrightarrow> (\<forall>x \<in> set xs. \<not> P x)"
  by (induction xs) auto

lemma find_SomeD: "find P xs = Some x \<Longrightarrow> x \<in> set xs \<and> P x"
  by (induction xs) (auto split: if_splits)

lemma find_append:
  "find P (xs @ ys) = (case find P xs of None \<Rightarrow> find P ys | Some x \<Rightarrow> Some x)"
  by (induction xs) auto

lemma foldr_max_ge: "x \<in> set xs \<Longrightarrow> x \<le> foldr max xs (a :: int)"
  by (induction xs) (auto simp: max.coboundedI2)

lemma foldr_max_ge_init: "a \<le> foldr max xs (a :: int)"
  by (induction xs) (auto simp: max.coboundedI2)

end
