(* ===== verification/Go_Strings.thy ===== *)
theory Go_Strings
  imports Prelude "HOL-Library.Word"
begin

text \<open>
  Go strings as lists of bytes (\<open>char\<close> is an 8-bit character), and the functions of the
  standard packages \<open>strings\<close>, \<open>strconv\<close> and \<open>unicode/utf8\<close> that the server calls, with
  their results on every input: a range loop decodes UTF-8 and yields U+FFFD for each invalid
  byte, and \<open>strconv.ParseInt\<close> returns the clamped value together with a range error.
\<close>

subsection \<open>Characters\<close>

abbreviation NUL :: char where "NUL \<equiv> CHR 0x00"
abbreviation LF :: char where "LF \<equiv> CHR 0x0A"
abbreviation CR :: char where "CR \<equiv> CHR 0x0D"

definition ord :: "char \<Rightarrow> nat" where
  "ord c = of_char c"

lemma ord_less_256 [simp]: "ord c < 256"
  by (simp add: ord_def)

lemma ord_eq_iff [simp]: "ord c = ord d \<longleftrightarrow> c = d"
  by (simp add: ord_def)

lemma ord_char_of [simp]: "ord (char_of n) = n mod 256"
  by (simp add: ord_def)

lemma char_of_ord [simp]: "char_of (ord c) = c"
  by (simp add: ord_def)

definition is_digit :: "char \<Rightarrow> bool" where
  "is_digit c \<longleftrightarrow> 48 \<le> ord c \<and> ord c \<le> 57"

definition digit_val :: "char \<Rightarrow> nat" where
  "digit_val c = ord c - 48"

definition digit_char :: "nat \<Rightarrow> char" where
  "digit_char d = char_of (48 + d)"

lemma is_digit_digit_char [simp]: "d < 10 \<Longrightarrow> is_digit (digit_char d)"
  by (simp add: is_digit_def digit_char_def)

lemma digit_val_digit_char [simp]: "d < 10 \<Longrightarrow> digit_val (digit_char d) = d"
  by (simp add: digit_val_def digit_char_def)

lemma digit_char_numerals [simp]:
  "digit_char 0 = CHR ''0''" "digit_char (Suc 0) = CHR ''1''" "digit_char 1 = CHR ''1''"
  "digit_char 2 = CHR ''2''" "digit_char 3 = CHR ''3''" "digit_char 4 = CHR ''4''"
  "digit_char 5 = CHR ''5''" "digit_char 6 = CHR ''6''" "digit_char 7 = CHR ''7''"
  "digit_char 8 = CHR ''8''" "digit_char 9 = CHR ''9''"
  by code_simp+

lemma digit_val_less: "is_digit c \<Longrightarrow> digit_val c < 10"
  by (auto simp: is_digit_def digit_val_def)

subsection \<open>strings.Split, strings.Cut, strings.TrimRight\<close>

text \<open>\<open>strings.Split(s, sep)\<close> for a separator of one byte.\<close>

fun split_char :: "char \<Rightarrow> string \<Rightarrow> string list" where
  "split_char d [] = [[]]"
| "split_char d (c # cs) =
     (if c = d then [] # split_char d cs
      else (case split_char d cs of [] \<Rightarrow> [[c]] | w # ws \<Rightarrow> (c # w) # ws))"

lemma split_char_not_Nil [simp]: "split_char d s \<noteq> []"
  by (cases s) (auto split: list.splits)

lemma split_char_none: "d \<notin> set s \<Longrightarrow> split_char d s = [s]"
  by (induction s) auto

lemma split_char_append:
  "d \<notin> set w \<Longrightarrow> split_char d (w @ d # s) = w # split_char d s"
  by (induction w) auto

lemma split_char_append_split: "split_char d (s @ d # t) = split_char d s @ split_char d t"
  by (induction s) (auto split: list.split)

lemma split_char_parts: "w \<in> set (split_char d s) \<Longrightarrow> d \<notin> set w"
  by (induction s arbitrary: w) (auto split: if_splits list.splits)

lemma split_char_concat:
  "(\<And>w. w \<in> set ws \<Longrightarrow> d \<notin> set w) \<Longrightarrow> d \<notin> set z \<Longrightarrow>
   split_char d (concat (map (\<lambda>w. w @ [d]) ws) @ z) = ws @ [z]"
  by (induction ws) (auto simp: split_char_none split_char_append)

text \<open>\<open>strings.Cut(s, sep)\<close> for a separator of one byte; \<open>None\<close> is \<open>found == false\<close>.\<close>

fun cut_char :: "char \<Rightarrow> string \<Rightarrow> (string \<times> string) option" where
  "cut_char d [] = None"
| "cut_char d (c # cs) =
     (if c = d then Some ([], cs) else map_option (\<lambda>(k, v). (c # k, v)) (cut_char d cs))"

lemma cut_char_append: "d \<notin> set k \<Longrightarrow> cut_char d (k @ d # v) = Some (k, v)"
  by (induction k) auto

lemma cut_char_None: "cut_char d s = None \<longleftrightarrow> d \<notin> set s"
  by (induction s) auto

lemma cut_char_SomeD: "cut_char d s = Some (k, v) \<Longrightarrow> s = k @ d # v \<and> d \<notin> set k"
  by (induction s arbitrary: k) (auto split: if_splits)

text \<open>\<open>strings.TrimRight(s, cutset)\<close> and \<open>strings.Trim\<close> for a cutset of one ASCII byte.\<close>

definition trim_right_char :: "char \<Rightarrow> string \<Rightarrow> string" where
  "trim_right_char d s = rev (dropWhile (\<lambda>c. c = d) (rev s))"

definition trim_char :: "char \<Rightarrow> string \<Rightarrow> string" where
  "trim_char d s = trim_right_char d (dropWhile (\<lambda>c. c = d) s)"

lemma trim_right_char_id: "s = [] \<or> last s \<noteq> d \<Longrightarrow> trim_right_char d s = s"
  by (cases s rule: rev_cases) (auto simp: trim_right_char_def)

lemma trim_right_char_append_same [simp]:
  "trim_right_char d (s @ [d]) = trim_right_char d s"
  by (simp add: trim_right_char_def)

lemma trim_right_char_snoc [simp]:
  "c \<noteq> d \<Longrightarrow> trim_right_char d (s @ [c]) = s @ [c]"
  by (simp add: trim_right_char_def)

lemma trim_right_char_subset: "set (trim_right_char d s) \<subseteq> set s"
  by (auto simp: trim_right_char_def dest: set_dropWhileD)

lemma length_trim_right_char: "length (trim_right_char d s) \<le> length s"
  by (metis length_dropWhile_le length_rev trim_right_char_def)

lemma trim_right_char_last: "trim_right_char d s = [] \<or> last (trim_right_char d s) \<noteq> d"
  by (induction s rule: rev_induct) (auto simp: trim_right_char_def)

lemma trim_right_char_replicate [simp]: "trim_right_char d (s @ replicate n d) = trim_right_char d s"
  by (induction n) (auto simp flip: replicate_append_same append_assoc)

text \<open>\<open>strings.Contains\<close>, \<open>strings.Index\<close> and \<open>strings.ReplaceAll\<close> of one byte.\<close>

fun index_of :: "string \<Rightarrow> string \<Rightarrow> nat option" where
  "index_of sub s =
     (if prefix sub s then Some 0
      else (case s of [] \<Rightarrow> None | c # cs \<Rightarrow> map_option Suc (index_of sub cs)))"

declare index_of.simps [simp del]

definition contains :: "string \<Rightarrow> string \<Rightarrow> bool" where
  "contains s sub \<longleftrightarrow> index_of sub s \<noteq> None"

definition replace_char :: "char \<Rightarrow> string \<Rightarrow> string \<Rightarrow> string" where
  "replace_char d new s = concat (map (\<lambda>c. if c = d then new else [c]) s)"

lemma replace_char_Nil [simp]: "replace_char d new [] = []"
  by (simp add: replace_char_def)

lemma replace_char_Cons [simp]:
  "replace_char d new (c # s) = (if c = d then new else [c]) @ replace_char d new s"
  by (simp add: replace_char_def)

lemma replace_char_append [simp]:
  "replace_char d new (s @ t) = replace_char d new s @ replace_char d new t"
  by (simp add: replace_char_def)

lemma index_of_SomeD:
  "index_of sub s = Some i \<Longrightarrow> i + length sub \<le> length s \<and> take (length sub) (drop i s) = sub"
proof (induction s arbitrary: i)
  case Nil
  then show ?case by (subst (asm) index_of.simps) (auto split: if_splits)
next
  case (Cons c s)
  show ?case
  proof (cases "prefix sub (c # s)")
    case True
    with Cons.prems have "i = 0" by (subst (asm) index_of.simps) auto
    with True show ?thesis using prefix_length_le [OF True] by (auto simp: prefix_def)
  next
    case False
    with Cons.prems obtain j where "i = Suc j" and "index_of sub s = Some j"
      by (subst (asm) index_of.simps) auto
    with Cons.IH show ?thesis by fastforce
  qed
qed

text \<open>The first occurrence does not move when text is appended after it.\<close>

lemma index_of_append: "index_of sub s = Some i \<Longrightarrow> index_of sub (s @ t) = Some i"
proof (induction s arbitrary: i)
  case Nil
  then show ?case
    by (subst (asm) index_of.simps, subst index_of.simps) (auto split: if_splits simp: prefix_def)
next
  case (Cons c s)
  show ?case
  proof (cases "prefix sub (c # s)")
    case True
    with Cons.prems have "i = 0" by (subst (asm) index_of.simps) auto
    moreover from True have "prefix sub ((c # s) @ t)" by (rule prefix_prefix)
    ultimately show ?thesis by (subst index_of.simps) simp
  next
    case False
    with Cons.prems obtain j where j: "i = Suc j" "index_of sub s = Some j"
      by (subst (asm) index_of.simps) auto
    then have "index_of sub (s @ t) = Some j" by (intro Cons.IH)
    moreover have "\<not> prefix sub ((c # s) @ t)"
    proof
      assume "prefix sub ((c # s) @ t)"
      moreover from j(2) have "length sub \<le> length (c # s)" by (auto dest: index_of_SomeD)
      ultimately show False using False by (metis prefix_append prefix_length_le
          append_eq_append_conv_if prefix_def prefix_same_cases prefix_order.dual_order.refl
          prefix_length_prefix prefixI)
    qed
    ultimately show ?thesis using j(1) by (subst index_of.simps) simp
  qed
qed

text \<open>\<open>strings.Split\<close> for a longer separator and \<open>strings.SplitN(s, sep, n)\<close> with \<open>n \<ge> 1\<close>.\<close>

function split_str :: "string \<Rightarrow> string \<Rightarrow> string list" where
  "split_str sep s = (if sep = [] then [s] else case index_of sep s of
      None \<Rightarrow> [s]
    | Some i \<Rightarrow> take i s # split_str sep (drop (i + length sep) s))"
  by pat_completeness auto
termination
  by (relation "measure (\<lambda>(sep, s). length s)") (auto dest!: index_of_SomeD simp flip: length_greater_0_conv)

declare split_str.simps [simp del]

fun split_n :: "nat \<Rightarrow> char \<Rightarrow> string \<Rightarrow> string list" where
  "split_n 0 d s = []"
| "split_n (Suc 0) d s = [s]"
| "split_n (Suc n) d s = (case cut_char d s of None \<Rightarrow> [s] | Some (w, rest) \<Rightarrow> w # split_n n d rest)"

lemma split_str_not_Nil [simp]: "split_str sep s \<noteq> []"
  by (subst split_str.simps) (auto split: option.split)

lemma index_of_prefix: "prefix sub s \<Longrightarrow> index_of sub s = Some 0"
  by (subst index_of.simps) simp

lemma index_of_Cons: "\<not> prefix sub (c # s) \<Longrightarrow> index_of sub (c # s) = map_option Suc (index_of sub s)"
  by (subst index_of.simps) simp

text \<open>A pattern whose first byte does not occur before it is found right there.\<close>

lemma index_of_first:
  "d \<notin> set w \<Longrightarrow> index_of (d # sub) (w @ d # sub @ s) = Some (length w)"
  by (induction w) (auto simp: index_of_prefix index_of_Cons)

lemma index_of_skip:
  "d \<notin> set w \<Longrightarrow> index_of (d # sub) (w @ s) = map_option (\<lambda>i. length w + i) (index_of (d # sub) s)"
  by (induction w) (auto simp: index_of_Cons split: option.split, (cases "index_of (d # sub) s"; simp)+)

lemma index_of_absent: "d \<notin> set s \<Longrightarrow> index_of (d # sub) s = None"
  by (induction s) (auto simp: index_of_Cons, auto simp: index_of.simps)

lemma split_str_first:
  "d \<notin> set w \<Longrightarrow> split_str (d # sub) (w @ d # sub @ s) = w # split_str (d # sub) s"
  by (subst split_str.simps) (simp add: index_of_first)

lemma split_str_last: "d \<notin> set s \<Longrightarrow> split_str (d # sub) s = [s]"
  by (subst split_str.simps) (simp add: index_of_absent)

text \<open>The lower case of ASCII letters.\<close>

definition lower_ascii :: "char \<Rightarrow> char" where
  "lower_ascii c = (if 65 \<le> ord c \<and> ord c \<le> 90 then char_of (ord c + 32) else c)"

definition to_lower :: "string \<Rightarrow> string" where
  "to_lower s = map lower_ascii s"

end
