(* ===== verification/Go_Numbers.thy ===== *)
theory Go_Numbers
  imports Go_Strings
begin

text \<open>
  Package \<open>strconv\<close> for integers: \<open>FormatInt\<close>/\<open>Itoa\<close> in base 10, and \<open>ParseInt\<close>/\<open>Atoi\<close>
  with the value they return next to an error, since the server drops the error. Go's
  \<open>int\<close> and \<open>int64\<close> are 64 bits wide; \<open>i64\<close> is the wrap-around of their arithmetic.
\<close>

definition max_int64 :: int where "max_int64 = 9223372036854775807"
definition min_int64 :: int where "min_int64 = -9223372036854775808"

definition i64 :: "int \<Rightarrow> int" where
  "i64 x = (x + 9223372036854775808) mod 18446744073709551616 - 9223372036854775808"

definition int64_range :: "int \<Rightarrow> bool" where
  "int64_range x \<longleftrightarrow> min_int64 \<le> x \<and> x \<le> max_int64"

lemma i64_id: "int64_range x \<Longrightarrow> i64 x = x"
  by (simp add: i64_def int64_range_def min_int64_def max_int64_def)

lemma i64_range: "int64_range (i64 x)"
proof -
  have "0 \<le> (x + 9223372036854775808) mod 18446744073709551616"
    "(x + 9223372036854775808) mod 18446744073709551616 < 18446744073709551616"
    by simp_all
  then show ?thesis
    unfolding i64_def int64_range_def min_int64_def max_int64_def by (intro conjI; linarith)
qed

subsection \<open>Formatting\<close>

fun digits10 :: "nat \<Rightarrow> string" where
  "digits10 n = (if n < 10 then [digit_char n] else digits10 (n div 10) @ [digit_char (n mod 10)])"

declare digits10.simps [simp del]

definition itoa :: "int \<Rightarrow> string" where
  "itoa i = (if i < 0 then CHR ''-'' # digits10 (nat (- i)) else digits10 (nat i))"

lemma digits10_not_Nil [simp]: "digits10 n \<noteq> []"
  by (subst digits10.simps) simp

lemma digits10_digits: "c \<in> set (digits10 n) \<Longrightarrow> is_digit c"
proof (induction n rule: digits10.induct)
  case (1 n)
  show ?case
  proof (cases "n < 10")
    case True
    with "1.prems" show ?thesis by (subst (asm) digits10.simps) auto
  next
    case False
    with "1.prems" have "c \<in> set (digits10 (n div 10)) \<or> c = digit_char (n mod 10)"
      by (subst (asm) digits10.simps) auto
    with False "1.IH" show ?thesis by auto
  qed
qed

lemma itoa_not_Nil [simp]: "itoa i \<noteq> []"
  by (simp add: itoa_def)

lemma itoa_chars: "c \<in> set (itoa i) \<Longrightarrow> is_digit c \<or> c = CHR ''-''"
  by (auto simp: itoa_def dest: digits10_digits split: if_splits)

lemma itoa_no_char:
  assumes "\<not> is_digit d" "d \<noteq> CHR ''-''"
  shows "d \<notin> set (itoa i)"
  using assms by (auto dest: itoa_chars)

subsection \<open>Parsing\<close>

datatype num_error = ErrSyntax | ErrRange

text \<open>
  The loop of \<open>ParseUint(s, 10, 64)\<close>: a byte that is not a digit is a syntax error, and the
  first overflow ends the loop with a range error, before the bytes after it are looked at.
\<close>

fun parse_digits :: "int \<Rightarrow> string \<Rightarrow> num_error + int" where
  "parse_digits n [] = Inr n"
| "parse_digits n (c # cs) =
     (if \<not> is_digit c then Inl ErrSyntax
      else if 18446744073709551616 \<le> n * 10 + int (digit_val c) then Inl ErrRange
      else parse_digits (n * 10 + int (digit_val c)) cs)"

definition parse_uint :: "string \<Rightarrow> num_error + int" where
  "parse_uint s = (if s = [] then Inl ErrSyntax else parse_digits 0 s)"

text \<open>\<open>ParseInt(s, 10, 64)\<close>: the value and, when there is one, the error.\<close>

definition parse_int :: "string \<Rightarrow> int \<times> num_error option" where
  "parse_int s =
     (let neg = (s \<noteq> [] \<and> hd s = CHR ''-'');
          body = (if s \<noteq> [] \<and> (hd s = CHR ''-'' \<or> hd s = CHR ''+'') then tl s else s)
      in if s = [] then (0, Some ErrSyntax)
         else (case parse_uint body of
             Inl ErrSyntax \<Rightarrow> (0, Some ErrSyntax)
           | Inl ErrRange \<Rightarrow> (if neg then min_int64 else max_int64, Some ErrRange)
           | Inr n \<Rightarrow>
               (if \<not> neg \<and> 9223372036854775808 \<le> n then (max_int64, Some ErrRange)
                else if neg \<and> 9223372036854775808 < n then (min_int64, Some ErrRange)
                else (if neg then - n else n, None))))"

text \<open>\<open>i, _ := strconv.Atoi(value)\<close> keeps the value and drops the error.\<close>

definition atoi_value :: "string \<Rightarrow> int" where
  "atoi_value s = fst (parse_int s)"

definition atoi_checked :: "string \<Rightarrow> int option" where
  "atoi_checked s = (case parse_int s of (n, None) \<Rightarrow> Some n | (n, Some e) \<Rightarrow> None)"

lemma parse_digits_nonneg: "0 \<le> n \<Longrightarrow> parse_digits n s = Inr m \<Longrightarrow> 0 \<le> m"
proof (induction s arbitrary: n)
  case (Cons c s)
  have "0 \<le> n * 10 + int (digit_val c)" using Cons.prems by simp
  with Cons show ?case by (metis parse_digits.simps(2) Inl_Inr_False)
qed simp

lemma parse_uint_nonneg: "parse_uint s = Inr m \<Longrightarrow> 0 \<le> m"
  by (auto simp: parse_uint_def split: if_splits intro: parse_digits_nonneg [of 0])

lemma parse_int_range: "int64_range (fst (parse_int s))"
  by (auto simp: parse_int_def int64_range_def min_int64_def max_int64_def Let_def
      split: sum.splits num_error.splits dest: parse_uint_nonneg)

lemma atoi_value_range: "int64_range (atoi_value s)"
  by (simp add: atoi_value_def parse_int_range)

lemma parse_digits_snoc:
  "parse_digits n (cs @ [c]) =
     (case parse_digits n cs of Inl e \<Rightarrow> Inl e
      | Inr m \<Rightarrow> if \<not> is_digit c then Inl ErrSyntax
                 else if 18446744073709551616 \<le> m * 10 + int (digit_val c) then Inl ErrRange
                 else Inr (m * 10 + int (digit_val c)))"
  by (induction cs arbitrary: n) auto

lemma parse_digits_digits10:
  "n < 18446744073709551616 \<Longrightarrow> parse_digits 0 (digits10 n) = Inr (int n)"
proof (induction n rule: digits10.induct)
  case (1 n)
  show ?case
  proof (cases "n < 10")
    case True
    then show ?thesis by (subst digits10.simps) simp
  next
    case False
    from "1.prems" have "n div 10 < 18446744073709551616" by simp
    with False "1.IH" have "parse_digits 0 (digits10 (n div 10)) = Inr (int (n div 10))" by simp
    with False "1.prems" show ?thesis
      by (subst digits10.simps) (simp add: parse_digits_snoc zdiv_int zmod_int)
  qed
qed

lemma parse_uint_digits10:
  "n < 18446744073709551616 \<Longrightarrow> parse_uint (digits10 n) = Inr (int n)"
  by (simp add: parse_uint_def parse_digits_digits10)

lemma hd_digits10: "is_digit (hd (digits10 n))"
  by (rule digits10_digits [of _ n]) simp

lemma parse_int_itoa:
  assumes "int64_range i"
  shows "parse_int (itoa i) = (i, None)"
proof (cases "i < 0")
  case True
  with assms have "nat (- i) < 18446744073709551616" "nat (- i) \<le> 9223372036854775808"
    by (auto simp: int64_range_def min_int64_def)
  with True show ?thesis
    by (simp add: parse_int_def itoa_def parse_uint_digits10)
next
  case False
  have "hd (digits10 (nat i)) \<noteq> CHR ''-''" "hd (digits10 (nat i)) \<noteq> CHR ''+''"
    using hd_digits10 [of "nat i"] by (auto simp: is_digit_def ord_def)
  moreover from False assms have "nat i < 9223372036854775808"
    by (auto simp: int64_range_def max_int64_def)
  ultimately show ?thesis using False
    by (simp add: parse_int_def itoa_def parse_uint_digits10)
qed

lemma atoi_value_itoa: "int64_range i \<Longrightarrow> atoi_value (itoa i) = i"
  by (simp add: atoi_value_def parse_int_itoa)

lemma atoi_checked_itoa: "int64_range i \<Longrightarrow> atoi_checked (itoa i) = Some i"
  by (simp add: atoi_checked_def parse_int_itoa)

lemma atoi_value_Nil [simp]: "atoi_value [] = 0"
  by (simp add: atoi_value_def parse_int_def)

lemma itoa_inj:
  assumes "int64_range i" "int64_range j" "itoa i = itoa j"
  shows "i = j"
  using assms by (metis atoi_value_itoa)

end
