(* ===== verification/Go_Utf8.thy ===== *)
theory Go_Utf8
  imports Go_Strings
begin

text \<open>
  Package \<open>unicode/utf8\<close> and what rests on it: \<open>for _, r := range s\<close> (the runes of a string)
  and \<open>strings.TrimSpace\<close>. An invalid sequence decodes to U+FFFD and consumes one byte.
\<close>

definition rune_error :: nat where "rune_error = 65533"

definition cont :: "char \<Rightarrow> bool" where
  "cont c \<longleftrightarrow> 128 \<le> ord c \<and> ord c < 192"

text \<open>The range that the second byte must lie in, by the first byte.\<close>

definition second_ok :: "nat \<Rightarrow> nat \<Rightarrow> bool" where
  "second_ok b0 b1 \<longleftrightarrow>
     (if b0 = 224 then 160 \<le> b1 \<and> b1 \<le> 191
      else if b0 = 237 then 128 \<le> b1 \<and> b1 \<le> 159
      else if b0 = 240 then 144 \<le> b1 \<and> b1 \<le> 191
      else if b0 = 244 then 128 \<le> b1 \<and> b1 \<le> 143
      else 128 \<le> b1 \<and> b1 \<le> 191)"

definition decode_rune :: "string \<Rightarrow> nat \<times> nat" where
  "decode_rune s =
     (case s of
        [] \<Rightarrow> (rune_error, 0)
      | c0 # rest \<Rightarrow>
         (let b0 = ord c0 in
          if b0 < 128 then (b0, 1)
          else if b0 < 194 \<or> 244 < b0 then (rune_error, 1)
          else (case rest of
             [] \<Rightarrow> (rune_error, 1)
           | c1 # rest1 \<Rightarrow>
              if \<not> second_ok b0 (ord c1) then (rune_error, 1)
              else if b0 < 224 then ((b0 - 192) * 64 + (ord c1 - 128), 2)
              else (case rest1 of
                 [] \<Rightarrow> (rune_error, 1)
               | c2 # rest2 \<Rightarrow>
                  if \<not> cont c2 then (rune_error, 1)
                  else if b0 < 240 then
                    ((b0 - 224) * 4096 + (ord c1 - 128) * 64 + (ord c2 - 128), 3)
                  else (case rest2 of
                     [] \<Rightarrow> (rune_error, 1)
                   | c3 # _ \<Rightarrow>
                      if \<not> cont c3 then (rune_error, 1)
                      else ((b0 - 240) * 262144 + (ord c1 - 128) * 4096
                            + (ord c2 - 128) * 64 + (ord c3 - 128), 4))))))"

fun runes :: "string \<Rightarrow> nat list" where
  "runes [] = []"
| "runes (c # cs) = (case decode_rune (c # cs) of (r, n) \<Rightarrow> r # runes (drop (n - 1) cs))"

lemma decode_rune_ascii: "ord c < 128 \<Longrightarrow> decode_rune (c # cs) = (ord c, 1)"
  by (simp add: decode_rune_def)

text \<open>
  A rune below 128 is exactly an ASCII byte: a longer sequence never decodes to one, and none of
  its bytes is one. So a scan of the runes for ASCII characters is a scan of the bytes.
\<close>

lemma decode_rune_high:
  assumes "128 \<le> ord c" "decode_rune (c # cs) = (r, n)"
  shows "128 \<le> r" and "\<forall>x \<in> set (take (n - 1) cs). 128 \<le> ord x"
proof -
  have "128 \<le> r \<and> (\<forall>x \<in> set (take (n - 1) cs). 128 \<le> ord x)"
    using assms
    by (auto simp: decode_rune_def rune_error_def second_ok_def cont_def Let_def take_Cons'
        split: list.splits if_splits)
  then show "128 \<le> r" "\<forall>x \<in> set (take (n - 1) cs). 128 \<le> ord x" by auto
qed

lemma runes_ascii_iff: "r < 128 \<Longrightarrow> r \<in> set (runes s) \<longleftrightarrow> (\<exists>c \<in> set s. ord c = r)"
proof (induction s rule: runes.induct)
  case 1
  then show ?case by simp
next
  case (2 c cs)
  obtain r0 n where rn: "decode_rune (c # cs) = (r0, n)" by (cases "decode_rune (c # cs)")
  with 2 have IH: "r \<in> set (runes (drop (n - 1) cs)) \<longleftrightarrow> (\<exists>c \<in> set (drop (n - 1) cs). ord c = r)"
    by auto
  show ?case
  proof (cases "ord c < 128")
    case True
    with rn have "n = 1" "r0 = ord c" by (auto simp: decode_rune_ascii)
    with IH rn show ?thesis by auto
  next
    case False
    then have high: "128 \<le> r0" "\<forall>x \<in> set (take (n - 1) cs). 128 \<le> ord x"
      using decode_rune_high [OF _ rn] by auto
    have "(\<exists>x \<in> set cs. ord x = r) \<longleftrightarrow> (\<exists>x \<in> set (drop (n - 1) cs). ord x = r)"
    proof
      assume "\<exists>x \<in> set cs. ord x = r"
      then obtain x where x: "x \<in> set cs" "ord x = r" by blast
      with high(2) "2.prems" have "x \<notin> set (take (n - 1) cs)" by auto
      moreover have "set cs = set (take (n - 1) cs) \<union> set (drop (n - 1) cs)"
        by (metis append_take_drop_id set_append)
      ultimately show "\<exists>x \<in> set (drop (n - 1) cs). ord x = r" using x by auto
    qed (auto dest: in_set_dropD)
    with IH rn False high(1) "2.prems" show ?thesis by auto
  qed
qed

lemma runes_high_iff: "(\<exists>r \<in> set (runes s). 128 \<le> r) \<longleftrightarrow> (\<exists>c \<in> set s. 128 \<le> ord c)"
proof (induction s rule: runes.induct)
  case 1
  then show ?case by simp
next
  case (2 c cs)
  obtain r0 n where rn: "decode_rune (c # cs) = (r0, n)" by (cases "decode_rune (c # cs)")
  show ?case
  proof (cases "ord c < 128")
    case True
    with rn have "n = 1" "r0 = ord c" by (auto simp: decode_rune_ascii)
    with 2 rn show ?thesis by auto
  next
    case False
    with rn have "128 \<le> r0" using decode_rune_high(1) [OF _ rn] by simp
    with rn False show ?thesis by auto
  qed
qed

lemma runes_ascii: "(\<And>c. c \<in> set s \<Longrightarrow> ord c < 128) \<Longrightarrow> runes s = map ord s"
  by (induction s) (auto simp: decode_rune_ascii)

text \<open>The two forms in which the validators use it: all runes pass, all bytes pass.\<close>

lemma runes_all_ascii:
  assumes "\<And>n. P n \<Longrightarrow> n < 128"
  shows "(\<forall>r \<in> set (runes s). P r) \<longleftrightarrow> (\<forall>c \<in> set s. P (ord c))"
proof
  assume all: "\<forall>r \<in> set (runes s). P r"
  then have "\<forall>r \<in> set (runes s). r < 128" using assms by blast
  then have "\<forall>c \<in> set s. ord c < 128" using runes_high_iff [of s] by force
  then show "\<forall>c \<in> set s. P (ord c)" using all runes_ascii_iff by blast
next
  assume all: "\<forall>c \<in> set s. P (ord c)"
  then have "\<And>c. c \<in> set s \<Longrightarrow> ord c < 128" using assms by blast
  with all show "\<forall>r \<in> set (runes s). P r" by (simp add: runes_ascii)
qed

lemma runes_no_ascii:
  assumes "\<And>n. P n \<Longrightarrow> n < 128"
  shows "(\<exists>r \<in> set (runes s). P r) \<longleftrightarrow> (\<exists>c \<in> set s. P (ord c))"
  using assms runes_ascii_iff by blast

subsection \<open>strings.TrimSpace\<close>

definition is_space :: "nat \<Rightarrow> bool" where
  "is_space r \<longleftrightarrow> r \<in> {9, 10, 11, 12, 13, 32, 133, 160, 5760, 8232, 8233, 8239, 8287, 12288}
                 \<or> (8192 \<le> r \<and> r \<le> 8202)"

fun trim_left_space :: "string \<Rightarrow> string" where
  "trim_left_space [] = []"
| "trim_left_space (c # cs) =
     (case decode_rune (c # cs) of (r, n) \<Rightarrow>
        if is_space r then trim_left_space (drop (n - 1) cs) else c # cs)"

text \<open>
  \<open>utf8.DecodeLastRune\<close>: look back at most four bytes for a byte that starts a rune, and accept
  the rune there when it ends at the end of the string.
\<close>

definition rune_start :: "char \<Rightarrow> bool" where
  "rune_start c \<longleftrightarrow> \<not> cont c"

definition decode_last_rune :: "string \<Rightarrow> nat \<times> nat" where
  "decode_last_rune s =
     (if s = [] then (rune_error, 0)
      else if ord (last s) < 128 then (ord (last s), 1)
      else (case find (\<lambda>k. k \<le> length s \<and> rune_start (s ! (length s - k))) [2, 3, 4] of
              None \<Rightarrow> (rune_error, 1)
            | Some k \<Rightarrow> (case decode_rune (drop (length s - k) s) of (r, n) \<Rightarrow>
                           if n = k then (r, n) else (rune_error, 1))))"

lemma decode_last_rune_size: "s \<noteq> [] \<Longrightarrow> 0 < snd (decode_last_rune s)"
  by (auto simp: decode_last_rune_def split: option.splits prod.splits)

function trim_right_space :: "string \<Rightarrow> string" where
  "trim_right_space s =
     (if s = [] then []
      else (case decode_last_rune s of (r, n) \<Rightarrow>
        if is_space r then trim_right_space (take (length s - n) s) else s))"
  by pat_completeness auto
termination
proof (relation "measure length")
  fix s :: string and x y
  assume s: "s \<noteq> []" "(x, y) = decode_last_rune s"
  then have "0 < y" using decode_last_rune_size [OF s(1)] by (metis snd_conv)
  with s(1) show "(take (length s - y) s, s) \<in> measure length" by simp
qed simp

declare trim_right_space.simps [simp del]

definition trim_space :: "string \<Rightarrow> string" where
  "trim_space s = trim_right_space (trim_left_space s)"

text \<open>What trimming does to any string, and what it amounts to on an ASCII one.\<close>

lemma trim_left_space_suffix: "suffix (trim_left_space s) s"
proof (induction s rule: trim_left_space.induct)
  case 1
  then show ?case by simp
next
  case (2 c cs)
  obtain r n where rn: "decode_rune (c # cs) = (r, n)" by (cases "decode_rune (c # cs)")
  show ?case
  proof (cases "is_space r")
    case True
    with rn 2 have "suffix (trim_left_space (drop (n - 1) cs)) (drop (n - 1) cs)" by auto
    then have "suffix (trim_left_space (drop (n - 1) cs)) (c # cs)"
      by (meson suffix_ConsI suffix_drop suffix_order.order_trans)
    with rn True show ?thesis by simp
  qed (use rn in simp)
qed

lemma trim_right_space_prefix: "prefix (trim_right_space s) s"
proof (induction s rule: trim_right_space.induct)
  case (1 s)
  obtain r n where rn: "decode_last_rune s = (r, n)" by (cases "decode_last_rune s")
  show ?case
  proof (cases "s \<noteq> [] \<and> is_space r")
    case True
    with rn 1 have "prefix (trim_right_space (take (length s - n) s)) (take (length s - n) s)" by auto
    then have "prefix (trim_right_space (take (length s - n) s)) s"
      by (meson prefix_order.order_trans take_is_prefix)
    with rn True show ?thesis by (subst trim_right_space.simps) simp
  next
    case False
    with rn show ?thesis by (subst trim_right_space.simps) auto
  qed
qed

lemma trim_space_subset: "set (trim_space s) \<subseteq> set s"
  unfolding trim_space_def
  by (meson order_trans set_mono_prefix set_mono_suffix trim_left_space_suffix trim_right_space_prefix)

lemma trim_space_length: "length (trim_space s) \<le> length s"
  unfolding trim_space_def
  by (meson order_trans prefix_length_le suffix_length_le trim_left_space_suffix trim_right_space_prefix)

definition ascii :: "string \<Rightarrow> bool" where
  "ascii s \<longleftrightarrow> (\<forall>c \<in> set s. ord c < 128)"

abbreviation sp :: "char \<Rightarrow> bool" where
  "sp c \<equiv> is_space (ord c)"

lemma ascii_subset: "ascii s \<Longrightarrow> set t \<subseteq> set s \<Longrightarrow> ascii t"
  by (auto simp: ascii_def)

lemma set_dropWhile_subset: "set (dropWhile P xs) \<subseteq> set xs"
  by (auto dest: set_dropWhileD)

lemma trim_left_space_ascii: "ascii s \<Longrightarrow> trim_left_space s = dropWhile sp s"
  by (induction s) (auto simp: ascii_def decode_rune_ascii)

lemma trim_right_space_ascii: "ascii s \<Longrightarrow> trim_right_space s = rev (dropWhile sp (rev s))"
proof (induction s rule: rev_induct)
  case Nil
  then show ?case by (subst trim_right_space.simps) simp
next
  case (snoc c s)
  then have "ascii s" "decode_last_rune (s @ [c]) = (ord c, 1)"
    by (auto simp: ascii_def decode_last_rune_def)
  with snoc show ?case by (subst trim_right_space.simps) simp
qed

lemma trim_space_ascii: "ascii s \<Longrightarrow> trim_space s = rev (dropWhile sp (rev (dropWhile sp s)))"
  by (simp add: trim_space_def trim_left_space_ascii trim_right_space_ascii
      ascii_subset [OF _ set_dropWhile_subset])

lemma trim_space_Nil_iff:
  assumes "ascii s"
  shows "trim_space s = [] \<longleftrightarrow> (\<forall>c \<in> set s. sp c)"
proof -
  have "trim_space s = [] \<longleftrightarrow> (\<forall>c \<in> set (dropWhile sp s). sp c)"
    using assms by (simp add: trim_space_ascii dropWhile_eq_Nil_conv)
  also have "\<dots> \<longleftrightarrow> (\<forall>c \<in> set s. sp c)"
    by (induction s) auto
  finally show ?thesis .
qed

lemma trim_space_ends:
  assumes "ascii s" "trim_space s \<noteq> []"
  shows "\<not> sp (hd (trim_space s))" and "\<not> sp (last (trim_space s))"
proof -
  let ?t = "dropWhile sp s"
  let ?u = "dropWhile sp (rev ?t)"
  have eq: "trim_space s = rev ?u" using assms(1) by (rule trim_space_ascii)
  with assms(2) have "?u \<noteq> []" by auto
  then have "\<not> sp (hd ?u)" by (rule hd_dropWhile)
  then show "\<not> sp (last (trim_space s))" using eq \<open>?u \<noteq> []\<close> by (simp add: last_rev)
  have "?t \<noteq> []" using \<open>?u \<noteq> []\<close> by (metis dropWhile.simps(1) rev.simps(1))
  then have hd: "\<not> sp (hd ?t)" by (rule hd_dropWhile)
  have "?t = rev ?u @ rev (takeWhile sp (rev ?t))"
    by (metis rev_append rev_rev_ident takeWhile_dropWhile_id)
  then have "hd ?t = hd (rev ?u)" using \<open>?u \<noteq> []\<close> by (metis hd_append2 rev_is_Nil_conv)
  with hd eq show "\<not> sp (hd (trim_space s))" by simp
qed

lemma trim_space_id:
  assumes "ascii s" "s = [] \<or> (\<not> sp (hd s) \<and> \<not> sp (last s))"
  shows "trim_space s = s"
proof (cases "s = []")
  case False
  with assms have "dropWhile sp s = s" by (cases s) auto
  moreover from False assms have "dropWhile sp (rev s) = rev s" by (cases s rule: rev_cases) auto
  ultimately show ?thesis using assms(1) by (simp add: trim_space_ascii)
qed (use assms in \<open>simp add: trim_space_ascii\<close>)

lemma trim_space_surround:
  assumes "ascii s" "s \<noteq> []" "\<not> sp (hd s)" "\<not> sp (last s)" "ascii (a @ b)" "\<forall>c \<in> set (a @ b). sp c"
  shows "trim_space (a @ s @ b) = s"
proof -
  have "ascii (a @ s @ b)" using assms(1,5) by (auto simp: ascii_def)
  moreover have "dropWhile sp (a @ s @ b) = s @ b"
    using assms(2,3,6) by (cases s) (auto simp: dropWhile_append2)
  moreover have "dropWhile sp (rev (s @ b)) = rev s"
    using assms(2,4,6) dropWhile_append2 [of "rev b" sp "rev s"] by (cases s rule: rev_cases) auto
  ultimately show ?thesis by (simp add: trim_space_ascii del: rev_append)
qed

end
