(* ===== verification/Go_Bytes.thy ===== *)
theory Go_Bytes
  imports Go_Numbers
begin

text \<open>
  The byte encodings of the standard library that the server uses: \<open>encoding/binary\<close> (big-endian
  32-bit integers), \<open>encoding/hex\<close> and \<open>encoding/base64\<close> (the URL alphabet with padding).
\<close>

subsection \<open>Big-endian 32-bit integers\<close>

definition be32 :: "32 word \<Rightarrow> string" where
  "be32 w = (let n = unat w in
     [char_of (n div 16777216), char_of (n div 65536), char_of (n div 256), char_of n])"

definition from_be32 :: "string \<Rightarrow> nat" where
  "from_be32 s = foldl (\<lambda>a c. a * 256 + ord c) 0 s"

lemma length_be32 [simp]: "length (be32 w) = 4"
  by (simp add: be32_def Let_def)

lemma from_be32_be32 [simp]: "from_be32 (be32 w) = unat w"
proof -
  define n where "n = unat w"
  have "n < 2 ^ LENGTH(32)" unfolding n_def by (rule unsigned_less)
  then have top: "n div 256 div 256 div 256 < 256" by simp
  have split: "n div 65536 = n div 256 div 256" "n div 16777216 = n div 256 div 256 div 256"
    by (simp_all flip: div_mult2_eq)
  have "((n div 256 div 256 div 256 * 256 + n div 256 div 256 mod 256) * 256
        + n div 256 mod 256) * 256 + n mod 256 = n"
    by (simp only: div_mult_mod_eq)
  then show ?thesis using top
    by (simp only: from_be32_def be32_def Let_def foldl.simps split ord_char_of mod_less
        n_def [symmetric] mult_0 add_0)
qed

lemma from_be32_bound: "from_be32 s < 256 ^ length s"
proof -
  have "foldl (\<lambda>a c. a * 256 + ord c) a s < (a + 1) * 256 ^ length s" for a
  proof (induction s arbitrary: a)
    case (Cons c s)
    have "foldl (\<lambda>a c. a * 256 + ord c) a (c # s) < (a * 256 + ord c + 1) * 256 ^ length s"
      using Cons.IH by simp
    also have "\<dots> \<le> (a * 256 + 256) * 256 ^ length s"
      using ord_less_256 [of c] by (intro mult_le_mono1) linarith
    finally show ?case by (simp add: algebra_simps)
  qed simp
  from this [of 0] show ?thesis by (simp add: from_be32_def)
qed

subsection \<open>Hexadecimal\<close>

definition hex_char :: "nat \<Rightarrow> char" where
  "hex_char n = char_of (if n < 10 then 48 + n else 87 + n)"

definition hex_encode :: "string \<Rightarrow> string" where
  "hex_encode s = concat (map (\<lambda>c. [hex_char (ord c div 16), hex_char (ord c mod 16)]) s)"

definition from_hex_char :: "char \<Rightarrow> nat option" where
  "from_hex_char c =
     (if 48 \<le> ord c \<and> ord c \<le> 57 then Some (ord c - 48)
      else if 97 \<le> ord c \<and> ord c \<le> 102 then Some (ord c - 87)
      else if 65 \<le> ord c \<and> ord c \<le> 70 then Some (ord c - 55)
      else None)"

text \<open>\<open>hex.DecodeString\<close>: \<open>None\<close> is its error (a bad digit or an odd length).\<close>

fun hex_decode :: "string \<Rightarrow> string option" where
  "hex_decode [] = Some []"
| "hex_decode [c] = None"
| "hex_decode (a # b # cs) =
     (case (from_hex_char a, from_hex_char b) of
        (Some x, Some y) \<Rightarrow> map_option (\<lambda>r. char_of (x * 16 + y) # r) (hex_decode cs)
      | _ \<Rightarrow> None)"

lemma from_hex_char_hex_char: "n < 16 \<Longrightarrow> from_hex_char (hex_char n) = Some n"
  by (auto simp: from_hex_char_def hex_char_def)

lemma hex_decode_encode [simp]: "hex_decode (hex_encode s) = Some s"
  by (induction s) (simp_all add: hex_encode_def from_hex_char_hex_char less_mult_imp_div_less)

lemma hex_encode_length [simp]: "length (hex_encode s) = 2 * length s"
  by (induction s) (simp_all add: hex_encode_def)

lemma hex_encode_append: "hex_encode (s @ t) = hex_encode s @ hex_encode t"
  by (simp add: hex_encode_def)

lemma hex_encode_inj: "hex_encode s = hex_encode t \<Longrightarrow> s = t"
  by (metis hex_decode_encode option.inject)

definition is_hex :: "char \<Rightarrow> bool" where
  "is_hex c \<longleftrightarrow> is_digit c \<or> (97 \<le> ord c \<and> ord c \<le> 102)"

lemma is_hex_hex_char: "n < 16 \<Longrightarrow> is_hex (hex_char n)"
  by (auto simp: is_hex_def hex_char_def is_digit_def)

lemma hex_encode_chars: "c \<in> set (hex_encode s) \<Longrightarrow> is_hex c"
  by (auto simp: hex_encode_def less_mult_imp_div_less intro!: is_hex_hex_char)

subsection \<open>Base 64, URL alphabet\<close>

definition base64_char :: "nat \<Rightarrow> char" where
  "base64_char n = char_of
     (if n < 26 then 65 + n else if n < 52 then 71 + n else if n < 62 then n - 4
      else if n = 62 then 45 else 95)"

fun base64_url :: "string \<Rightarrow> string" where
  "base64_url [] = []"
| "base64_url [a] =
     [base64_char (ord a div 4), base64_char (ord a mod 4 * 16), CHR ''='', CHR ''='']"
| "base64_url [a, b] =
     [base64_char (ord a div 4), base64_char (ord a mod 4 * 16 + ord b div 16),
      base64_char (ord b mod 16 * 4), CHR ''='']"
| "base64_url (a # b # c # cs) =
     [base64_char (ord a div 4), base64_char (ord a mod 4 * 16 + ord b div 16),
      base64_char (ord b mod 16 * 4 + ord c div 64), base64_char (ord c mod 64)]
     @ base64_url cs"

lemma base64_char_printable:
  assumes "n < 64"
  shows "33 \<le> ord (base64_char n) \<and> ord (base64_char n) \<le> 126"
  using assms by (auto simp: base64_char_def)

lemma base64_url_printable: "c \<in> set (base64_url s) \<Longrightarrow> 33 \<le> ord c \<and> ord c \<le> 126"
proof (induction s rule: base64_url.induct)
  case 1
  then show ?case by simp
next
  case (2 a)
  have "ord a div 4 < 64" "ord a mod 4 * 16 < 64" using ord_less_256 [of a] by linarith+
  with 2 show ?case by (auto simp: base64_char_printable) (auto simp: ord_def)
next
  case (3 a b)
  have "ord a div 4 < 64" "ord a mod 4 * 16 + ord b div 16 < 64" "ord b mod 16 * 4 < 64"
    using ord_less_256 [of a] ord_less_256 [of b] by linarith+
  with 3 show ?case by (auto simp: base64_char_printable) (auto simp: ord_def)
next
  case (4 a b c' cs)
  have "ord a div 4 < 64" "ord a mod 4 * 16 + ord b div 16 < 64"
    "ord b mod 16 * 4 + ord c' div 64 < 64" "ord c' mod 64 < 64"
    using ord_less_256 [of a] ord_less_256 [of b] ord_less_256 [of c'] by linarith+
  with 4 show ?case by (auto simp: base64_char_printable)
qed

lemma base64_url_length: "length (base64_url s) = (length s + 2) div 3 * 4"
proof (induction s rule: base64_url.induct)
  case (4 a b c cs)
  have "(length cs + 5) div 3 = (length cs + 2) div 3 + 1" by presburger
  with 4 show ?case by (simp add: add.commute)
qed auto

end
