(* ===== verification/Stream.thy ===== *)
theory Stream
  imports Prelude
begin

text \<open>
  The receive loop shared by both servers. A connection appends what it reads to a buffer and
  then takes complete messages off the front until the parser asks for more bytes; each message
  is handled before the next is parsed. The loop is written once, over a parser and a handler,
  and the contract that a parser has to meet for the framing of the reads not to matter is the
  locale \<open>incremental_parser\<close>, which the FESL and the HTTP parser interpret.
\<close>

type_synonym 'm parse_result = "unit + ('m \<times> string) option"

datatype pump_end = Waiting string | Stopped

text \<open>
  The inner loop: \<open>Inl ()\<close> is a parser that gives up (an error or a panic), \<open>Inr None\<close> asks for
  more bytes. The handler may stop the loop too. The guard on the length of the rest makes the
  function total for every parser; a parser that consumes input always passes it.
\<close>

function pump ::
  "(string \<Rightarrow> 'm parse_result) \<Rightarrow> ('m \<Rightarrow> 's \<Rightarrow> bool \<times> 's) \<Rightarrow> string \<Rightarrow> 's \<Rightarrow> pump_end \<times> 's" where
  "pump parse step buf s =
     (case parse buf of
        Inl _ \<Rightarrow> (Stopped, s)
      | Inr None \<Rightarrow> (Waiting buf, s)
      | Inr (Some (m, rest)) \<Rightarrow>
          (if length rest < length buf
           then (case step m s of
                   (True, s') \<Rightarrow> pump parse step rest s'
                 | (False, s') \<Rightarrow> (Stopped, s'))
           else (Waiting buf, s)))"
  by pat_completeness auto
termination
  by (relation "measure (\<lambda>(_, _, buf, _). length buf)") auto

declare pump.simps [simp del]

text \<open>The outer loop: one read per chunk, until the connection stops.\<close>

fun feed ::
  "(string \<Rightarrow> 'm parse_result) \<Rightarrow> ('m \<Rightarrow> 's \<Rightarrow> bool \<times> 's) \<Rightarrow> string list \<Rightarrow> pump_end \<times> 's \<Rightarrow> pump_end \<times> 's" where
  "feed parse step [] st = st"
| "feed parse step (chunk # chunks) st =
     (case st of
        (Stopped, s) \<Rightarrow> (Stopped, s)
      | (Waiting buf, s) \<Rightarrow> feed parse step chunks (pump parse step (buf @ chunk) s))"

lemma feed_Stopped [simp]: "feed parse step chunks (Stopped, s) = (Stopped, s)"
  by (cases chunks) auto

text \<open>An invariant of the handler's state is an invariant of the loop.\<close>

lemma pump_invariant:
  assumes "\<And>m s. I s \<Longrightarrow> I (snd (step m s))"
  shows "I s \<Longrightarrow> I (snd (pump parse step buf s))"
proof (induction "length buf" arbitrary: buf s rule: less_induct)
  case less
  have "I s'" if "step m s = (go, s')" for m go s'
    using assms [OF less.prems, of m] that by simp
  then show ?case
    by (subst pump.simps)
       (auto split: sum.splits option.splits prod.splits bool.splits intro: less.hyps less.prems)
qed

lemma feed_invariant:
  assumes "\<And>m s. I s \<Longrightarrow> I (snd (step m s))"
  shows "I s \<Longrightarrow> I (snd (feed parse step chunks (e, s)))"
proof (induction chunks arbitrary: e s)
  case (Cons c cs)
  show ?case
  proof (cases e)
    case (Waiting buf)
    have "I (snd (pump parse step (buf @ c) s))" using assms Cons.prems by (rule pump_invariant)
    with Cons.IH Waiting show ?thesis by (cases "pump parse step (buf @ c) s") simp
  qed (use Cons.prems in simp)
qed simp

text \<open>The messages in a buffer, and a handler that never stops: the loop is a fold over them.\<close>

function messages :: "(string \<Rightarrow> 'm parse_result) \<Rightarrow> string \<Rightarrow> pump_end \<times> 'm list" where
  "messages parse buf =
     (case parse buf of
        Inl _ \<Rightarrow> (Stopped, [])
      | Inr None \<Rightarrow> (Waiting buf, [])
      | Inr (Some (m, rest)) \<Rightarrow>
          (if length rest < length buf then (case messages parse rest of (e, ms) \<Rightarrow> (e, m # ms))
           else (Waiting buf, [])))"
  by pat_completeness auto
termination
  by (relation "measure (\<lambda>(_, buf). length buf)") auto

declare messages.simps [simp del]

lemma pump_fold:
  assumes "\<And>m s. fst (step m s)"
  shows "pump parse step buf s =
     (case messages parse buf of (e, ms) \<Rightarrow> (e, foldl (\<lambda>s m. snd (step m s)) s ms))"
proof (induction "length buf" arbitrary: buf s rule: less_induct)
  case less
  have "(case step m s of (True, s') \<Rightarrow> k s' | (False, s') \<Rightarrow> (Stopped, s')) = k (snd (step m s))" for m s k
    using assms [of m s] by (cases "step m s") simp
  then show ?case
    by (subst pump.simps, subst messages.simps) (auto simp: less split: sum.split option.split prod.split)
qed

locale incremental_parser =
  fixes parse :: "string \<Rightarrow> 'm parse_result"
  assumes consumes: "parse b = Inr (Some (m, rest)) \<Longrightarrow> \<exists>used. used \<noteq> [] \<and> b = used @ rest"
    and extend_complete: "parse b = Inr (Some (m, rest)) \<Longrightarrow> parse (b @ more) = Inr (Some (m, rest @ more))"
    and extend_stop: "parse b = Inl () \<Longrightarrow> parse (b @ more) = Inl ()"
begin

lemma rest_shorter: "parse b = Inr (Some (m, rest)) \<Longrightarrow> length rest < length b"
  by (auto dest!: consumes)

lemma pump_complete:
  "parse b = Inr (Some (m, rest)) \<Longrightarrow>
   pump parse step b s =
     (case step m s of (True, s') \<Rightarrow> pump parse step rest s' | (False, s') \<Rightarrow> (Stopped, s'))"
  by (subst pump.simps) (simp add: rest_shorter)

lemma pump_stop: "parse b = Inl () \<Longrightarrow> pump parse step b s = (Stopped, s)"
  by (subst pump.simps) simp

lemma pump_more: "parse b = Inr None \<Longrightarrow> pump parse step b s = (Waiting b, s)"
  by (subst pump.simps) simp

text \<open>Bytes that arrive later are handled as if they had been in the buffer from the start.\<close>

lemma pump_append:
  "pump parse step (b @ more) s =
     (case pump parse step b s of
        (Waiting left, s') \<Rightarrow> pump parse step (left @ more) s'
      | (Stopped, s') \<Rightarrow> (Stopped, s'))"
proof (induction "length b" arbitrary: b s rule: less_induct)
  case less
  show ?case
  proof (cases "parse b")
    case (Inl u)
    then have "parse b = Inl ()" by simp
    then show ?thesis by (simp add: pump_stop extend_stop)
  next
    case (Inr r)
    show ?thesis
    proof (cases r)
      case None
      with Inr show ?thesis by (simp add: pump_more)
    next
      case (Some mr)
      obtain m rest where "mr = (m, rest)" by (cases mr)
      with Inr Some have p: "parse b = Inr (Some (m, rest))" by simp
      from rest_shorter [OF p] have "pump parse step (rest @ more) s' =
          (case pump parse step rest s' of
             (Waiting left, s'') \<Rightarrow> pump parse step (left @ more) s''
           | (Stopped, s'') \<Rightarrow> (Stopped, s''))" for s'
        by (rule less)
      then show ?thesis
        by (simp add: pump_complete [OF p] pump_complete [OF extend_complete [OF p]]
            split: prod.splits bool.splits)
    qed
  qed
qed

text \<open>
  So the reads can be cut anywhere: the state after a sequence of reads depends on the bytes
  only.
\<close>

lemma feed_concat:
  "chunks \<noteq> [] \<Longrightarrow> feed parse step chunks (Waiting b, s) = pump parse step (b @ concat chunks) s"
proof (induction chunks arbitrary: b s)
  case Nil
  then show ?case by simp
next
  case (Cons c cs)
  show ?case
  proof (cases "cs = []")
    case True
    then show ?thesis by simp
  next
    case False
    have "feed parse step (c # cs) (Waiting b, s) = feed parse step cs (pump parse step (b @ c) s)"
      by simp
    also have "\<dots> = (case pump parse step (b @ c) s of
        (Waiting left, s') \<Rightarrow> pump parse step (left @ concat cs) s'
      | (Stopped, s') \<Rightarrow> (Stopped, s'))"
      using Cons.IH [OF False] by (auto split: prod.splits pump_end.splits)
    also have "\<dots> = pump parse step ((b @ c) @ concat cs) s"
      by (rule pump_append [symmetric])
    finally show ?thesis by simp
  qed
qed

lemma feed_chunking:
  assumes "concat chunks = concat chunks'" "chunks \<noteq> []" "chunks' \<noteq> []"
  shows "feed parse step chunks (Waiting b, s) = feed parse step chunks' (Waiting b, s)"
  using assms by (simp add: feed_concat)

end

end
