(* ===== verification/Go_Float.thy ===== *)
theory Go_Float
  imports Go_Numbers Complex_Main "HOL-Library.Product_Lexorder"
begin

text \<open>
  Go's \<open>float64\<close> as far as the server uses it: parsing (\<open>strconv.ParseFloat\<close>, with the value
  returned next to an error), comparing, and printing with \<open>%.6f\<close>. A finite value is the
  rational number it denotes; the two zeros are kept apart because they print differently.
\<close>

datatype float64 = NegInf | Fin rat | NegZero | PosInf | NaN

text \<open>
  The order in which SQL sorts and compares the values (a NaN is never stored: the driver binds
  it as NULL). On values other than NaN and the zeros it is the order of IEEE 754; the server
  compares with 0 only by \<open>>\<close>, where both zeros fail, and by \<open>==\<close>, which is \<open>is_zero\<close>.
\<close>

fun float_key :: "float64 \<Rightarrow> nat \<times> rat" where
  "float_key NegInf = (0, 0)"
| "float_key (Fin q) = (if q < 0 then 1 else 3, q)"
| "float_key NegZero = (2, 0)"
| "float_key PosInf = (4, 0)"
| "float_key NaN = (5, 0)"

lemma float_key_inj: "float_key x = float_key y \<Longrightarrow> x = y"
  by (cases x; cases y) (auto split: if_splits)

instantiation float64 :: linorder
begin

definition less_eq_float64 :: "float64 \<Rightarrow> float64 \<Rightarrow> bool" where
  "less_eq_float64 x y \<longleftrightarrow> float_key x \<le> float_key y"

definition less_float64 :: "float64 \<Rightarrow> float64 \<Rightarrow> bool" where
  "less_float64 x y \<longleftrightarrow> float_key x < float_key y"

instance
proof
  fix x y z :: float64
  show "x < y \<longleftrightarrow> x \<le> y \<and> \<not> y \<le> x"
    by (simp add: less_eq_float64_def less_float64_def less_le_not_le)
  show "x \<le> x" by (simp add: less_eq_float64_def)
  show "x \<le> y \<Longrightarrow> y \<le> z \<Longrightarrow> x \<le> z"
    by (simp add: less_eq_float64_def)
  show "x \<le> y \<Longrightarrow> y \<le> x \<Longrightarrow> x = y"
    by (auto simp: less_eq_float64_def intro: float_key_inj antisym)
  show "x \<le> y \<or> y \<le> x"
    by (simp add: less_eq_float64_def linear)
qed

end

lemmas float_order = less_eq_float64_def less_float64_def

definition is_zero :: "float64 \<Rightarrow> bool" where
  "is_zero v \<longleftrightarrow> v = Fin 0 \<or> v = NegZero"

definition positive :: "float64 \<Rightarrow> bool" where
  "positive v \<longleftrightarrow> Fin 0 < v"

lemma positive_simps [simp]:
  "positive (Fin q) \<longleftrightarrow> 0 < q" "\<not> positive NegZero" "positive PosInf" "\<not> positive NegInf"
  by (auto simp: positive_def less_float64_def)

text \<open>\<open>int(v)\<close>: the fraction is cut off; outside the range of an \<open>int\<close>, amd64 gives the smallest one.\<close>

definition float_to_int :: "float64 \<Rightarrow> int" where
  "float_to_int v = (case v of
      Fin q \<Rightarrow> (let i = (if 0 \<le> q then \<lfloor>q\<rfloor> else \<lceil>q\<rceil>) in if int64_range i then i else min_int64)
    | NegZero \<Rightarrow> 0
    | _ \<Rightarrow> min_int64)"

subsection \<open>Rounding\<close>

definition round_half_even :: "rat \<Rightarrow> int" where
  "round_half_even x =
     (let f = \<lfloor>x\<rfloor>; d = x - of_int f in
      if d < 1 / 2 then f else if 1 / 2 < d then f + 1 else if even f then f else f + 1)"

fun bit_length :: "nat \<Rightarrow> nat" where
  "bit_length n = (if n = 0 then 0 else Suc (bit_length (n div 2)))"

declare bit_length.simps [simp del]

definition pow2 :: "int \<Rightarrow> rat" where
  "pow2 e = (if 0 \<le> e then 2 ^ nat e else 1 / 2 ^ nat (- e))"

definition floor_log2 :: "rat \<Rightarrow> int" where
  "floor_log2 x = (case quotient_of x of (n, d) \<Rightarrow>
     let e = int (bit_length (nat n)) - int (bit_length (nat d))
     in if x < pow2 e then e - 1 else e)"

text \<open>The nearest \<open>float64\<close> of a non-negative rational, ties to even, with the given sign.\<close>

definition round_float64 :: "bool \<Rightarrow> rat \<Rightarrow> float64" where
  "round_float64 neg x =
     (if x = 0 then (if neg then NegZero else Fin 0)
      else (let u = max (floor_log2 x - 52) (- 1074);
                r = of_int (round_half_even (x / pow2 u)) * pow2 u
            in if 1024 \<le> floor_log2 r then (if neg then NegInf else PosInf)
               else if r = 0 then (if neg then NegZero else Fin 0)
               else Fin (if neg then - r else r)))"

subsection \<open>strconv.ParseFloat\<close>

definition hex_digit :: "char \<Rightarrow> nat option" where
  "hex_digit c =
     (if is_digit c then Some (digit_val c)
      else (let l = ord (lower_ascii c) in if 97 \<le> l \<and> l \<le> 102 then Some (l - 87) else None))"

definition base_digit :: "bool \<Rightarrow> char \<Rightarrow> nat option" where
  "base_digit hex c = (if hex then hex_digit c else if is_digit c then Some (digit_val c) else None)"

text \<open>
  The mantissa loop of \<open>readFloat\<close>: the digits read so far as an integer, the number of them
  after the point, and the flags \<open>sawdot\<close> and \<open>sawdigits\<close>.
\<close>

fun read_mantissa :: "bool \<Rightarrow> nat \<Rightarrow> nat \<Rightarrow> bool \<Rightarrow> bool \<Rightarrow> string \<Rightarrow> nat \<times> nat \<times> bool \<times> string" where
  "read_mantissa hex m f sawdot sawdigits [] = (m, f, sawdigits, [])"
| "read_mantissa hex m f sawdot sawdigits (c # cs) =
     (if c = CHR ''_'' then read_mantissa hex m f sawdot sawdigits cs
      else if c = CHR ''.'' then
        (if sawdot then (m, f, sawdigits, c # cs) else read_mantissa hex m f True sawdigits cs)
      else (case base_digit hex c of
          Some d \<Rightarrow> read_mantissa hex (m * (if hex then 16 else 10) + d)
                      (if sawdot then Suc f else f) sawdot True cs
        | None \<Rightarrow> (m, f, sawdigits, c # cs)))"

text \<open>The exponent digits; the value stops growing at 10000 as in the source of the library.\<close>

fun read_exponent :: "nat \<Rightarrow> string \<Rightarrow> nat \<times> string" where
  "read_exponent e [] = (e, [])"
| "read_exponent e (c # cs) =
     (if c = CHR ''_'' then read_exponent e cs
      else if is_digit c then read_exponent (if e < 10000 then e * 10 + digit_val c else e) cs
      else (e, c # cs))"

datatype uscore_state = UsStart | UsDigit | UsUnder | UsOther

fun underscore_scan :: "bool \<Rightarrow> uscore_state \<Rightarrow> string \<Rightarrow> bool" where
  "underscore_scan hex st [] = (st \<noteq> UsUnder)"
| "underscore_scan hex st (c # cs) =
     (if base_digit hex c \<noteq> None then underscore_scan hex UsDigit cs
      else if c = CHR ''_'' then (st = UsDigit \<and> underscore_scan hex UsUnder cs)
      else (st \<noteq> UsUnder \<and> underscore_scan hex UsOther cs))"

definition strip_sign :: "string \<Rightarrow> string" where
  "strip_sign s = (if s \<noteq> [] \<and> (hd s = CHR ''+'' \<or> hd s = CHR ''-'') then tl s else s)"

definition underscore_ok :: "string \<Rightarrow> bool" where
  "underscore_ok s0 =
     (let s = strip_sign s0 in
      if 2 \<le> length s \<and> hd s = CHR ''0'' \<and> lower_ascii (s ! 1) \<in> {CHR ''b'', CHR ''o'', CHR ''x''}
      then underscore_scan (lower_ascii (s ! 1) = CHR ''x'') UsDigit (drop 2 s)
      else underscore_scan False UsStart s)"

definition read_float :: "string \<Rightarrow> float64 option" where
  "read_float s0 =
     (let neg = (s0 \<noteq> [] \<and> hd s0 = CHR ''-'');
          s = strip_sign s0;
          hex = (2 < length s \<and> hd s = CHR ''0'' \<and> lower_ascii (s ! 1) = CHR ''x'');
          (m, f, sawdigits, rest) = read_mantissa hex 0 0 False False (if hex then drop 2 s else s);
          base = (if hex then 16 else 10 :: rat);
          mant = of_nat m / base ^ f;
          finish = (\<lambda>x rest'. if rest' \<noteq> [] then None
                     else if CHR ''_'' \<in> set s0 \<and> \<not> underscore_ok s0 then None
                     else Some (round_float64 neg x))
      in if \<not> sawdigits then None
         else if rest \<noteq> [] \<and> lower_ascii (hd rest) = (if hex then CHR ''p'' else CHR ''e'') then
           (let t = tl rest; eneg = (t \<noteq> [] \<and> hd t = CHR ''-''); ds = strip_sign t in
            if ds = [] \<or> \<not> is_digit (hd ds) then None
            else (let (e, rest') = read_exponent 0 ds; b = (if hex then 2 else 10 :: rat)
                  in finish (if eneg then mant / b ^ e else mant * b ^ e) rest'))
         else if hex then None
         else finish mant rest)"

text \<open>\<open>f, _ := strconv.ParseFloat(value, 64)\<close>: 0 on a syntax error, an infinity when too big.\<close>

definition parse_float_value :: "string \<Rightarrow> float64" where
  "parse_float_value s =
     (let l = to_lower s; u = strip_sign l in
      if u = ''inf'' \<or> u = ''infinity'' then (if hd l = CHR ''-'' then NegInf else PosInf)
      else if l = ''nan'' then NaN
      else (case read_float s of None \<Rightarrow> Fin 0 | Some v \<Rightarrow> v))"

subsection \<open>fmt.Sprintf with \%.6f\<close>

definition pad_left :: "nat \<Rightarrow> string \<Rightarrow> string" where
  "pad_left n s = replicate (n - length s) (CHR ''0'') @ s"

definition format_fixed6 :: "rat \<Rightarrow> string" where
  "format_fixed6 q =
     (let n = nat (round_half_even (q * 1000000))
      in digits10 (n div 1000000) @ CHR ''.'' # pad_left 6 (digits10 (n mod 1000000)))"

fun format_float6 :: "float64 \<Rightarrow> string" where
  "format_float6 NaN = ''NaN''"
| "format_float6 PosInf = ''+Inf''"
| "format_float6 NegInf = ''-Inf''"
| "format_float6 NegZero = ''-0.000000''"
| "format_float6 (Fin q) = (if q < 0 then CHR ''-'' # format_fixed6 (- q) else format_fixed6 q)"

lemma pad_left_no_char: "d \<notin> set s \<Longrightarrow> d \<noteq> CHR ''0'' \<Longrightarrow> d \<notin> set (pad_left n s)"
  by (simp add: pad_left_def)

lemma format_float6_no_char:
  assumes "\<not> is_digit d" "d \<notin> set ''NaInf+-.''"
  shows "d \<notin> set (format_float6 v)"
proof -
  have "d \<notin> set (digits10 n)" for n using assms(1) digits10_digits by blast
  moreover have "d \<noteq> CHR ''0''" using assms(1) by (auto simp: is_digit_def ord_def)
  ultimately have "d \<notin> set (format_fixed6 q)" for q
    using assms(2) by (simp add: format_fixed6_def Let_def pad_left_no_char)
  with assms \<open>d \<noteq> CHR ''0''\<close> show ?thesis by (cases v) auto
qed

end
