(* ===== verification/Go_Time.thy ===== *)
theory Go_Time
  imports Go_Float
begin

text \<open>
  Package \<open>time\<close> in UTC: an instant is a number of seconds since 1970-01-01 00:00:00, a date is
  computed from the day number by the proleptic Gregorian calendar. The conversions are written
  with the 400-year cycle counted from a first of March, so that they compute.
\<close>

subsection \<open>Days and dates\<close>

definition days_from_civil :: "int \<Rightarrow> int \<Rightarrow> int \<Rightarrow> int" where
  "days_from_civil y m d =
     (let y' = (if m \<le> 2 then y - 1 else y);
          era = y' div 400;
          yoe = y' mod 400;
          mp = (if 2 < m then m - 3 else m + 9);
          doy = (153 * mp + 2) div 5 + d - 1;
          doe = yoe * 365 + yoe div 4 - yoe div 100 + doy
      in era * 146097 + doe - 719468)"

text \<open>
  The year of a 400-year cycle that a day falls in: cut off centuries, then four-year cycles, then
  years; the last century and the last year of a cycle are a day longer.
\<close>

definition year_of_era :: "int \<Rightarrow> int" where
  "year_of_era doe =
     (let c = min 3 (doe div 36524); d1 = doe - c * 36524;
          q = d1 div 1461; d2 = d1 - q * 1461;
          k = min 3 (d2 div 365)
      in c * 100 + q * 4 + k)"

definition civil_from_days :: "int \<Rightarrow> int \<times> int \<times> int" where
  "civil_from_days z =
     (let era = (z + 719468) div 146097;
          doe = (z + 719468) mod 146097;
          yoe = year_of_era doe;
          doy = doe - (365 * yoe + yoe div 4 - yoe div 100);
          mp = (5 * doy + 2) div 153;
          d = doy - (153 * mp + 2) div 5 + 1;
          m = (if mp < 10 then mp + 3 else mp - 9)
      in (yoe + era * 400 + (if m \<le> 2 then 1 else 0), m, d))"

definition day_number :: "int \<Rightarrow> int" where
  "day_number t = t div 86400"

definition year_month_day :: "int \<Rightarrow> int \<times> int \<times> int" where
  "year_month_day t = civil_from_days (day_number t)"

text \<open>\<open>t.Weekday()\<close>: Sunday is 0. The epoch was a Thursday.\<close>

definition weekday :: "int \<Rightarrow> int" where
  "weekday t = (day_number t + 4) mod 7"

text \<open>\<open>time.Date(y, m, d, 0, 0, 0, 0, time.UTC)\<close>, and \<open>AddDate(0, 0, n)\<close> of a midnight.\<close>

definition date_utc :: "int \<Rightarrow> int \<Rightarrow> int \<Rightarrow> int" where
  "date_utc y m d = days_from_civil y m d * 86400"

definition add_days :: "int \<Rightarrow> int \<Rightarrow> int" where
  "add_days t n = (case year_month_day t of (y, m, d) \<Rightarrow> date_utc y m (d + n) + t mod 86400)"

subsection \<open>Formatting\<close>

definition pad2 :: "int \<Rightarrow> string" where
  "pad2 n = pad_left 2 (itoa n)"

definition pad4 :: "int \<Rightarrow> string" where
  "pad4 n = pad_left 4 (itoa n)"

text \<open>\<open>t.Format("2006-01-02 15:04:05")\<close>, which is also what \<open>CURRENT_TIMESTAMP\<close> stores.\<close>

definition format_datetime :: "int \<Rightarrow> string" where
  "format_datetime t =
     (case year_month_day t of (y, m, d) \<Rightarrow>
        (let s = t mod 86400 in
         pad4 y @ ''-'' @ pad2 m @ ''-'' @ pad2 d @ '' '' @
         pad2 (s div 3600) @ '':'' @ pad2 (s div 60 mod 60) @ '':'' @ pad2 (s mod 60)))"

subsection \<open>The conversions are inverse\<close>

text \<open>
  The days of a 400-year cycle before its year \<open>y\<close>. The formula of \<open>year_of_era\<close> picks the year
  whose days contain the given one.
\<close>

definition days_before :: "int \<Rightarrow> int" where
  "days_before y = 365 * y + y div 4 - y div 100"

lemma year_of_era_bounds:
  assumes "0 \<le> doe" "doe < 146097"
  shows "0 \<le> year_of_era doe \<and> year_of_era doe < 400
    \<and> days_before (year_of_era doe) \<le> doe \<and> doe - days_before (year_of_era doe) < 366"
proof -
  define c where "c = min 3 (doe div 36524)"
  define d1 where "d1 = doe - c * 36524"
  define q where "q = d1 div 1461"
  define d2 where "d2 = d1 - q * 1461"
  define k where "k = min 3 (d2 div 365)"
  have y: "year_of_era doe = c * 100 + q * 4 + k"
    by (simp add: year_of_era_def Let_def c_def d1_def q_def d2_def k_def)
  have c: "0 \<le> c" "c \<le> 3" and d1: "0 \<le> d1" "d1 \<le> 36524"
    using assms unfolding c_def d1_def by (auto simp: min_def)
  then have q: "0 \<le> q" "q \<le> 24" and d2: "0 \<le> d2" "d2 \<le> 1460"
    unfolding q_def d2_def by auto
  then have k: "0 \<le> k" "k \<le> 3" and d3: "0 \<le> d2 - k * 365" "d2 - k * 365 \<le> 365"
    unfolding k_def by (auto simp: min_def)
  have "(c * 100 + q * 4 + k) div 4 = c * 25 + q" "(c * 100 + q * 4 + k) div 100 = c"
    using q k by auto
  then have "days_before (year_of_era doe) = c * 36524 + q * 1461 + k * 365"
    by (simp add: days_before_def y)
  then have "doe - days_before (year_of_era doe) = d2 - k * 365"
    by (simp add: d1_def d2_def)
  then show ?thesis using c q k d3 y by linarith
qed

text \<open>Within a year that starts in March, the month and day determine the day and conversely.\<close>

lemma month_of_doy:
  assumes "0 \<le> doy" "doy < (366 :: int)"
  shows "0 \<le> (5 * doy + 2) div 153 \<and> (5 * doy + 2) div 153 < 12
    \<and> (153 * ((5 * doy + 2) div 153) + 2) div 5 \<le> doy"
  using assms by auto

lemma civil_from_days_fields:
  assumes "civil_from_days z = (y, m, d)"
  shows "1 \<le> m \<and> m \<le> 12 \<and> 1 \<le> d \<and> days_from_civil y m d = z"
proof -
  define era where "era = (z + 719468) div 146097"
  define doe where "doe = (z + 719468) mod 146097"
  define yoe where "yoe = year_of_era doe"
  define doy where "doy = doe - days_before yoe"
  define mp where "mp = (5 * doy + 2) div 153"
  have doe: "0 \<le> doe" "doe < 146097" by (simp_all add: doe_def)
  have yoe: "0 \<le> yoe" "yoe < 400" and doy: "0 \<le> doy" "doy < 366"
    using year_of_era_bounds [OF doe] by (simp_all add: yoe_def doy_def)
  have mp: "0 \<le> mp" "mp < 12" "(153 * mp + 2) div 5 \<le> doy"
    using month_of_doy [OF doy] by (simp_all add: mp_def)
  have "civil_from_days z =
      (yoe + era * 400 + (if (if mp < 10 then mp + 3 else mp - 9) \<le> 2 then 1 else 0),
       if mp < 10 then mp + 3 else mp - 9, doy - (153 * mp + 2) div 5 + 1)"
    by (simp only: civil_from_days_def Let_def days_before_def
        era_def [symmetric] doe_def [symmetric] yoe_def [symmetric] doy_def [symmetric]
        doy_def [unfolded days_before_def, symmetric] mp_def [symmetric])
  then have "(y, m, d) =
      (yoe + era * 400 + (if (if mp < 10 then mp + 3 else mp - 9) \<le> 2 then 1 else 0),
       if mp < 10 then mp + 3 else mp - 9, doy - (153 * mp + 2) div 5 + 1)"
    by (simp only: assms)
  then have m: "m = (if mp < 10 then mp + 3 else mp - 9)"
    and d: "d = doy - (153 * mp + 2) div 5 + 1"
    and y0: "y = yoe + era * 400 + (if (if mp < 10 then mp + 3 else mp - 9) \<le> 2 then 1 else 0)"
    by (simp_all only: prod.inject)
  have y: "y = yoe + era * 400 + (if m \<le> 2 then 1 else 0)"
    unfolding m by (rule y0)
  have inverse: "(if m \<le> 2 then y - 1 else y) = yoe + era * 400" "(if 2 < m then m - 3 else m + 9) = mp"
    using m y mp(1,2) by auto
  have "days_from_civil y m d = era * 146097 + (days_before yoe + doy) - 719468"
    using yoe d by (simp add: days_from_civil_def Let_def inverse days_before_def)
  also have "\<dots> = era * 146097 + doe - 719468" by (simp add: doy_def)
  also have "\<dots> = z" by (simp add: era_def doe_def)
  finally show ?thesis using m d mp by auto
qed

lemma days_from_civil_add: "days_from_civil y m (d + n) = days_from_civil y m d + n"
  by (simp add: days_from_civil_def Let_def)

lemma date_utc_year_month_day:
  "year_month_day t = (y, m, d) \<Longrightarrow> date_utc y m d = day_number t * 86400"
  by (simp add: year_month_day_def date_utc_def civil_from_days_fields)

lemma day_number_mult [simp]: "day_number (n * 86400) = n"
  by (simp add: day_number_def)

lemma date_utc_day [simp]: "day_number (date_utc y m d) = days_from_civil y m d"
  by (simp add: date_utc_def)

lemma add_days_midnight: "t mod 86400 = 0 \<Longrightarrow> add_days t n = t + n * 86400"
proof -
  assume mid: "t mod 86400 = 0"
  obtain y m d where ymd: "year_month_day t = (y, m, d)" by (cases "year_month_day t")
  from date_utc_year_month_day [OF ymd] have "date_utc y m (d + n) = (day_number t + n) * 86400"
    by (simp add: date_utc_def days_from_civil_add)
  moreover from mid have "day_number t * 86400 = t" by (auto simp: day_number_def)
  ultimately show ?thesis using mid ymd by (simp add: add_days_def algebra_simps)
qed

end
