(* ===== verification/Go_Path.thy ===== *)
theory Go_Path
  imports Go_Strings
begin

text \<open>
  The part of Go's \<open>path/filepath\<close> (on a Unix system) that the server uses: \<open>IsAbs\<close>, \<open>Clean\<close>,
  \<open>Join\<close>, \<open>Dir\<close>, \<open>Base\<close> and \<open>Ext\<close>.
\<close>

abbreviation slash :: char where "slash \<equiv> CHR ''/''"

definition IsAbs :: "string \<Rightarrow> bool" where
  "IsAbs path \<longleftrightarrow> prefix [slash] path"

text \<open>The components that survive: no empty ones, no \<open>.\<close>, and \<open>..\<close> takes back the one before it.\<close>

fun clean_step :: "bool \<Rightarrow> string \<Rightarrow> string list \<Rightarrow> string list" where
  "clean_step rooted c out =
     (if c = [] \<or> c = ''.'' then out
      else if c = ''..'' then
        (if out \<noteq> [] \<and> hd out \<noteq> ''..'' then tl out
         else if rooted then out
         else c # out)
      else c # out)"

definition clean_parts :: "bool \<Rightarrow> string list \<Rightarrow> string list" where
  "clean_parts rooted cs = rev (foldl (\<lambda>out c. clean_step rooted c out) [] cs)"

fun join_slash :: "string list \<Rightarrow> string" where
  "join_slash [] = []"
| "join_slash [c] = c"
| "join_slash (c # cs) = c @ slash # join_slash cs"

definition Clean :: "string \<Rightarrow> string" where
  "Clean path =
     (let rooted = IsAbs path; parts = clean_parts rooted (split_char slash path) in
      if rooted then slash # join_slash parts
      else if parts = [] then ''.'' else join_slash parts)"

definition Join :: "string list \<Rightarrow> string" where
  "Join elems = (case dropWhile (\<lambda>e. e = []) elems of [] \<Rightarrow> [] | es \<Rightarrow> Clean (join_slash es))"

definition Base :: "string \<Rightarrow> string" where
  "Base path =
     (if path = [] then ''.''
      else let p = trim_right_char slash path in
        if p = [] then [slash] else last (split_char slash p))"

definition Dir :: "string \<Rightarrow> string" where
  "Dir path = Clean (take (length path - length (last (split_char slash path))) path)"

text \<open>The suffix from the last dot of the last component on.\<close>

fun ext_rev :: "string \<Rightarrow> string \<Rightarrow> string" where
  "ext_rev [] acc = []"
| "ext_rev (c # cs) acc =
     (if c = slash then [] else if c = CHR ''.'' then c # acc else ext_rev cs (c # acc))"

definition Ext :: "string \<Rightarrow> string" where
  "Ext path = ext_rev (rev path) []"

lemma Clean_plain:
  assumes "slash \<notin> set c" "c \<noteq> []" "c \<noteq> ''.''" "c \<noteq> ''..''"
  shows "Clean c = c"
proof -
  have "\<not> IsAbs c" using assms(1,2) by (cases c) (auto simp: IsAbs_def)
  then show ?thesis
    using assms by (simp add: Clean_def split_char_none clean_parts_def)
qed

declare clean_step.simps [simp del]

subsection \<open>Clean paths\<close>

text \<open>The stack of components, newest first: plain names above a run of \<open>..\<close>.\<close>

definition plain_name :: "string \<Rightarrow> bool" where
  "plain_name c \<longleftrightarrow> slash \<notin> set c \<and> c \<noteq> [] \<and> c \<noteq> ''.'' \<and> c \<noteq> ''..''"

definition normal_stack :: "bool \<Rightarrow> string list \<Rightarrow> bool" where
  "normal_stack rooted out \<longleftrightarrow> (\<exists>xs n. out = xs @ replicate n ''..'' \<and> list_all plain_name xs \<and> (rooted \<longrightarrow> n = 0))"

lemma normal_stack_step:
  assumes "normal_stack rooted out" "slash \<notin> set c"
  shows "normal_stack rooted (clean_step rooted c out)"
proof -
  obtain xs n where out: "out = xs @ replicate n ''..''" "list_all plain_name xs" "rooted \<longrightarrow> n = 0"
    using assms(1) by (auto simp: normal_stack_def)
  consider "c = [] \<or> c = ''.''" | "c = ''..''" | "plain_name c" using assms(2) by (auto simp: plain_name_def)
  then show ?thesis
  proof cases
    case 2
    show ?thesis
    proof (cases xs)
      case Nil
      with 2 out have "clean_step rooted c out = [] @ replicate (if rooted then n else Suc n) ''..''"
        by (cases n) (simp_all add: clean_step.simps)
      with out(3) show ?thesis unfolding normal_stack_def
        by (intro exI [of _ "[]"] exI [of _ "if rooted then n else Suc n"]) simp
    next
      case (Cons x ys)
      with out(2) have "x \<noteq> ''..''" by (simp add: plain_name_def)
      with 2 out Cons have "clean_step rooted c out = ys @ replicate n ''..''" by (simp add: clean_step.simps)
      with out Cons show ?thesis by (auto simp: normal_stack_def)
    qed
  next
    case 3
    then have "clean_step rooted c out = (c # xs) @ replicate n ''..''"
      by (simp add: plain_name_def out clean_step.simps)
    with 3 out show ?thesis unfolding normal_stack_def
      by (intro exI [of _ "c # xs"] exI [of _ n]) (simp add: plain_name_def)
  qed (use assms(1) in \<open>auto simp: clean_step.simps\<close>)
qed

lemma normal_stack_foldl:
  "normal_stack rooted out \<Longrightarrow> \<forall>c \<in> set cs. slash \<notin> set c \<Longrightarrow>
   normal_stack rooted (foldl (\<lambda>out c. clean_step rooted c out) out cs)"
  by (induction cs arbitrary: out) (auto intro: normal_stack_step)

lemma normal_stack_Nil: "normal_stack rooted []"
  by (auto simp: normal_stack_def)

lemma normal_clean_parts: "normal_stack rooted (rev (clean_parts rooted (split_char slash p)))"
  using normal_stack_foldl [OF normal_stack_Nil] split_char_parts by (simp add: clean_parts_def)

lemma foldl_plain:
  "list_all plain_name cs \<Longrightarrow> foldl (\<lambda>out c. clean_step rooted c out) out cs = rev cs @ out"
  by (induction cs arbitrary: out) (auto simp: plain_name_def clean_step.simps)

lemma foldl_dots:
  "foldl (\<lambda>out c. clean_step False c out) (replicate m ''..'') (replicate n ''..'') = replicate (n + m) ''..''"
proof (induction n arbitrary: m)
  case (Suc n)
  from Suc [of "Suc m"] show ?case by (cases m) (simp_all add: clean_step.simps)
qed simp

lemma clean_parts_normal:
  assumes "normal_stack rooted (rev ps)"
  shows "clean_parts rooted ps = ps"
proof -
  obtain xs n where out: "rev ps = xs @ replicate n ''..''" "list_all plain_name xs" "rooted \<longrightarrow> n = 0"
    using assms by (auto simp: normal_stack_def)
  then have ps: "ps = replicate n ''..'' @ rev xs" by (metis rev_append rev_replicate rev_rev_ident)
  show ?thesis
  proof (cases rooted)
    case True
    with out ps show ?thesis by (simp add: clean_parts_def foldl_plain)
  next
    case False
    with out(2) foldl_dots [of 0 n] show ?thesis by (simp add: clean_parts_def ps foldl_plain)
  qed
qed

lemma join_slash_split:
  "ps \<noteq> [] \<Longrightarrow> \<forall>c \<in> set ps. slash \<notin> set c \<Longrightarrow> split_char slash (join_slash ps) = ps"
  by (induction ps rule: join_slash.induct) (auto simp: split_char_none split_char_append)

lemma join_split: "join_slash (split_char slash p) = p"
proof (induction p)
  case (Cons c p)
  obtain x xs where "split_char slash p = x # xs" by (cases "split_char slash p") auto
  with Cons show ?case by (cases xs) auto
qed simp

lemma join_slash_snoc: "ps \<noteq> [] \<Longrightarrow> join_slash (ps @ [c]) = join_slash ps @ slash # c"
  by (induction ps rule: join_slash.induct) auto

lemma clean_parts_names:
  assumes "c \<in> set (clean_parts rooted (split_char slash p))"
  shows "slash \<notin> set c" "c \<noteq> []"
proof -
  obtain xs n where ps: "rev (clean_parts rooted (split_char slash p)) = xs @ replicate n ''..''" and xs: "list_all plain_name xs"
    using normal_clean_parts [of rooted p] by (auto simp: normal_stack_def)
  have "c \<in> set (xs @ replicate n ''..'')" using assms unfolding ps [symmetric] by simp
  then consider "c \<in> set xs" | "c = ''..''" by (auto split: if_splits)
  then show "slash \<notin> set c" "c \<noteq> []" using xs by (cases; auto simp: plain_name_def list_all_iff)+
qed

text \<open>A clean path is left alone.\<close>

lemma Clean_rooted: "IsAbs p \<Longrightarrow> Clean p = slash # join_slash (clean_parts True (split_char slash p))"
  by (simp add: Clean_def)

lemma Clean_relative: "\<not> IsAbs p \<Longrightarrow> Clean p = (case clean_parts False (split_char slash p) of
    [] \<Rightarrow> ''.'' | ps \<Rightarrow> join_slash ps)"
  by (simp add: Clean_def Let_def split: list.split)

lemma IsAbs_join: "ps \<noteq> [] \<Longrightarrow> \<forall>c \<in> set ps. slash \<notin> set c \<and> c \<noteq> [] \<Longrightarrow> \<not> IsAbs (join_slash ps)"
  by (cases ps rule: join_slash.cases) (auto simp: IsAbs_def neq_Nil_conv)

lemma clean_parts_skip: "clean_parts rooted ([] # cs) = clean_parts rooted cs"
  by (simp add: clean_parts_def clean_step.simps)

lemma Clean_idem: "Clean (Clean p) = Clean p"
proof (cases "IsAbs p")
  case True
  define ps where "ps = clean_parts True (split_char slash p)"
  have n: "clean_parts True ps = ps" "\<forall>c \<in> set ps. slash \<notin> set c"
    unfolding ps_def using clean_parts_normal [OF normal_clean_parts] clean_parts_names(1) by blast+
  have "clean_parts True (split_char slash (slash # join_slash ps)) = ps"
  proof (cases "ps = []")
    case True
    then show ?thesis by (simp add: clean_parts_def clean_step.simps)
  next
    case False
    with n join_slash_split show ?thesis by (simp add: clean_parts_skip)
  qed
  then show ?thesis using True by (simp add: Clean_rooted IsAbs_def ps_def)
next
  case False
  define ps where "ps = clean_parts False (split_char slash p)"
  have n: "clean_parts False ps = ps" "\<forall>c \<in> set ps. slash \<notin> set c \<and> c \<noteq> []"
    unfolding ps_def using clean_parts_normal [OF normal_clean_parts] clean_parts_names by blast+
  show ?thesis
  proof (cases "ps = []")
    case True
    have "Clean ''.'' = ''.''" by code_simp
    with True False show ?thesis by (simp add: Clean_relative flip: ps_def)
  next
    case ne: False
    have c: "Clean p = join_slash ps" using False ne by (simp add: Clean_relative flip: ps_def split: list.split)
    have "clean_parts False (split_char slash (join_slash ps)) = ps"
      using ne n by (simp add: join_slash_split)
    moreover have "\<not> IsAbs (join_slash ps)" using ne n(2) by (rule IsAbs_join)
    ultimately show ?thesis using ne by (simp add: c Clean_relative split: list.split)
  qed
qed

lemma Clean_nonempty: "Clean p \<noteq> []"
proof (cases "clean_parts False (split_char slash p)" rule: join_slash.cases)
  case (2 c)
  then have "c \<noteq> []" using clean_parts_names(2) [of c False p] by simp
  with 2 show ?thesis by (cases "IsAbs p") (simp_all add: Clean_def)
qed (cases "IsAbs p"; simp add: Clean_def)+

text \<open>A plain name inside a directory: one more component, which \<open>Base\<close> gives back.\<close>

definition in_dir :: "string \<Rightarrow> string \<Rightarrow> string" where
  "in_dir g f = (let ps = clean_parts (IsAbs g) (split_char slash g) @ [f] in
     if IsAbs g then slash # join_slash ps else join_slash ps)"

lemma Join_in_dir:
  assumes "plain_name f"
  shows "Join [g, f] = in_dir g f"
proof (cases "g = []")
  case True
  have "Clean f = f" using assms by (intro Clean_plain) (auto simp: plain_name_def)
  with True assms show ?thesis
    by (simp add: Join_def in_dir_def plain_name_def IsAbs_def clean_parts_def clean_step.simps)
next
  case False
  then have "Join [g, f] = Clean (g @ slash # f)" using assms by (simp add: Join_def plain_name_def)
  moreover have "IsAbs (g @ slash # f) = IsAbs g" using False by (cases g) (auto simp: IsAbs_def)
  moreover have "clean_parts r (split_char slash (g @ slash # f)) = clean_parts r (split_char slash g) @ [f]" for r
    using assms
    by (simp add: split_char_append_split clean_parts_def plain_name_def split_char_none clean_step.simps)
  ultimately show ?thesis by (simp add: Clean_def in_dir_def Let_def)
qed

lemma in_dir_end:
  assumes "plain_name f"
  obtains p where "in_dir g f = p @ f" "p = [] \<or> last p = slash"
proof (cases "clean_parts (IsAbs g) (split_char slash g) = []")
  case True
  then show ?thesis
    using that [of "if IsAbs g then [slash] else []"] by (simp add: in_dir_def)
next
  case False
  then show ?thesis
    by (intro that [of "(if IsAbs g then [slash] else []) @ join_slash (clean_parts (IsAbs g) (split_char slash g)) @ [slash]"])
       (cases "IsAbs g"; simp add: in_dir_def join_slash_snoc Let_def)+
qed

lemma last_split_in_dir:
  assumes "plain_name f"
  shows "last (split_char slash (in_dir g f)) = f"
proof -
  obtain p where p: "in_dir g f = p @ f" "p = [] \<or> last p = slash" using in_dir_end [OF assms] .
  have f: "slash \<notin> set f" using assms by (auto simp: plain_name_def)
  show ?thesis
  proof (cases p rule: rev_cases)
    case (snoc q x)
    with p f show ?thesis by (simp add: split_char_append_split split_char_none)
  qed (use p f in \<open>simp add: split_char_none\<close>)
qed

lemma Base_in_dir:
  assumes "plain_name f"
  shows "Base (in_dir g f) = f"
proof -
  obtain p where p: "in_dir g f = p @ f" "p = [] \<or> last p = slash" using in_dir_end [OF assms] .
  have f: "f \<noteq> []" "slash \<notin> set f" using assms by (auto simp: plain_name_def)
  then have "last f \<noteq> slash" by (metis last_in_set)
  with f have "trim_right_char slash (p @ f) = p @ f" by (intro trim_right_char_id) auto
  with f last_split_in_dir [OF assms, of g] show ?thesis by (simp add: Base_def p(1) Let_def)
qed

lemma in_dir_inj: "plain_name f \<Longrightarrow> plain_name f' \<Longrightarrow> in_dir g f = in_dir g f' \<longleftrightarrow> f = f'"
  by (metis Base_in_dir)

lemma Clean_in_dir:
  assumes "plain_name f"
  shows "Clean (in_dir g f) = in_dir g f"
proof -
  have "\<exists>es. in_dir g f = Clean es" using assms Join_in_dir [OF assms, of g, symmetric]
    by (auto simp: Join_def plain_name_def)
  then show ?thesis by (auto simp: Clean_idem)
qed

lemma in_dir_neq:
  assumes "plain_name f"
  shows "in_dir g f \<noteq> Clean g"
proof -
  let ?ps = "clean_parts (IsAbs g) (split_char slash g)"
  have "f \<noteq> []" "f \<noteq> ''.''" using assms by (auto simp: plain_name_def)
  moreover have "length (join_slash ?ps) < length (join_slash (?ps @ [f]))" if "?ps \<noteq> []"
    using that by (simp add: join_slash_snoc)
  ultimately show ?thesis
    by (cases "?ps = []") (auto simp: in_dir_def Clean_def Let_def split: if_splits)
qed

lemma in_dir_append: "in_dir g f @ x = in_dir g (f @ x)"
  by (cases "clean_parts (IsAbs g) (split_char slash g) = []") (auto simp: in_dir_def Let_def join_slash_snoc)

lemma Dir_in_dir:
  assumes "plain_name f"
  shows "Dir (in_dir g f) = Clean g"
proof -
  define ps where "ps = clean_parts (IsAbs g) (split_char slash g)"
  define p where "p = (if IsAbs g then [slash] else []) @ (if ps = [] then [] else join_slash ps @ [slash])"
  have p: "in_dir g f = p @ f" by (simp add: in_dir_def p_def join_slash_snoc flip: ps_def)
  have "last (split_char slash (p @ f)) = f" using last_split_in_dir [OF assms, of g] by (simp add: p)
  then have "Dir (in_dir g f) = Clean p" by (simp add: Dir_def p)
  also have "Clean p = Clean g"
  proof -
    have n: "normal_stack (IsAbs g) (rev ps)" unfolding ps_def by (rule normal_clean_parts)
    have sl: "\<forall>c \<in> set ps. slash \<notin> set c \<and> c \<noteq> []" unfolding ps_def using clean_parts_names by blast
    have tr: "clean_parts r (ps @ [[]]) = clean_parts r ps" for r by (simp add: clean_parts_def clean_step.simps)
    have split: "split_char slash (join_slash ps @ [slash]) = ps @ [[]]" if "ps \<noteq> []"
      using that sl join_slash_split [of ps] by (simp add: split_char_append_split)
    show ?thesis
    proof (cases "IsAbs g")
      case True
      have "clean_parts True (split_char slash p) = ps"
      proof (cases "ps = []")
        case t: True
        with True show ?thesis by (simp add: p_def clean_parts_def clean_step.simps)
      next
        case False
        with True split n show ?thesis by (simp add: p_def clean_parts_skip tr clean_parts_normal)
      qed
      moreover have "IsAbs p" using True by (simp add: p_def IsAbs_def)
      ultimately show ?thesis using True by (simp add: Clean_rooted ps_def)
    next
      case False
      have "clean_parts False (split_char slash p) = ps"
      proof (cases "ps = []")
        case t: True
        with False show ?thesis by (simp add: p_def clean_parts_def clean_step.simps)
      next
        case ne: False
        with False split n show ?thesis by (simp add: p_def tr clean_parts_normal)
      qed
      moreover have "\<not> IsAbs p"
      proof (cases "ps = []")
        case t: True
        with False show ?thesis by (simp add: p_def IsAbs_def)
      next
        case ne: False
        with sl IsAbs_join [of ps] have "\<not> IsAbs (join_slash ps)" by blast
        moreover have "join_slash ps \<noteq> []" using ne sl by (cases ps rule: join_slash.cases) auto
        ultimately show ?thesis using False ne by (cases "join_slash ps") (auto simp: p_def IsAbs_def)
      qed
      ultimately show ?thesis using False by (simp add: Clean_relative ps_def)
    qed
  qed
  finally show ?thesis .
qed

end
