(* ===== verification/Sql.thy ===== *)
theory Sql
  imports Prelude
begin

text \<open>
  The relational operations behind the SQL statements of \<open>server/storage/storage.go\<close>. A table is
  the list of its rows. \<open>INSERT OR IGNORE\<close> and \<open>INSERT ... ON CONFLICT DO UPDATE\<close> are written once
  over the columns of the conflicting key, and what the callers may rely on is stated as two
  locales, interpreted on every table that the server writes that way.
\<close>

subsection \<open>Statements on one table\<close>

definition query_row :: "('r \<Rightarrow> bool) \<Rightarrow> 'r list \<Rightarrow> 'r option" where
  "query_row P rows = find P rows"

definition insert_or_ignore :: "('r \<Rightarrow> 'k) \<Rightarrow> 'r \<Rightarrow> 'r list \<Rightarrow> 'r list" where
  "insert_or_ignore key r rows = (if key r \<in> key ` set rows then rows else rows @ [r])"

text \<open>Every column outside the key is taken from the new row (\<open>excluded\<close>).\<close>

definition insert_or_update :: "('r \<Rightarrow> 'k) \<Rightarrow> 'r \<Rightarrow> 'r list \<Rightarrow> 'r list" where
  "insert_or_update key r rows =
     (if key r \<in> key ` set rows then map (\<lambda>x. if key x = key r then r else x) rows
      else rows @ [r])"

text \<open>\<open>INSERT OR REPLACE\<close> deletes the row in the way and appends the new one.\<close>

definition insert_or_replace :: "('r \<Rightarrow> 'k) \<Rightarrow> 'r \<Rightarrow> 'r list \<Rightarrow> 'r list" where
  "insert_or_replace key r rows = filter (\<lambda>x. key x \<noteq> key r) rows @ [r]"

text \<open>The id that an \<open>INTEGER PRIMARY KEY\<close> column gets when the insert does not give one.\<close>

definition next_rowid :: "int list \<Rightarrow> int" where
  "next_rowid ids = foldr max ids 0 + 1"

text \<open>
  A result without \<open>ORDER BY\<close>, or the rows that \<open>ORDER BY\<close> leaves tied, come in an order that SQL
  does not fix: a permutation of the indices, one for each number of rows.
\<close>

definition permute :: "(nat \<Rightarrow> nat list) \<Rightarrow> 'a list \<Rightarrow> 'a list" where
  "permute ord xs = map (\<lambda>i. xs ! i) (ord (length xs))"

definition row_order_ok :: "(nat \<Rightarrow> nat list) \<Rightarrow> bool" where
  "row_order_ok ord \<longleftrightarrow> (\<forall>n. distinct (ord n) \<and> set (ord n) = {..<n})"

lemma set_permute: "row_order_ok ord \<Longrightarrow> set (permute ord xs) = set xs"
proof -
  assume "row_order_ok ord"
  then have "set (permute ord xs) = (\<lambda>i. xs ! i) ` {..<length xs}"
    by (simp add: permute_def row_order_ok_def)
  also have "\<dots> = set xs" by (auto simp: set_conv_nth)
  finally show ?thesis .
qed

lemma length_row_order: "row_order_ok ord \<Longrightarrow> length (ord n) = n"
  by (metis card_lessThan distinct_card row_order_ok_def)

lemma length_permute [simp]: "row_order_ok ord \<Longrightarrow> length (permute ord xs) = length xs"
  by (simp add: permute_def length_row_order)

lemma distinct_map_permute:
  assumes "row_order_ok ord" "distinct (map f xs)"
  shows "distinct (map f (permute ord xs))"
proof -
  have "inj_on (\<lambda>i. f (xs ! i)) {..<length xs}"
    using assms(2) by (auto simp: inj_on_def distinct_conv_nth)
  then show ?thesis using assms(1)
    by (simp add: permute_def distinct_map row_order_ok_def comp_def)
qed

lemma row_order_ok_upt: "row_order_ok (\<lambda>n. [0..<n])"
  by (auto simp: row_order_ok_def)

subsection \<open>Tables with a unique key\<close>

lemma next_rowid_fresh: "i \<in> set ids \<Longrightarrow> i < next_rowid ids"
  unfolding next_rowid_def using foldr_max_ge [of i ids 0] by simp

lemma next_rowid_pos: "1 \<le> next_rowid ids"
  unfolding next_rowid_def using foldr_max_ge_init [of 0 ids] by simp

lemma next_rowid_notin: "next_rowid ids \<notin> set ids"
  using next_rowid_fresh by fastforce

lemma set_insert_or_ignore:
  "set (insert_or_ignore key r rows) = (if key r \<in> key ` set rows then set rows else insert r (set rows))"
  by (auto simp: insert_or_ignore_def)

lemma distinct_insert_or_ignore:
  "distinct (map key rows) \<Longrightarrow> distinct (map key (insert_or_ignore key r rows))"
  by (auto simp: insert_or_ignore_def)

lemma set_insert_or_update:
  "set (insert_or_update key r rows) = insert r {x \<in> set rows. key x \<noteq> key r}"
  by (auto simp: insert_or_update_def image_iff)

text \<open>An \<open>UPDATE\<close> that leaves the key columns alone keeps the key unique.\<close>

lemma distinct_map_row_update:
  "distinct (map key rows) \<Longrightarrow> (\<And>x. key (f x) = key x) \<Longrightarrow> distinct (map key (map f rows))"
  by (simp add: comp_def)

lemma distinct_insert_or_update:
  assumes "distinct (map key rows)"
  shows "distinct (map key (insert_or_update key r rows))"
proof -
  have "map key (map (\<lambda>x. if key x = key r then r else x) rows) = map key rows"
    by auto
  with assms show ?thesis unfolding insert_or_update_def by (auto simp del: map_map)
qed

lemma distinct_map_filter_rows: "distinct (map key rows) \<Longrightarrow> distinct (map key (filter P rows))"
  by (induction rows) auto

text \<open>What a caller may rely on when rows are added by \<open>INSERT OR IGNORE\<close>: the first row wins.\<close>

locale first_row_wins =
  fixes key :: "'r \<Rightarrow> 'k"
    and look :: "'k \<Rightarrow> 'r list \<Rightarrow> 'r option"
    and put :: "'r \<Rightarrow> 'r list \<Rightarrow> 'r list"
    and ok :: "'r list \<Rightarrow> bool"
  assumes look_iff: "ok t \<Longrightarrow> look k t = Some r \<longleftrightarrow> r \<in> set t \<and> key r = k"
    and put_ok: "ok t \<Longrightarrow> ok (put r t)"
    and look_put: "ok t \<Longrightarrow> look k (put r t) = (if k = key r \<and> look k t = None then Some r else look k t)"
begin

lemma look_None: "ok t \<Longrightarrow> look k t = None \<longleftrightarrow> (\<forall>r \<in> set t. key r \<noteq> k)"
  using look_iff [of t k] by (metis option.exhaust option.distinct(1))

lemma put_found: "ok t \<Longrightarrow> \<exists>r'. look (key r) (put r t) = Some r' \<and> key r' = key r"
  by (metis look_iff look_put not_None_eq)

lemma put_existing: "ok t \<Longrightarrow> look (key r) t = Some r' \<Longrightarrow> look k (put r t) = look k t"
  by (auto simp: look_put)

lemma put_keeps: "ok t \<Longrightarrow> x \<in> set t \<Longrightarrow> x \<in> set (put r t)"
  by (metis look_iff look_put option.distinct(1) put_ok)

lemma put_new: "ok t \<Longrightarrow> x \<in> set (put r t) \<Longrightarrow> x \<in> set t \<or> (x = r \<and> look (key r) t = None)"
  by (metis look_iff look_put option.inject put_ok)

end

text \<open>What a caller may rely on when rows are written by an upsert: the last row wins.\<close>

locale last_row_wins =
  fixes key :: "'r \<Rightarrow> 'k"
    and look :: "'k \<Rightarrow> 'r list \<Rightarrow> 'r option"
    and put :: "'r \<Rightarrow> 'r list \<Rightarrow> 'r list"
    and ok :: "'r list \<Rightarrow> bool"
  assumes look_iff: "ok t \<Longrightarrow> look k t = Some r \<longleftrightarrow> r \<in> set t \<and> key r = k"
    and put_ok: "ok t \<Longrightarrow> ok (put r t)"
    and look_put: "ok t \<Longrightarrow> look k (put r t) = (if k = key r then Some r else look k t)"
begin

lemma put_read_back: "ok t \<Longrightarrow> look (key r) (put r t) = Some r"
  by (simp add: look_put)

lemma put_frame: "ok t \<Longrightarrow> k \<noteq> key r \<Longrightarrow> look k (put r t) = look k t"
  by (simp add: look_put)

lemma put_twice: "ok t \<Longrightarrow> key r = key r' \<Longrightarrow> look k (put r' (put r t)) = look k (put r' t)"
  by (simp add: look_put put_ok)

end

text \<open>The two statements meet the contracts, whatever the columns of the key.\<close>

lemma query_row_key_iff:
  "distinct (map key t) \<Longrightarrow> query_row (\<lambda>x. key x = k) t = Some r \<longleftrightarrow> r \<in> set t \<and> key r = k"
  by (simp add: query_row_def find_Some_iff_unique)

lemma query_row_key_None: "query_row (\<lambda>x. key x = k) t = None \<longleftrightarrow> k \<notin> key ` set t"
  by (auto simp: query_row_def find_None_iff')

lemma insert_or_ignore_first_row_wins:
  "first_row_wins key (\<lambda>k. query_row (\<lambda>x. key x = k)) (insert_or_ignore key) (\<lambda>t. distinct (map key t))"
proof
  fix t and k r
  assume t: "distinct (map key t)"
  then show "query_row (\<lambda>x. key x = k) t = Some r \<longleftrightarrow> r \<in> set t \<and> key r = k"
    by (rule query_row_key_iff)
  show put: "distinct (map key (insert_or_ignore key r t))"
    using t by (rule distinct_insert_or_ignore)
  show "query_row (\<lambda>x. key x = k) (insert_or_ignore key r t) =
      (if k = key r \<and> query_row (\<lambda>x. key x = k) t = None then Some r
       else query_row (\<lambda>x. key x = k) t)"
  proof (cases "key r \<in> key ` set t")
    case True
    then have "query_row (\<lambda>x. key x = key r) t \<noteq> None" by (simp add: query_row_key_None)
    with True show ?thesis by (auto simp: insert_or_ignore_def)
  next
    case False
    then have "query_row (\<lambda>x. key x = key r) t = None" by (simp only: query_row_key_None not_False_eq_True)
    with False show ?thesis
      by (auto simp: insert_or_ignore_def query_row_def find_append split: option.splits)
  qed
qed

lemma insert_or_update_last_row_wins:
  "last_row_wins key (\<lambda>k. query_row (\<lambda>x. key x = k)) (insert_or_update key) (\<lambda>t. distinct (map key t))"
proof
  fix t and k r
  assume t: "distinct (map key t)"
  then show "query_row (\<lambda>x. key x = k) t = Some r \<longleftrightarrow> r \<in> set t \<and> key r = k"
    by (rule query_row_key_iff)
  show put: "distinct (map key (insert_or_update key r t))"
    using t by (rule distinct_insert_or_update)
  show "query_row (\<lambda>x. key x = k) (insert_or_update key r t) =
      (if k = key r then Some r else query_row (\<lambda>x. key x = k) t)"
  proof (cases "k = key r")
    case True
    then show ?thesis using query_row_key_iff [OF put, of "key r" r]
      by (simp add: set_insert_or_update)
  next
    case False
    then have "query_row (\<lambda>x. key x = k) (insert_or_update key r t) = Some y \<longleftrightarrow>
        query_row (\<lambda>x. key x = k) t = Some y" for y
      by (auto simp: query_row_key_iff [OF put] query_row_key_iff [OF t] set_insert_or_update)
    with False show ?thesis by (metis not_None_eq)
  qed
qed

lemma set_insert_or_replace:
  "set (insert_or_replace key r rows) = insert r {x \<in> set rows. key x \<noteq> key r}"
  by (auto simp: insert_or_replace_def)

lemma distinct_insert_or_replace:
  "distinct (map key rows) \<Longrightarrow> distinct (map key (insert_or_replace key r rows))"
  by (auto simp: insert_or_replace_def distinct_map_filter_rows)

lemma insert_or_replace_last_row_wins:
  "last_row_wins key (\<lambda>k. query_row (\<lambda>x. key x = k)) (insert_or_replace key) (\<lambda>t. distinct (map key t))"
proof
  fix t and k r
  assume t: "distinct (map key t)"
  then show "query_row (\<lambda>x. key x = k) t = Some r \<longleftrightarrow> r \<in> set t \<and> key r = k"
    by (rule query_row_key_iff)
  show put: "distinct (map key (insert_or_replace key r t))"
    using t by (rule distinct_insert_or_replace)
  have "query_row (\<lambda>x. key x = k) (insert_or_replace key r t) = Some y \<longleftrightarrow>
      (if k = key r then Some r else query_row (\<lambda>x. key x = k) t) = Some y" for y
    by (auto simp: query_row_key_iff [OF put] query_row_key_iff [OF t] set_insert_or_replace)
  then show "query_row (\<lambda>x. key x = k) (insert_or_replace key r t) =
      (if k = key r then Some r else query_row (\<lambda>x. key x = k) t)"
    by (rule option_eq_by_Some)
qed

end
