(* ===== verification/Packet.thy ===== *)
theory Packet
  imports Go_Bytes Stream
begin

text \<open>
  \<open>server/fesl/packet.go\<close>: the FESL wire format. A packet is a 12-byte header (a four-byte type
  padded with NULs, a big-endian id and the total length) and a payload of \<open>key=value\<close> lines
  closed by a NUL byte.
\<close>

subsection \<open>Data\<close>

definition HeaderLen :: nat where "HeaderLen = 12"

record kv =
  Key :: string
  Value :: string

abbreviation KV :: "string \<Rightarrow> string \<Rightarrow> kv" where
  "KV k v \<equiv> \<lparr>Key = k, Value = v\<rparr>"

record packet =
  Type :: string
  ID :: "32 word"
  Params :: "kv list"

subsection \<open>Encode and Decode\<close>

definition encode_line :: "kv \<Rightarrow> string" where
  "encode_line p = Key p @ CHR ''='' # Value p @ [LF]"

definition payload :: "kv list \<Rightarrow> string" where
  "payload params = concat (map encode_line params) @ [NUL]"

text \<open>\<open>copy(out[0:4], packetType)\<close> into a zeroed slice, and the length cut to 32 bits.\<close>

definition type_field :: "string \<Rightarrow> string" where
  "type_field t = take 4 (t @ replicate 4 NUL)"

definition Encode :: "string \<Rightarrow> 32 word \<Rightarrow> kv list \<Rightarrow> string" where
  "Encode packetType pid params =
     (let body = payload params; totalLen = HeaderLen + length body
      in type_field packetType @ be32 pid @ be32 (of_nat totalLen) @ body)"

definition decode_line :: "string \<Rightarrow> kv list" where
  "decode_line raw =
     (let line = trim_right_char NUL raw in
      if line = [] then []
      else (case cut_char (CHR ''='') line of None \<Rightarrow> [] | Some (k, v) \<Rightarrow> [KV k v]))"

definition decode_payload :: "string \<Rightarrow> kv list" where
  "decode_payload s = concat (map decode_line (split_char LF s))"

text \<open>\<open>Inl ()\<close> is the error \<open>invalid FESL packet length\<close>, \<open>Inr None\<close> is \<open>complete == false\<close>.\<close>

definition Decode :: "string \<Rightarrow> packet parse_result" where
  "Decode data =
     (if length data < HeaderLen then Inr None
      else (let totalLen = from_be32 (take 4 (drop 8 data)) in
        if totalLen < HeaderLen then Inl ()
        else if length data < totalLen then Inr None
        else Inr (Some
          (\<lparr>Type = trim_right_char NUL (take 4 data),
            ID = of_nat (from_be32 (take 4 (drop 4 data))),
            Params = decode_payload (take (totalLen - HeaderLen) (drop HeaderLen data))\<rparr>,
           drop totalLen data))))"

definition ParamsMap :: "kv list \<Rightarrow> params" where
  "ParamsMap ps = foldl (\<lambda>m p. m(Key p \<mapsto> Value p)) Map.empty ps"

subsection \<open>What can travel as a line\<close>

text \<open>
  A parameter survives the format when neither side contains a line feed, the key contains no
  \<open>=\<close> and the value does not end in a NUL. Everything that \<open>Decode\<close> delivers is of this kind.
\<close>

definition wire_safe :: "kv \<Rightarrow> bool" where
  "wire_safe p \<longleftrightarrow> LF \<notin> set (Key p) \<and> LF \<notin> set (Value p) \<and> CHR ''='' \<notin> set (Key p)
     \<and> (Value p = [] \<or> last (Value p) \<noteq> NUL)"

definition type_safe :: "string \<Rightarrow> bool" where
  "type_safe t \<longleftrightarrow> length t \<le> 4 \<and> (t = [] \<or> last t \<noteq> NUL)"

lemma decode_line_encoded:
  assumes "wire_safe p"
  shows "decode_line (Key p @ CHR ''='' # Value p) = [p]"
proof -
  have "trim_right_char NUL (Key p @ CHR ''='' # Value p) = Key p @ CHR ''='' # Value p"
    using assms by (intro trim_right_char_id) (auto simp: wire_safe_def)
  moreover have "cut_char (CHR ''='') (Key p @ CHR ''='' # Value p) = Some (Key p, Value p)"
    using assms by (intro cut_char_append) (simp add: wire_safe_def)
  ultimately show ?thesis by (simp add: decode_line_def)
qed

lemma decode_line_NUL [simp]: "decode_line [NUL] = []"
  by (simp add: decode_line_def trim_right_char_def)

lemma decode_line_safe:
  assumes "LF \<notin> set w" "p \<in> set (decode_line w)"
  shows "wire_safe p"
proof -
  let ?l = "trim_right_char NUL w"
  from assms(2) have "?l \<noteq> []" "cut_char (CHR ''='') ?l = Some (Key p, Value p)"
    by (auto simp: decode_line_def Let_def split: if_splits option.splits)
  then have l: "?l = Key p @ CHR ''='' # Value p" and "CHR ''='' \<notin> set (Key p)"
    by (auto dest: cut_char_SomeD)
  moreover have "LF \<notin> set ?l" using assms(1) trim_right_char_subset by blast
  moreover have "Value p = [] \<or> last (Value p) \<noteq> NUL"
    using trim_right_char_last [of NUL w] l by (auto split: if_splits)
  ultimately show ?thesis by (auto simp: wire_safe_def)
qed

lemma decode_payload_safe: "p \<in> set (decode_payload s) \<Longrightarrow> wire_safe p"
  by (auto simp: decode_payload_def intro: decode_line_safe dest: split_char_parts)

lemma decode_payload_payload:
  assumes "\<And>p. p \<in> set ps \<Longrightarrow> wire_safe p"
  shows "decode_payload (payload ps) = ps"
proof -
  let ?ws = "map (\<lambda>p. Key p @ CHR ''='' # Value p) ps"
  have "payload ps = concat (map (\<lambda>w. w @ [LF]) ?ws) @ [NUL]"
    unfolding payload_def encode_line_def [abs_def] by (simp add: comp_def)
  moreover have "split_char LF (concat (map (\<lambda>w. w @ [LF]) ?ws) @ [NUL]) = ?ws @ [[NUL]]"
    using assms by (intro split_char_concat) (auto simp: wire_safe_def)
  ultimately have "split_char LF (payload ps) = ?ws @ [[NUL]]" by simp
  then have "decode_payload (payload ps) = concat (map (\<lambda>p. decode_line (Key p @ CHR ''='' # Value p)) ps)"
    by (simp add: decode_payload_def comp_def)
  also have "\<dots> = concat (map (\<lambda>p. [p]) ps)"
    using assms by (intro arg_cong [where f = concat] map_cong) (auto simp: decode_line_encoded)
  finally show ?thesis by simp
qed

lemma length_decode_line: "length (concat (map encode_line (decode_line w))) \<le> length w + 1"
proof -
  let ?l = "trim_right_char NUL w"
  have "length ?l \<le> length w" by (rule length_trim_right_char)
  moreover have "cut_char (CHR ''='') ?l = Some (k, v) \<Longrightarrow> length ?l = length k + length v + 1" for k v
    by (auto dest: cut_char_SomeD)
  ultimately show ?thesis
    by (auto simp: decode_line_def encode_line_def Let_def split: option.splits)
qed

lemma length_decode_payload: "length (payload (decode_payload s)) \<le> length s + 2"
proof -
  have lines: "sum_list (map (\<lambda>w. length w + 1) (split_char LF s)) = length s + 1"
    by (induction s) (auto split: list.splits)
  have "length (concat (map encode_line (concat (map decode_line ws))))
      \<le> sum_list (map (\<lambda>w. length w + 1) ws)" for ws
  proof (induction ws)
    case (Cons w ws)
    then show ?case using length_decode_line [of w] by simp
  qed simp
  from this [of "split_char LF s"] lines show ?thesis
    by (simp add: payload_def decode_payload_def)
qed

subsection \<open>The framing of packets\<close>

lemma length_type_field [simp]: "length (type_field t) = 4"
  by (simp add: type_field_def)

lemma unat_of_nat32: "n < 4294967296 \<Longrightarrow> unat (of_nat n :: 32 word) = n"
  by (simp add: unat_of_nat)

lemma length_Encode: "length (Encode t i ps) = HeaderLen + length (payload ps)"
  by (simp add: Encode_def HeaderLen_def Let_def)

lemma Encode_header:
  "take 4 (Encode t i ps) = type_field t"
  "take 4 (drop 4 (Encode t i ps)) = be32 i"
  "take 4 (drop 8 (Encode t i ps)) = be32 (of_nat (HeaderLen + length (payload ps)))"
  "drop 12 (Encode t i ps) = payload ps"
  by (simp_all add: Encode_def Let_def)

lemma trim_padded_type:
  assumes "type_safe t"
  shows "trim_right_char NUL (type_field t) = t"
proof -
  have "type_field t = t @ replicate (4 - length t) NUL"
    using assms by (simp add: type_safe_def type_field_def)
  with assms show ?thesis by (simp add: type_safe_def trim_right_char_id)
qed

text \<open>The frame of a packet is found whatever its fields hold.\<close>

lemma Decode_sent:
  assumes "HeaderLen + length (payload ps) < 4294967296"
  shows "Decode (Encode t i ps @ rest) =
    Inr (Some (\<lparr>Type = trim_right_char NUL (type_field t), ID = i, Params = decode_payload (payload ps)\<rparr>, rest))"
proof -
  let ?e = "Encode t i ps"
  have len: "length ?e = 12 + length (payload ps)"
    by (simp add: length_Encode HeaderLen_def)
  have total: "from_be32 (take 4 (drop 8 (?e @ rest))) = 12 + length (payload ps)"
    using len unat_of_nat32 [OF assms]
    by (simp only: drop_append take_append Encode_header length_drop)
       (simp add: HeaderLen_def del: of_nat_add)
  have "take 4 (?e @ rest) = type_field t"
    "take 4 (drop 4 (?e @ rest)) = be32 i"
    "take (length (payload ps)) (drop 12 (?e @ rest)) = payload ps"
    using len by (simp_all add: Encode_header)
  then show ?thesis using len total
    by (simp add: Decode_def HeaderLen_def Let_def)
qed

text \<open>
  C1. A packet that is encoded and sent is decoded as itself, whatever bytes follow it on the
  connection, and exactly those bytes are left for the next packet. The hypotheses are what the
  format can carry (\<open>wire_safe\<close>, a type of at most four bytes, a length that fits its field).
\<close>

theorem Decode_Encode:
  assumes "type_safe t" "\<And>p. p \<in> set ps \<Longrightarrow> wire_safe p"
    and "HeaderLen + length (payload ps) < 4294967296"
  shows "Decode (Encode t i ps @ rest) = Inr (Some (\<lparr>Type = t, ID = i, Params = ps\<rparr>, rest))"
  using assms by (simp add: Decode_sent trim_padded_type decode_payload_payload)

theorem Decode_Encode_witness:
  "Decode (Encode ''acct'' 7 [KV ''TXN'' ''NuLogin'', KV ''nuid'' ''a=b''] @ ''more'') =
     Inr (Some (\<lparr>Type = ''acct'', ID = 7, Params = [KV ''TXN'' ''NuLogin'', KV ''nuid'' ''a=b'']\<rparr>, ''more''))"
  by (rule Decode_Encode) (auto simp: type_safe_def wire_safe_def payload_def encode_line_def HeaderLen_def)

lemma Decode_complete:
  assumes "Decode data = Inr (Some (pkt, rest))"
  shows "12 \<le> from_be32 (take 4 (drop 8 data))" "from_be32 (take 4 (drop 8 data)) \<le> length data"
    and "rest = drop (from_be32 (take 4 (drop 8 data))) data"
    and "pkt = \<lparr>Type = trim_right_char NUL (take 4 data),
                ID = of_nat (from_be32 (take 4 (drop 4 data))),
                Params = decode_payload (take (from_be32 (take 4 (drop 8 data)) - 12) (drop 12 data))\<rparr>"
  using assms by (auto simp: Decode_def HeaderLen_def Let_def split: if_splits)

lemma Decode_consumes:
  assumes "Decode data = Inr (Some (pkt, rest))"
  shows "\<exists>used. used \<noteq> [] \<and> data = used @ rest"
proof -
  let ?n = "from_be32 (take 4 (drop 8 data))"
  have "data = take ?n data @ rest" using Decode_complete(3) [OF assms] by simp
  moreover have "take ?n data \<noteq> []" using Decode_complete(1,2) [OF assms] by auto
  ultimately show ?thesis by blast
qed

lemma Decode_extend:
  "Decode data = Inr (Some (pkt, rest)) \<Longrightarrow> Decode (data @ extra) = Inr (Some (pkt, rest @ extra))"
  "Decode data = Inl () \<Longrightarrow> Decode (data @ extra) = Inl ()"
  by (auto simp: Decode_def HeaderLen_def Let_def take_append drop_append split: if_splits)

interpretation fesl_stream: incremental_parser Decode
  by unfold_locales (fact Decode_consumes Decode_extend)+

text \<open>
  C2. Framing does not depend on how TCP cuts the stream: whatever a session does with its
  packets (\<open>step\<close>), reading the same bytes in any two divisions into reads leaves the same session
  and the same unread bytes.
\<close>

theorem fesl_chunking:
  assumes "concat chunks = concat chunks'" "chunks \<noteq> []" "chunks' \<noteq> []"
  shows "feed Decode step chunks (Waiting buf, s) = feed Decode step chunks' (Waiting buf, s)"
  using assms by (rule fesl_stream.feed_chunking)

theorem fesl_chunking_witness:
  "feed Decode (\<lambda>p ps. (True, ps @ [p])) [''abc'', ''d''] (Waiting [], []) =
   feed Decode (\<lambda>p ps. (True, ps @ [p])) [''a'', ''bcd''] (Waiting [], [])"
  by (rule fesl_chunking) simp_all

text \<open>
  C3. Everything that a client can make \<open>Decode\<close> deliver is line-safe, so echoing a packet (its
  type, its id and any of its parameters) cannot inject a line into a reply: encoding a decoded
  packet and decoding it again gives the same packet.
\<close>

theorem Decode_reencode:
  assumes "Decode data = Inr (Some (pkt, rest))" "length data \<le> 4294967293"
  shows "(\<forall>p \<in> set (Params pkt). wire_safe p) \<and>
         Decode (Encode (Type pkt) (ID pkt) (Params pkt) @ extra) = Inr (Some (pkt, extra))"
proof -
  let ?n = "from_be32 (take 4 (drop 8 data))"
  let ?body = "take (?n - 12) (drop 12 data)"
  have pkt: "pkt = \<lparr>Type = trim_right_char NUL (take 4 data),
                    ID = of_nat (from_be32 (take 4 (drop 4 data))),
                    Params = decode_payload ?body\<rparr>"
    by (rule Decode_complete [OF assms(1)])
  have safe: "wire_safe p" if "p \<in> set (Params pkt)" for p
    using that pkt decode_payload_safe by simp
  have "length (trim_right_char NUL (take 4 data)) \<le> 4"
    using length_trim_right_char [of NUL "take 4 data"] by simp
  then have "type_safe (Type pkt)"
    using pkt trim_right_char_last [of NUL "take 4 data"] by (simp add: type_safe_def)
  moreover have "HeaderLen + length (payload (Params pkt)) < 4294967296"
  proof -
    have "length (payload (Params pkt)) \<le> length ?body + 2"
      using pkt length_decode_payload [of ?body] by simp
    moreover have "length ?body + 12 \<le> 4294967293"
      using Decode_complete(1,2) [OF assms(1)] assms(2) by simp
    ultimately show ?thesis by (simp add: HeaderLen_def)
  qed
  ultimately have "Decode (Encode (Type pkt) (ID pkt) (Params pkt) @ extra) =
      Inr (Some (\<lparr>Type = Type pkt, ID = ID pkt, Params = Params pkt\<rparr>, extra))"
    using safe by (intro Decode_Encode)
  with safe show ?thesis by simp
qed

theorem Decode_reencode_witness:
  "Decode (Encode ''fsys'' 1 [KV ''TXN'' ''Hello''] @ ''x'') =
     Inr (Some (\<lparr>Type = ''fsys'', ID = 1, Params = [KV ''TXN'' ''Hello'']\<rparr>, ''x''))"
proof -
  let ?data = "''fsys'' @ [NUL, NUL, NUL, CHR 0x01, NUL, NUL, NUL, CHR 0x16] @ ''TXN=Hello'' @ [LF]"
  have "Decode ?data = Inr (Some (\<lparr>Type = ''fsys'', ID = 1, Params = [KV ''TXN'' ''Hello'']\<rparr>, []))"
    by code_simp
  from Decode_reencode [OF this, of "''x''"] show ?thesis by simp
qed

subsection \<open>Parameter maps\<close>

lemma ParamsMap_Nil [simp]: "ParamsMap [] = Map.empty"
  by (simp add: ParamsMap_def)

lemma ParamsMap_snoc [simp]: "ParamsMap (ps @ [p]) = (ParamsMap ps)(Key p \<mapsto> Value p)"
  by (simp add: ParamsMap_def)

lemma ParamsMap_SomeD: "ParamsMap ps k = Some v \<Longrightarrow> \<exists>p \<in> set ps. Key p = k \<and> Value p = v"
  by (induction ps rule: rev_induct) (auto split: if_splits)

lemma mget_ParamsMap_safe:
  assumes "\<And>p. p \<in> set ps \<Longrightarrow> wire_safe p"
  shows "LF \<notin> set (mget (ParamsMap ps) k)
    \<and> (mget (ParamsMap ps) k = [] \<or> last (mget (ParamsMap ps) k) \<noteq> NUL)"
proof (cases "ParamsMap ps k")
  case (Some v)
  then obtain p where "p \<in> set ps" "Value p = v" by (blast dest: ParamsMap_SomeD)
  with assms [of p] Some show ?thesis by (auto simp: mget_def wire_safe_def)
qed (simp add: mget_def)

end
