(* ===== verification/Periods.thy ===== *)
theory Periods
  imports Go_Time
begin

text \<open>
  The leaderboard periods of \<open>server/storage/storage.go\<close> (lines 1005-1032): period 2 is the
  current week, period 4 the current month, every other period is unbounded. The cutoff becomes
  a clause \<open>updated_at >= ?\<close> that compares the text of timestamps.
\<close>

definition periodCutoff :: "int \<Rightarrow> int \<Rightarrow> int option" where
  "periodCutoff periodID t =
     (if periodID = 2 then
        (let wd = (if weekday t = 0 then 7 else weekday t) in
         case year_month_day t of (y, m, d) \<Rightarrow> Some (add_days (date_utc y m d) (- (wd - 1))))
      else if periodID = 4 then
        (case year_month_day t of (y, m, d) \<Rightarrow> Some (date_utc y m 1))
      else None)"

text \<open>
  A column of type \<open>TIMESTAMP\<close> has SQLite's numeric affinity: a text that is a decimal literal, blanks
  around it allowed, is stored as the number, and every number sorts before every text.
\<close>

definition sql_blank :: "char \<Rightarrow> bool" where
  "sql_blank c \<longleftrightarrow> c = CHR '' '' \<or> 9 \<le> ord c \<and> ord c \<le> 13"

definition drop_sign :: "string \<Rightarrow> string" where
  "drop_sign s = (case s of c # t \<Rightarrow> if c = CHR ''+'' \<or> c = CHR ''-'' then t else s | [] \<Rightarrow> [])"

definition numeric_text :: "string \<Rightarrow> bool" where
  "numeric_text s =
     (let s1 = drop_sign (rev (dropWhile sql_blank (rev (dropWhile sql_blank s))));
          whole = takeWhile is_digit s1; s2 = dropWhile is_digit s1;
          point = s2 \<noteq> [] \<and> hd s2 = CHR ''.'';
          part = (if point then takeWhile is_digit (tl s2) else []);
          s3 = (if point then dropWhile is_digit (tl s2) else s2);
          power = drop_sign (tl s3)
      in (whole \<noteq> [] \<or> part \<noteq> [])
         \<and> (s3 = [] \<or> (hd s3 = CHR ''e'' \<or> hd s3 = CHR ''E'') \<and> power \<noteq> [] \<and> list_all is_digit power))"

text \<open>
  \<open>periodDateClauseFor\<close> builds the clause and its argument; here it is the condition that the
  clause puts on the \<open>updated_at\<close> column of a row (written as the text that was inserted).
\<close>

definition periodDateClauseFor :: "int \<Rightarrow> int \<Rightarrow> string \<Rightarrow> bool" where
  "periodDateClauseFor periodID t updated_at =
     (case periodCutoff periodID t of
        None \<Rightarrow> True
      | Some cutoff \<Rightarrow> \<not> numeric_text updated_at \<and> format_datetime cutoff \<le> updated_at)"

definition periodDateClause :: "int \<Rightarrow> int \<Rightarrow> string \<Rightarrow> bool" where
  "periodDateClause periodID t updated_at = periodDateClauseFor periodID t updated_at"

lemma periodDateClause_unbounded [simp]:
  "periodID \<noteq> 2 \<Longrightarrow> periodID \<noteq> 4 \<Longrightarrow> periodDateClauseFor periodID t u"
  by (simp add: periodDateClauseFor_def periodCutoff_def)

lemma date_utc_midnight [simp]: "date_utc y m d mod 86400 = 0"
  by (simp add: date_utc_def)

lemma year_month_day_fields:
  assumes "year_month_day t = (y, m, d)"
  shows "1 \<le> m \<and> m \<le> 12 \<and> 1 \<le> d \<and> date_utc y m d = day_number t * 86400"
  using assms date_utc_year_month_day [OF assms] civil_from_days_fields
  by (simp add: year_month_day_def)

lemma week_cutoff:
  "periodCutoff 2 t = Some (day_number t * 86400 - ((weekday t + 6) mod 7) * 86400)"
proof -
  obtain y m d where ymd: "year_month_day t = (y, m, d)" by (cases "year_month_day t")
  define wd where "wd = (if weekday t = 0 then 7 else weekday t)"
  have "0 \<le> weekday t" "weekday t < 7" by (simp_all add: weekday_def)
  then have wd: "wd - 1 = (weekday t + 6) mod 7"
  proof -
    have "weekday t \<in> {0, 1, 2, 3, 4, 5, 6}" using \<open>0 \<le> weekday t\<close> \<open>weekday t < 7\<close> by auto
    then show ?thesis by (auto simp: wd_def)
  qed
  have "periodCutoff 2 t = Some (add_days (date_utc y m d) (- (wd - 1)))"
    by (simp add: periodCutoff_def ymd wd_def Let_def)
  also have "add_days (date_utc y m d) (- (wd - 1)) = date_utc y m d + (- (wd - 1)) * 86400"
    by (rule add_days_midnight) simp
  finally show ?thesis using year_month_day_fields [OF ymd] by (simp add: wd algebra_simps)
qed

lemma week_cutoff_monday:
  "\<exists>c. periodCutoff 2 t = Some c \<and> weekday c = 1 \<and> c mod 86400 = 0 \<and> c \<le> t \<and> t < c + 7 * 86400"
proof -
  define k where "k = (weekday t + 6) mod 7"
  define c where "c = (day_number t - k) * 86400"
  have "periodCutoff 2 t = Some c"
    by (simp add: week_cutoff c_def k_def algebra_simps)
  moreover have "weekday c = 1"
  proof -
    define D where "D = day_number t"
    have "D - ((D + 4) mod 7 + 6) mod 7 + 4 = D + 4 - (D + 4 + 6) mod 7"
      by (simp only: mod_add_left_eq)
    moreover have "(D + 4 - (D + 4 + 6) mod 7) mod 7 = (D + 4 - (D + 4 + 6)) mod 7"
      by (rule mod_diff_right_eq)
    ultimately have "(D - ((D + 4) mod 7 + 6) mod 7 + 4) mod 7 = (D + 4 - (D + 4 + 6)) mod 7"
      by (simp only:)
    also have "\<dots> = 1" by simp
    finally have "(D - ((D + 4) mod 7 + 6) mod 7 + 4) mod 7 = 1" .
    then show ?thesis by (simp only: c_def k_def weekday_def D_def day_number_mult)
  qed
  moreover have "0 \<le> k" "k < 7" by (simp_all add: k_def)
  moreover have "t = day_number t * 86400 + t mod 86400" "0 \<le> t mod 86400" "t mod 86400 < 86400"
    by (simp_all add: day_number_def)
  then have "c \<le> t \<and> t < c + 7 * 86400"
    using \<open>0 \<le> k\<close> \<open>k < 7\<close> unfolding c_def left_diff_distrib by (intro conjI; linarith)
  ultimately show ?thesis by (auto simp: c_def)
qed

lemma month_cutoff_first:
  assumes "year_month_day t = (y, m, d)"
  shows "periodCutoff 4 t = Some (date_utc y m 1) \<and> date_utc y m 1 = (day_number t - (d - 1)) * 86400
    \<and> date_utc y m 1 \<le> t"
proof -
  have "days_from_civil y m d = days_from_civil y m 1 + (d - 1)"
    using days_from_civil_add [of y m 1 "d - 1"] by simp
  then have eq: "date_utc y m 1 = (day_number t - (d - 1)) * 86400"
    using year_month_day_fields [OF assms] by (simp add: date_utc_def)
  moreover have "day_number t * 86400 \<le> t" by (simp add: day_number_def)
  ultimately show ?thesis
    using year_month_day_fields [OF assms] assms by (simp add: periodCutoff_def)
qed

text \<open>
  C39. The cutoffs of the leaderboard periods. The week's is the last Monday midnight (UTC) that is not
  after now: a Monday, at 00:00:00, at most now and less than seven days before the next one. The
  month's is midnight of the first day of the month that now falls in: \<open>d - 1\<close> days before today, where
  \<open>d\<close> is today's day of the month. No other period has one.
\<close>

theorem periodCutoff_spec:
  assumes "year_month_day t = (y, m, d)"
  shows "(\<exists>c. periodCutoff 2 t = Some c \<and> weekday c = 1 \<and> c mod 86400 = 0 \<and> c \<le> t \<and> t < c + 7 * 86400)
    \<and> periodCutoff 4 t = Some (date_utc y m 1) \<and> date_utc y m 1 = (day_number t - (d - 1)) * 86400 \<and> date_utc y m 1 \<le> t
    \<and> (periodCutoff period t \<noteq> None \<longleftrightarrow> period = 2 \<or> period = 4)"
  using week_cutoff_monday [of t] month_cutoff_first [OF assms]
  by (auto simp: periodCutoff_def Let_def split: prod.splits if_splits)

theorem periodCutoff_spec_witness:
  "periodCutoff 4 1753862400 = Some (date_utc 2025 7 1) \<and> periodCutoff 3 1753862400 = None"
proof -
  have "year_month_day 1753862400 = (2025, 7, 30)" by code_simp
  from periodCutoff_spec [OF this, of 3] show ?thesis by simp
qed

end
