(* ===== verification/Crypto.thy ===== *)
theory Crypto
  imports Go_Bytes Go_Utf8
begin

unbundle bit_operations_syntax

text \<open>
  The password and token functions of \<open>server/storage/storage.go\<close> (lines 301-319 and 1034-1100),
  over a model of the standard library's SHA-256 (FIPS 180-4) and HMAC (RFC 2104). Randomness is
  an argument: the bytes that \<open>crypto/rand\<close> delivers.
\<close>

subsection \<open>SHA-256\<close>

text \<open>The round constants and the initial state, in decimal.\<close>

definition sha_k :: "32 word list" where
  "sha_k = [
     1116352408, 1899447441, 3049323471, 3921009573, 961987163, 1508970993, 2453635748, 2870763221,
     3624381080, 310598401, 607225278, 1426881987, 1925078388, 2162078206, 2614888103, 3248222580,
     3835390401, 4022224774, 264347078, 604807628, 770255983, 1249150122, 1555081692, 1996064986,
     2554220882, 2821834349, 2952996808, 3210313671, 3336571891, 3584528711, 113926993, 338241895,
     666307205, 773529912, 1294757372, 1396182291, 1695183700, 1986661051, 2177026350, 2456956037,
     2730485921, 2820302411, 3259730800, 3345764771, 3516065817, 3600352804, 4094571909, 275423344,
     430227734, 506948616, 659060556, 883997877, 958139571, 1322822218, 1537002063, 1747873779,
     1955562222, 2024104815, 2227730452, 2361852424, 2428436474, 2756734187, 3204031479, 3329325298]"

definition sha_init :: "32 word list" where
  "sha_init = [1779033703, 3144134277, 1013904242, 2773480762,
               1359893119, 2600822924, 528734635, 1541459225]"

definition rotr :: "nat \<Rightarrow> 32 word \<Rightarrow> 32 word" where
  "rotr n x = (drop_bit n x OR push_bit (32 - n) x)"

text \<open>The message schedule, newest word first: \<open>ws ! 1\<close> is two rounds back.\<close>

definition schedule_word :: "32 word list \<Rightarrow> 32 word" where
  "schedule_word ws =
     (let w15 = ws ! 14; w2 = ws ! 1;
          s0 = (rotr 7 w15 XOR rotr 18 w15 XOR drop_bit 3 w15);
          s1 = (rotr 17 w2 XOR rotr 19 w2 XOR drop_bit 10 w2)
      in ws ! 15 + s0 + ws ! 6 + s1)"

fun schedule :: "nat \<Rightarrow> 32 word list \<Rightarrow> 32 word list" where
  "schedule 0 ws = rev ws"
| "schedule (Suc n) ws = schedule n (schedule_word ws # ws)"

fun sha_round :: "32 word list \<Rightarrow> 32 word \<times> 32 word \<Rightarrow> 32 word list" where
  "sha_round [a, b, c, d, e, f, g, h] (k, w) =
     (let s1 = (rotr 6 e XOR rotr 11 e XOR rotr 25 e);
          ch = ((e AND f) XOR (NOT e AND g));
          t1 = h + s1 + ch + k + w;
          s0 = (rotr 2 a XOR rotr 13 a XOR rotr 22 a);
          maj = ((a AND b) XOR (a AND c) XOR (b AND c))
      in [t1 + (s0 + maj), a, b, c, d + t1, e, f, g])"
| "sha_round st kw = st"

fun words_of :: "string \<Rightarrow> 32 word list" where
  "words_of (a # b # c # d # cs) = of_nat (from_be32 [a, b, c, d]) # words_of cs"
| "words_of s = []"

definition sha_block :: "32 word list \<Rightarrow> string \<Rightarrow> 32 word list" where
  "sha_block st block =
     map2 (+) st (foldl sha_round st (zip sha_k (schedule 48 (rev (words_of block)))))"

function sha_blocks :: "32 word list \<Rightarrow> string \<Rightarrow> 32 word list" where
  "sha_blocks st s = (if length s < 64 then st else sha_blocks (sha_block st (take 64 s)) (drop 64 s))"
  by pat_completeness auto
termination
  by (relation "measure (\<lambda>(_, s). length s)") auto

declare sha_blocks.simps [simp del]

definition sha_pad :: "string \<Rightarrow> string" where
  "sha_pad s =
     (let n = length s; bits = 8 * n in
      s @ [CHR 0x80] @ replicate ((119 - n mod 64) mod 64) NUL
        @ be32 (of_nat (bits div 4294967296)) @ be32 (of_nat bits))"

definition sha256 :: "string \<Rightarrow> string" where
  "sha256 s = concat (map be32 (sha_blocks sha_init (sha_pad s)))"

lemma length_sha_round: "length (sha_round st kw) = length st"
  by (cases "(st, kw)" rule: sha_round.cases) (simp_all add: Let_def)

lemma length_sha_rounds: "length (foldl sha_round st kws) = length st"
  by (induction kws arbitrary: st) (simp_all add: length_sha_round)

lemma length_sha_blocks: "length (sha_blocks st s) = length st"
proof (induction st s rule: sha_blocks.induct)
  case (1 st s)
  then show ?case
    by (subst sha_blocks.simps) (simp add: sha_block_def length_sha_rounds)
qed

lemma length_sha256 [simp]: "length (sha256 s) = 32"
proof -
  have "length (concat (map be32 ws)) = 4 * length ws" for ws
    by (induction ws) auto
  then show ?thesis by (simp add: sha256_def length_sha_blocks sha_init_def)
qed

subsection \<open>HMAC and the functions of the storage package\<close>

definition xor_byte :: "char \<Rightarrow> char \<Rightarrow> char" where
  "xor_byte a b = char_of (ord a XOR ord b)"

definition hmac_sha256 :: "string \<Rightarrow> string \<Rightarrow> string" where
  "hmac_sha256 key data =
     (let k0 = (if 64 < length key then sha256 key else key);
          k = k0 @ replicate (64 - length k0) NUL
      in sha256 (map (\<lambda>c. xor_byte c (CHR 0x5C)) k
                 @ sha256 (map (\<lambda>c. xor_byte c (CHR 0x36)) k @ data)))"

definition hmac_prf :: "string \<Rightarrow> string \<Rightarrow> string" where
  "hmac_prf key data = hmac_sha256 key data"

lemma length_hmac_prf [simp]: "length (hmac_prf k d) = 32"
  by (simp add: hmac_prf_def hmac_sha256_def Let_def)

text \<open>The inner loop: \<open>for i := 1; i < iterations; i++ { u = prf(password, u); t ^= u }\<close>.\<close>

fun pbkdf2_rounds :: "nat \<Rightarrow> string \<Rightarrow> string \<Rightarrow> string \<Rightarrow> string" where
  "pbkdf2_rounds 0 password u t = t"
| "pbkdf2_rounds (Suc n) password u t =
     (let u' = hmac_prf password u in pbkdf2_rounds n password u' (map2 xor_byte t u'))"

definition pbkdf2_block :: "string \<Rightarrow> string \<Rightarrow> int \<Rightarrow> nat \<Rightarrow> string" where
  "pbkdf2_block password salt iterations block =
     (let u = hmac_prf password (salt @ be32 (of_nat block))
      in pbkdf2_rounds (nat (iterations - 1)) password u u)"

definition pbkdf2SHA256 :: "string \<Rightarrow> string \<Rightarrow> int \<Rightarrow> nat \<Rightarrow> string" where
  "pbkdf2SHA256 password salt iterations keyLen =
     (let numBlocks = (keyLen + 32 - 1) div 32
      in take keyLen (concat (map (pbkdf2_block password salt iterations) [1..<numBlocks + 1])))"

lemma length_pbkdf2_rounds: "length t = 32 \<Longrightarrow> length (pbkdf2_rounds n password u t) = 32"
  by (induction n arbitrary: u t) (simp_all add: Let_def)

lemma length_pbkdf2SHA256 [simp]: "length (pbkdf2SHA256 password salt iterations keyLen) = keyLen"
proof -
  have "length (pbkdf2_block password salt iterations b) = 32" for b
    by (simp add: pbkdf2_block_def Let_def length_pbkdf2_rounds)
  then have "length (concat (map (pbkdf2_block password salt iterations) bs)) = 32 * length bs" for bs
    by (induction bs) auto
  moreover have "keyLen \<le> 32 * ((keyLen + 31) div 32)" by presburger
  ultimately show ?thesis by (simp add: pbkdf2SHA256_def Let_def del: upt_Suc)
qed

definition passwordScheme :: string where "passwordScheme = ''pbkdf2_sha256''"
definition passwordIterations :: int where "passwordIterations = 260000"
definition loginTokenBytes :: nat where "loginTokenBytes = 112"
definition maxLoginTokenLen :: nat where "maxLoginTokenLen = 256"

definition hashPassword :: "string \<Rightarrow> string \<Rightarrow> string" where
  "hashPassword salt password =
     (let digest = pbkdf2SHA256 password salt passwordIterations 32
      in passwordScheme @ CHR ''$'' # itoa passwordIterations @ CHR ''$'' # hex_encode salt
         @ CHR ''$'' # hex_encode digest)"

definition verifyPassword :: "string \<Rightarrow> string \<Rightarrow> bool" where
  "verifyPassword password stored =
     (case split_char (CHR ''$'') stored of
        [scheme, iters, salt_hex, digest_hex] \<Rightarrow>
          if scheme \<noteq> passwordScheme then stored = password
          else (case atoi_checked iters of
              None \<Rightarrow> False
            | Some iterations \<Rightarrow>
              (case hex_decode salt_hex of
                 None \<Rightarrow> False
               | Some salt \<Rightarrow>
                 (case hex_decode digest_hex of
                    None \<Rightarrow> False
                  | Some expected \<Rightarrow>
                      pbkdf2SHA256 password salt iterations (length expected) = expected)))
      | _ \<Rightarrow> stored = password)"

definition generateLoginToken :: "string \<Rightarrow> string" where
  "generateLoginToken buf = replace_char (CHR ''='') ''.'' (base64_url buf)"

definition hashLoginToken :: "string \<Rightarrow> string" where
  "hashLoginToken token = hex_encode (sha256 token)"

definition LoginTokenHashPrefix :: "string \<Rightarrow> string" where
  "LoginTokenHashPrefix token =
     (let hash = hashLoginToken token in if length hash < 12 then hash else take 12 hash)"

definition ValidLoginToken :: "string \<Rightarrow> bool" where
  "ValidLoginToken token \<longleftrightarrow>
     token \<noteq> [] \<and> length token \<le> maxLoginTokenLen \<and> (\<forall>r \<in> set (runes token). 33 \<le> r \<and> r \<le> 126)"

subsection \<open>Properties\<close>

lemma dollar_not_hex: "CHR ''$'' \<notin> set (hex_encode s)"
  by (auto dest!: hex_encode_chars simp: is_hex_def is_digit_def ord_def)

lemma split_hashPassword:
  "split_char (CHR ''$'') (hashPassword salt password) =
     [passwordScheme, itoa passwordIterations, hex_encode salt,
      hex_encode (pbkdf2SHA256 password salt passwordIterations 32)]"
proof -
  have "CHR ''$'' \<notin> set passwordScheme" by (simp add: passwordScheme_def)
  moreover have "CHR ''$'' \<notin> set (itoa passwordIterations)"
    by (rule itoa_no_char) (simp_all add: is_digit_def ord_def)
  ultimately show ?thesis
    by (simp add: hashPassword_def Let_def split_char_append split_char_none dollar_not_hex)
qed

text \<open>
  A password is accepted against a stored hash exactly when it derives the same key under the
  stored salt and iteration count: the hash string is parsed back into what \<open>hashPassword\<close> put
  into it.
\<close>

lemma verify_hashPassword:
  "verifyPassword p (hashPassword salt q) \<longleftrightarrow>
     pbkdf2SHA256 p salt passwordIterations 32 = pbkdf2SHA256 q salt passwordIterations 32"
proof -
  have "int64_range passwordIterations"
    by (simp add: int64_range_def min_int64_def max_int64_def passwordIterations_def)
  then show ?thesis
    by (simp add: verifyPassword_def split_hashPassword atoi_checked_itoa)
qed

lemma hashPassword_prefix: "prefix (passwordScheme @ ''$'') (hashPassword salt password)"
  by (simp add: hashPassword_def Let_def prefix_def)

lemma ValidLoginToken_iff:
  "ValidLoginToken token \<longleftrightarrow>
     token \<noteq> [] \<and> length token \<le> 256 \<and> (\<forall>c \<in> set token. 33 \<le> ord c \<and> ord c \<le> 126)"
  using runes_all_ascii [of "\<lambda>r. 33 \<le> r \<and> r \<le> 126" token]
  by (simp add: ValidLoginToken_def maxLoginTokenLen_def)

lemma replace_char_dot_length: "length (replace_char d [c] s) = length s"
  by (induction s) auto

text \<open>
  A generated login token is one that \<open>ValidLoginToken\<close> accepts, so a token that the server hands
  out is never turned away by the check in front of the lookup.
\<close>

lemma generated_token_valid:
  assumes "length buf = loginTokenBytes"
  shows "ValidLoginToken (generateLoginToken buf)"
proof -
  have len: "length (generateLoginToken buf) = 152"
    using assms by (simp add: generateLoginToken_def replace_char_dot_length base64_url_length
        loginTokenBytes_def)
  have "33 \<le> ord c \<and> ord c \<le> 126" if "c \<in> set (generateLoginToken buf)" for c
  proof -
    from that have "c = CHR ''.'' \<or> c \<in> set (base64_url buf)"
      by (auto simp: generateLoginToken_def replace_char_def split: if_splits)
    then show ?thesis by (auto dest: base64_url_printable simp: ord_def)
  qed
  with len show ?thesis by (auto simp: ValidLoginToken_iff)
qed

end
