(* ===== verification/Config.thy ===== *)
theory Config
  imports Go_Path Go_Numbers Go_Utf8
begin

text \<open>
  \<open>server/config/config.go\<close>: the settings, read from an INI file and overridden by the environment.
  The environment is a function from names to values (empty when unset), the file system a function
  from paths to contents.
\<close>

record Config =
  BindHost :: string
  FESLPort :: int
  HTTPPort :: int
  LockerURL :: string
  MemcheckIntervalSec :: int
  DBPath :: string
  GhostDir :: string
  LogPath :: string
  GameVersion :: string
  MaxUploadBytes :: int
  MaxIdentifierLength :: int

definition defaults :: Config where
  "defaults = \<lparr>
     BindHost = ''0.0.0.0'',
     FESLPort = 18680,
     HTTPPort = 80,
     LockerURL = ''http://easo.ea.com/easo/locker'',
     MemcheckIntervalSec = 30,
     DBPath = ''me_server.db'',
     GhostDir = ''ghosts'',
     LogPath = ''session.log'',
     GameVersion = ''1.0.0.0'',
     MaxUploadBytes = 1048576,
     MaxIdentifierLength = 64\<rparr>"

subsection \<open>The INI file\<close>

text \<open>
  \<open>bufio.Scanner\<close> gives the lines without their ends; a line that does not fit its buffer of 65536
  bytes ends the scan with an error, and the caller then ignores the file.
\<close>

definition scan_lines :: "string \<Rightarrow> string list option" where
  "scan_lines content =
     (let ls = split_char LF content in
      if \<exists>l \<in> set ls. 65536 \<le> length l then None
      else Some (map (\<lambda>l. if l \<noteq> [] \<and> last l = CR then butlast l else l) ls))"

fun ini_line :: "string \<Rightarrow> string \<times> params \<Rightarrow> string \<times> params" where
  "ini_line raw (section_name, values) =
     (let line = trim_space raw in
      if line = [] \<or> hd line = CHR ''#'' \<or> hd line = CHR '';'' then (section_name, values)
      else if hd line = CHR ''['' \<and> last line = CHR '']'' then
        (trim_space (butlast (tl line)), values)
      else (case cut_char (CHR ''='') line of
          None \<Rightarrow> (section_name, values)
        | Some (key, v) \<Rightarrow>
            (section_name, values(section_name @ CHR ''.'' # trim_space key \<mapsto> trim_space v))))"

definition readINI :: "string \<Rightarrow> params option" where
  "readINI content =
     map_option (\<lambda>ls. snd (foldl (\<lambda>st l. ini_line l st) ([], Map.empty) ls)) (scan_lines content)"

subsection \<open>Precedence\<close>

definition lookup :: "params \<Rightarrow> string \<Rightarrow> string \<Rightarrow> string" where
  "lookup values key fallback =
     (case values key of Some v \<Rightarrow> if v \<noteq> [] then v else fallback | None \<Rightarrow> fallback)"

definition lookupInt :: "params \<Rightarrow> string \<Rightarrow> int \<Rightarrow> int" where
  "lookupInt values key fallback =
     (case values key of
        None \<Rightarrow> fallback
      | Some v \<Rightarrow> (case atoi_checked v of None \<Rightarrow> fallback | Some n \<Rightarrow> n))"

definition getenv :: "(string \<Rightarrow> string) \<Rightarrow> string \<Rightarrow> string \<Rightarrow> string" where
  "getenv env name fallback = (if env name \<noteq> [] then env name else fallback)"

definition getenvInt :: "(string \<Rightarrow> string) \<Rightarrow> string \<Rightarrow> int \<Rightarrow> int" where
  "getenvInt env name fallback =
     (if env name = [] then fallback
      else (case atoi_checked (env name) of None \<Rightarrow> fallback | Some n \<Rightarrow> n))"

definition cleanPath :: "string \<Rightarrow> string" where
  "cleanPath path = (if IsAbs path then path else Clean path)"

definition with_file :: "params \<Rightarrow> Config \<Rightarrow> Config" where
  "with_file values cfg = cfg\<lparr>
     BindHost := lookup values ''network.bind_host'' (BindHost cfg),
     FESLPort := lookupInt values ''network.fesl_port'' (FESLPort cfg),
     HTTPPort := lookupInt values ''network.http_port'' (HTTPPort cfg),
     LockerURL := lookup values ''network.locker_url'' (LockerURL cfg),
     MemcheckIntervalSec := lookupInt values ''network.memcheck_interval'' (MemcheckIntervalSec cfg),
     DBPath := lookup values ''paths.db_path'' (DBPath cfg),
     GhostDir := lookup values ''paths.ghost_dir'' (GhostDir cfg),
     LogPath := lookup values ''paths.log_path'' (LogPath cfg),
     GameVersion := lookup values ''game.version'' (GameVersion cfg),
     MaxUploadBytes := lookupInt values ''security.max_upload_bytes'' (MaxUploadBytes cfg),
     MaxIdentifierLength := lookupInt values ''security.max_identifier_length'' (MaxIdentifierLength cfg)\<rparr>"

definition with_env :: "(string \<Rightarrow> string) \<Rightarrow> Config \<Rightarrow> Config" where
  "with_env env cfg = cfg\<lparr>
     BindHost := getenv env ''MEDGENET_BIND_HOST'' (BindHost cfg),
     FESLPort := getenvInt env ''MEDGENET_FESL_PORT'' (FESLPort cfg),
     HTTPPort := getenvInt env ''MEDGENET_HTTP_PORT'' (HTTPPort cfg),
     LockerURL := getenv env ''MEDGENET_LOCKER_URL'' (LockerURL cfg),
     MemcheckIntervalSec := getenvInt env ''MEDGENET_MEMCHECK_INTERVAL'' (MemcheckIntervalSec cfg),
     DBPath := getenv env ''MEDGENET_DB_PATH'' (DBPath cfg),
     GhostDir := getenv env ''MEDGENET_GHOST_DIR'' (GhostDir cfg),
     LogPath := getenv env ''MEDGENET_LOG_PATH'' (LogPath cfg),
     GameVersion := getenv env ''MEDGENET_GAME_VERSION'' (GameVersion cfg),
     MaxUploadBytes := getenvInt env ''MEDGENET_MAX_UPLOAD_BYTES'' (MaxUploadBytes cfg),
     MaxIdentifierLength := getenvInt env ''MEDGENET_MAX_IDENTIFIER_LENGTH'' (MaxIdentifierLength cfg)\<rparr>"

definition Load :: "(string \<Rightarrow> string) \<Rightarrow> (string \<Rightarrow> string option) \<Rightarrow> Config" where
  "Load env files =
     (let path = getenv env ''MEDGENET_CONFIG'' ''server.ini'';
          cfg = (case Option.bind (files path) readINI of
                   Some values \<Rightarrow> with_file values defaults
                 | None \<Rightarrow> defaults);
          cfg = with_env env cfg
      in cfg\<lparr>DBPath := cleanPath (DBPath cfg), GhostDir := cleanPath (GhostDir cfg),
             LogPath := cleanPath (LogPath cfg)\<rparr>)"

subsection \<open>Reading back a written file\<close>

text \<open>A word that survives the trimming and is not taken for a comment or a section.\<close>

definition ini_word :: "string \<Rightarrow> bool" where
  "ini_word s \<longleftrightarrow> s \<noteq> [] \<and> ascii s \<and> LF \<notin> set s \<and> CR \<notin> set s \<and> \<not> sp (hd s) \<and> \<not> sp (last s)"

definition ini_key :: "string \<Rightarrow> bool" where
  "ini_key s \<longleftrightarrow> ini_word s \<and> CHR ''='' \<notin> set s \<and> hd s \<notin> {CHR ''#'', CHR '';'', CHR ''[''}"

definition render_line :: "string \<times> string \<Rightarrow> string" where
  "render_line = (\<lambda>(k, v). k @ '' = '' @ v)"

text \<open>Sections in order, each a heading line followed by its settings.\<close>

type_synonym ini_file = "(string \<times> (string \<times> string) list) list"

definition section_lines :: "string \<times> (string \<times> string) list \<Rightarrow> string list" where
  "section_lines = (\<lambda>(sec, settings). (CHR ''['' # sec @ '']'') # map render_line settings)"

definition render_ini :: "ini_file \<Rightarrow> string" where
  "render_ini sections = concat (map (\<lambda>l. l @ [LF]) (concat (map section_lines sections)))"

lemma trim_word: "ini_word s \<Longrightarrow> trim_space s = s"
  by (simp add: ini_word_def trim_space_id)

lemma sp_blank [simp]: "is_space 32"
  by (simp add: is_space_def)

lemma ini_line_setting:
  assumes "ini_key k" "ini_word v"
  shows "ini_line (render_line (k, v)) (sec, m) = (sec, m(sec @ CHR ''.'' # k \<mapsto> v))"
proof -
  have k: "ini_word k" "CHR ''='' \<notin> set k" "k \<noteq> []" "hd k \<notin> {CHR ''#'', CHR '';'', CHR ''[''}"
    using assms(1) by (auto simp: ini_key_def ini_word_def)
  let ?line = "k @ '' = '' @ v"
  have "ascii ?line" "hd ?line = hd k" "last ?line = last v"
    using k assms(2) by (auto simp: ascii_def ini_word_def ord_def)
  then have trim: "trim_space ?line = ?line"
    using k(1) assms(2) by (intro trim_space_id) (auto simp: ini_word_def)
  have cut: "cut_char (CHR ''='') ?line = Some (k @ '' '', '' '' @ v)"
    using cut_char_append [of "CHR ''=''" "k @ '' ''" "'' '' @ v"] k(2) by simp
  have "trim_space (k @ '' '') = k" "trim_space ('' '' @ v) = v"
    using trim_space_surround [of k "[]" "'' ''"] trim_space_surround [of v "'' ''" "[]"] k(1) assms(2)
    by (auto simp: ini_word_def ascii_def ord_def)
  then show ?thesis using k trim cut by (simp add: render_line_def Let_def)
qed

lemma ini_line_section:
  assumes "ini_word sec"
  shows "ini_line (CHR ''['' # sec @ '']'') (old, m) = (sec, m)"
proof -
  let ?line = "CHR ''['' # sec @ '']''"
  have "trim_space ?line = ?line"
    using assms by (intro trim_space_id) (auto simp: ini_word_def ascii_def ord_def is_space_def)
  then show ?thesis using trim_word [OF assms] by (simp add: Let_def)
qed

lemma split_rendered:
  "\<forall>l \<in> set ls. LF \<notin> set l \<Longrightarrow> split_char LF (concat (map (\<lambda>l. l @ [LF]) ls)) = ls @ [[]]"
  by (induction ls) (simp_all add: split_char_append)

definition ini_ok :: "ini_file \<Rightarrow> bool" where
  "ini_ok sections \<longleftrightarrow> (\<forall>(sec, settings) \<in> set sections. ini_word sec \<and> length sec < 65000
     \<and> (\<forall>(k, v) \<in> set settings. ini_key k \<and> ini_word v \<and> length k + length v < 65000))"

definition dotted :: "ini_file \<Rightarrow> (string \<times> string) list" where
  "dotted sections = concat (map (\<lambda>(sec, settings). map (\<lambda>(k, v). (sec @ CHR ''.'' # k, v)) settings) sections)"

definition put_all :: "params \<Rightarrow> (string \<times> string) list \<Rightarrow> params" where
  "put_all m settings = foldl (\<lambda>m (k, v). m(k \<mapsto> v)) m settings"

lemma rendered_line:
  assumes "ini_ok sections" "l \<in> set (concat (map section_lines sections))"
  shows "LF \<notin> set l" "length l < 65536" "l \<noteq> []" "last l \<noteq> CR"
proof -
  from assms obtain sec settings where s: "ini_word sec" "length sec < 65000"
    "\<And>k v. (k, v) \<in> set settings \<Longrightarrow> ini_key k \<and> ini_word v \<and> length k + length v < 65000" "l \<in> set (section_lines (sec, settings))"
    by (fastforce simp: ini_ok_def)
  then consider "l = CHR ''['' # sec @ '']''" | k v where "(k, v) \<in> set settings" "l = render_line (k, v)"
    by (auto simp: section_lines_def)
  then have "LF \<notin> set l \<and> length l < 65536 \<and> l \<noteq> [] \<and> last l \<noteq> CR"
  proof cases
    case 2
    then have "ini_key k" "ini_word v" "length k + length v < 65000" using s(3) by simp_all
    moreover from this have "last v \<noteq> CR" by (metis ini_word_def last_in_set)
    ultimately show ?thesis unfolding 2(2) by (auto simp: render_line_def ini_word_def ini_key_def)
  qed (use s in \<open>auto simp: ini_word_def\<close>)
  then show "LF \<notin> set l" "length l < 65536" "l \<noteq> []" "last l \<noteq> CR" by simp_all
qed

lemma fold_section:
  assumes "\<forall>(k, v) \<in> set settings. ini_key k \<and> ini_word v"
  shows "foldl (\<lambda>st l. ini_line l st) (sec, m) (map render_line settings) =
    (sec, put_all m (map (\<lambda>(k, v). (sec @ CHR ''.'' # k, v)) settings))"
  using assms
proof (induction settings arbitrary: m)
  case (Cons kv settings)
  obtain k v where "kv = (k, v)" by force
  with Cons show ?case by (auto simp: ini_line_setting put_all_def fun_upd_def simp del: ini_line.simps)
qed (simp add: put_all_def)

lemma fold_sections:
  "ini_ok sections \<Longrightarrow> snd (foldl (\<lambda>st l. ini_line l st) (old, m) (concat (map section_lines sections))) = put_all m (dotted sections)"
proof (induction sections arbitrary: old m)
  case (Cons s sections)
  obtain sec settings where s: "s = (sec, settings)" by force
  have ok: "ini_word sec" "\<forall>(k, v) \<in> set settings. ini_key k \<and> ini_word v" "ini_ok sections"
    using Cons.prems by (auto simp: ini_ok_def s)
  let ?m = "put_all m (map (\<lambda>(k, v). (sec @ CHR ''.'' # k, v)) settings)"
  have "foldl (\<lambda>st l. ini_line l st) (old, m) (section_lines s) = (sec, ?m)"
    unfolding s section_lines_def prod.case foldl_Cons ini_line_section [OF ok(1)] by (rule fold_section [OF ok(2)])
  moreover have "put_all ?m (dotted sections) = put_all m (dotted (s # sections))" by (simp add: put_all_def dotted_def s)
  ultimately show ?case using Cons.IH [OF ok(3), of sec ?m] by simp
qed (simp add: put_all_def dotted_def)

text \<open>
  C40. A settings file that was written line by line is read back as it was: every setting of every
  section under its dotted name, the last one winning, nothing else. Section names, keys and values
  are non-empty ASCII words without line ends and without blanks at their ends; a key has no \<open>=\<close> and does
  not start with \<open>#\<close>, \<open>;\<close> or \<open>[\<close>; a section name is shorter than 65000 bytes, and so is a key with its
  value (\<open>ini_ok\<close>).
\<close>

theorem readINI_render:
  assumes "ini_ok sections"
  shows "readINI (render_ini sections) = Some (put_all Map.empty (dotted sections))"
proof -
  let ?ls = "concat (map section_lines sections)"
  note line = rendered_line [OF assms]
  have split: "split_char LF (render_ini sections) = ?ls @ [[]]"
    unfolding render_ini_def by (rule split_rendered) (use line(1) in blast)
  have short: "\<not> (\<exists>l \<in> set (?ls @ [[]]). 65536 \<le> length l)" using line(2) by fastforce
  have "map (\<lambda>l. if l \<noteq> [] \<and> last l = CR then butlast l else l) (?ls @ [[]]) = ?ls @ [[]]"
    by (rule map_idI) (use line(4) in auto)
  then have "scan_lines (render_ini sections) = Some (?ls @ [[]])"
    using short unfolding scan_lines_def split Let_def by (simp only: if_False)
  moreover have "trim_space [] = []" by code_simp
  then have "ini_line [] st = st" for st by (cases st) (simp add: Let_def)
  ultimately show ?thesis using fold_sections [OF assms, of "[]" Map.empty]
    by (simp add: readINI_def del: ini_line.simps)
qed

theorem readINI_render_witness:
  "readINI (render_ini [(''network'', [(''fesl_port'', ''18680'')]), (''game'', [(''version'', ''1.0'')])]) =
     Some [''network.fesl_port'' \<mapsto> ''18680'', ''game.version'' \<mapsto> ''1.0'']"
  using readINI_render [of "[(''network'', [(''fesl_port'', ''18680'')]), (''game'', [(''version'', ''1.0'')])]"]
  by (simp add: ini_ok_def ini_word_def ini_key_def ascii_def is_space_def ord_def dotted_def put_all_def)

end
