(* ===== verification/World.thy ===== *)
theory World
  imports Sql Crypto Periods
begin

text \<open>
  The state that the storage package works on: the tables of the schema in \<open>Store.Init\<close>
  (\<open>server/storage/storage.go\<close>, lines 20-83 and 102-165), the clock, the random bytes, and what
  SQLite may do on its own (fail a statement, choose the order of rows that the query leaves
  open, convert a timestamp column while scanning it).
\<close>

subsection \<open>Rows\<close>

record Account =
  acc_ID :: int
  acc_NUID :: string
  acc_Password :: string

record Persona =
  per_ID :: int
  per_AccountID :: int
  per_Name :: string
  per_CreatedAt :: string

record Association =
  as_ID :: int
  as_Name :: string

record RankedStat =
  rs_Rank :: int
  rs_Value :: float64

record TopEntry =
  te_PersonaID :: int
  te_PersonaName :: string
  te_Rank :: int
  te_Values :: "string \<rightharpoonup> float64"
  te_Imported :: bool
  te_TimeOnly :: bool

record stat_row =
  st_persona_id :: int
  st_key :: string
  st_value :: float64
  st_period_id :: int
  st_updated_at :: string

record friend_row =
  fr_persona_id :: int
  fr_friend_persona_id :: int
  fr_type :: string

record token_row =
  tk_token_hash :: string
  tk_account_id :: int
  tk_created_at :: string
  tk_last_used_at :: string

record player_row =
  hp_id :: int
  hp_source_key :: string
  hp_name :: string

record run_row =
  hr_player_id :: int
  hr_stretch_id :: int
  hr_key :: string
  hr_value :: float64
  hr_period_id :: int
  hr_run_id :: string
  hr_weblink :: string
  hr_updated_at :: string

record link_row =
  ln_source_key :: string
  ln_persona_id :: int

definition HistoricalOwnerOffset :: int where "HistoricalOwnerOffset = 1000000000"
definition MaxHistoricalNameLen :: nat where "MaxHistoricalNameLen = 31"

text \<open>
  A \<open>REAL\<close> column stores a value without fraction as an integer, so it does not tell the two zeros apart.
\<close>

definition real_column :: "float64 \<Rightarrow> float64" where
  "real_column v = (if v = NegZero then Fin 0 else v)"

lemma real_column_NaN [simp]: "real_column v = NaN \<longleftrightarrow> v = NaN"
  by (simp add: real_column_def)

subsection \<open>The state\<close>

text \<open>
  \<open>faults\<close> says which of the coming statements fail (the empty list: none does), \<open>random\<close> are the
  bytes of \<open>crypto/rand\<close> and \<open>random_pos\<close> how many are used up, \<open>row_order\<close> is the order of rows
  that SQL leaves open, and \<open>scan_timestamp\<close> what the driver makes of a timestamp column.
\<close>

record world =
  accounts :: "Account list"
  personas :: "Persona list"
  stats :: "stat_row list"
  friends :: "friend_row list"
  login_tokens :: "token_row list"
  historical_players :: "player_row list"
  historical_runs :: "run_row list"
  historical_account_links :: "link_row list"
  clock :: int
  random :: "nat \<Rightarrow> char"
  random_pos :: nat
  faults :: "bool list"
  row_order :: "nat \<Rightarrow> nat list"
  scan_timestamp :: "string \<Rightarrow> string"

definition current_timestamp :: "world \<Rightarrow> string" where
  "current_timestamp w = format_datetime (clock w)"

text \<open>One SQL statement: it fails, or it runs as a whole.\<close>

definition stmt :: "(world, 'a) go \<Rightarrow> (world, 'a) go" where
  "stmt run w = (case faults w of
      [] \<Rightarrow> run w
    | True # fs \<Rightarrow> (Fail ErrDb, w\<lparr>faults := fs\<rparr>)
    | False # fs \<Rightarrow> run (w\<lparr>faults := fs\<rparr>))"

definition query :: "(world \<Rightarrow> 'a) \<Rightarrow> (world, 'a) go" where
  "query f = stmt (\<lambda>w. (Ret (f w), w))"

definition exec_sql :: "(world \<Rightarrow> world) \<Rightarrow> (world, unit) go" where
  "exec_sql f = stmt (\<lambda>w. (Ret (), f w))"

definition draw :: "nat \<Rightarrow> (world, string) go" where
  "draw n w = (Ret (map (random w) [random_pos w..<random_pos w + n]),
               w\<lparr>random_pos := random_pos w + n\<rparr>)"

lemma query_ok [go_run]: "faults w = [] \<Longrightarrow> query f w = (Ret (f w), w)"
  by (simp add: query_def stmt_def)

lemma exec_sql_ok [go_run]: "faults w = [] \<Longrightarrow> exec_sql f w = (Ret (), f w)"
  by (simp add: exec_sql_def stmt_def)

lemma stmt_ok [go_run]: "faults w = [] \<Longrightarrow> stmt run w = run w"
  by (simp add: stmt_def)

lemma query_returns: "query f w = (Ret x, w') \<Longrightarrow> \<exists>fs. w' = w\<lparr>faults := fs\<rparr> \<and> x = f w'"
  by (auto simp: query_def stmt_def split: list.splits bool.splits intro: exI [of _ "[]"])

subsection \<open>The schema's constraints\<close>

text \<open>
  Unique and primary keys, and the foreign keys. The schema turns foreign keys on with a
  \<open>PRAGMA\<close>, which SQLite applies to the one pooled connection that runs it; the model does not
  enforce them, and the invariant below is what the code keeps by itself.
\<close>

definition stat_key :: "stat_row \<Rightarrow> int \<times> string \<times> int" where
  "stat_key r = (st_persona_id r, st_key r, st_period_id r)"

definition friend_key :: "friend_row \<Rightarrow> int \<times> int \<times> string" where
  "friend_key r = (fr_persona_id r, fr_friend_persona_id r, fr_type r)"

definition run_key :: "run_row \<Rightarrow> int \<times> string \<times> int" where
  "run_key r = (hr_player_id r, hr_key r, hr_period_id r)"

definition account_ids :: "world \<Rightarrow> int set" where
  "account_ids w = acc_ID ` set (accounts w)"

definition persona_ids :: "world \<Rightarrow> int set" where
  "persona_ids w = per_ID ` set (personas w)"

definition accounts_ok :: "world \<Rightarrow> bool" where
  "accounts_ok w \<longleftrightarrow> distinct (map acc_ID (accounts w)) \<and> distinct (map acc_NUID (accounts w))
     \<and> (\<forall>a \<in> set (accounts w). 1 \<le> acc_ID a)"

definition personas_ok :: "world \<Rightarrow> bool" where
  "personas_ok w \<longleftrightarrow> distinct (map per_ID (personas w)) \<and> distinct (map per_Name (personas w))
     \<and> (\<forall>p \<in> set (personas w). 1 \<le> per_ID p \<and> per_AccountID p \<in> account_ids w)"

definition stats_ok :: "world \<Rightarrow> bool" where
  "stats_ok w \<longleftrightarrow> distinct (map stat_key (stats w))
     \<and> (\<forall>r \<in> set (stats w). st_persona_id r \<in> persona_ids w \<and> st_value r \<noteq> NaN)"

definition friends_ok :: "world \<Rightarrow> bool" where
  "friends_ok w \<longleftrightarrow> distinct (map friend_key (friends w))
     \<and> (\<forall>r \<in> set (friends w). fr_persona_id r \<in> persona_ids w \<and> fr_friend_persona_id r \<in> persona_ids w)"

definition tokens_ok :: "world \<Rightarrow> bool" where
  "tokens_ok w \<longleftrightarrow> distinct (map tk_token_hash (login_tokens w))
     \<and> (\<forall>r \<in> set (login_tokens w). tk_account_id r \<in> account_ids w)"

definition historical_ok :: "world \<Rightarrow> bool" where
  "historical_ok w \<longleftrightarrow> distinct (map hp_id (historical_players w))
     \<and> distinct (map hp_source_key (historical_players w))
     \<and> (\<forall>p \<in> set (historical_players w). 1 \<le> hp_id p)
     \<and> distinct (map run_key (historical_runs w))
     \<and> (\<forall>r \<in> set (historical_runs w). hr_player_id r \<in> hp_id ` set (historical_players w) \<and> hr_value r \<noteq> NaN)"

definition links_ok :: "world \<Rightarrow> bool" where
  "links_ok w \<longleftrightarrow> distinct (map ln_source_key (historical_account_links w))
     \<and> (\<forall>r \<in> set (historical_account_links w). ln_persona_id r \<in> persona_ids w
          \<and> ln_source_key r \<in> hp_source_key ` set (historical_players w))"

definition tables_ok :: "world \<Rightarrow> bool" where
  "tables_ok w \<longleftrightarrow> accounts_ok w \<and> personas_ok w \<and> stats_ok w \<and> friends_ok w \<and> tokens_ok w
     \<and> historical_ok w \<and> links_ok w"

lemmas tables_ok_defs = tables_ok_def accounts_ok_def personas_ok_def stats_ok_def friends_ok_def
  tokens_ok_def historical_ok_def links_ok_def account_ids_def persona_ids_def

text \<open>An invariant of the tables does not see the fields that a statement itself uses up.\<close>

definition table_invariant :: "(world \<Rightarrow> bool) \<Rightarrow> bool" where
  "table_invariant I \<longleftrightarrow> (\<forall>w fs n. I w \<longrightarrow> I (w\<lparr>faults := fs\<rparr>) \<and> I (w\<lparr>random_pos := n\<rparr>))"

lemma tables_ok_invariant [keeps_intro]: "table_invariant tables_ok"
  by (simp add: table_invariant_def tables_ok_defs)

text \<open>
  Accounts and personas are never deleted, so what a handler has once seen of them stays. \<open>db_ok A P\<close>
  is the schema with the accounts \<open>A\<close> and the personas \<open>P\<close> present; every operation of the store keeps
  it for all \<open>A\<close> and \<open>P\<close>, which is also what other sessions may rely on.
\<close>

definition db_ok :: "int set \<Rightarrow> int set \<Rightarrow> world \<Rightarrow> bool" where
  "db_ok A P w \<longleftrightarrow> tables_ok w \<and> A \<subseteq> account_ids w \<and> P \<subseteq> persona_ids w"

lemma db_ok_tables: "db_ok A P w \<Longrightarrow> tables_ok w"
  by (simp add: db_ok_def)

lemma db_ok_empty: "db_ok {} {} w \<longleftrightarrow> tables_ok w"
  by (simp add: db_ok_def)

lemma db_ok_Un: "db_ok (A \<union> A') (P \<union> P') w \<longleftrightarrow> db_ok A P w \<and> db_ok A' P' w"
  by (auto simp: db_ok_def)

lemma account_ids_frame [simp]:
  "account_ids (personas_update f w) = account_ids w" "account_ids (stats_update g w) = account_ids w"
  "account_ids (friends_update h w) = account_ids w" "account_ids (login_tokens_update k w) = account_ids w"
  "account_ids (historical_players_update l w) = account_ids w"
  "account_ids (historical_runs_update m w) = account_ids w"
  "account_ids (historical_account_links_update n w) = account_ids w"
  "account_ids (faults_update p w) = account_ids w" "account_ids (random_pos_update q w) = account_ids w"
  by (simp_all add: account_ids_def)

lemma persona_ids_frame [simp]:
  "persona_ids (accounts_update f w) = persona_ids w" "persona_ids (stats_update g w) = persona_ids w"
  "persona_ids (friends_update h w) = persona_ids w" "persona_ids (login_tokens_update k w) = persona_ids w"
  "persona_ids (historical_players_update l w) = persona_ids w"
  "persona_ids (historical_runs_update m w) = persona_ids w"
  "persona_ids (historical_account_links_update n w) = persona_ids w"
  "persona_ids (faults_update p w) = persona_ids w" "persona_ids (random_pos_update q w) = persona_ids w"
  by (simp_all add: persona_ids_def)

text \<open>Each part of the constraints looks at its own tables only.\<close>

lemma accounts_ok_frame [simp]:
  "accounts_ok (personas_update f0 w) = accounts_ok w" "accounts_ok (stats_update f1 w) = accounts_ok w"
  "accounts_ok (friends_update f2 w) = accounts_ok w" "accounts_ok (login_tokens_update f3 w) = accounts_ok w"
  "accounts_ok (historical_players_update f4 w) = accounts_ok w" "accounts_ok (historical_runs_update f5 w) = accounts_ok w"
  "accounts_ok (historical_account_links_update f6 w) = accounts_ok w" "accounts_ok (faults_update f7 w) = accounts_ok w"
  "accounts_ok (random_pos_update f8 w) = accounts_ok w"
  by (simp_all add: accounts_ok_def)

lemma personas_ok_frame [simp]:
  "personas_ok (stats_update f0 w) = personas_ok w" "personas_ok (friends_update f1 w) = personas_ok w"
  "personas_ok (login_tokens_update f2 w) = personas_ok w" "personas_ok (historical_players_update f3 w) = personas_ok w"
  "personas_ok (historical_runs_update f4 w) = personas_ok w" "personas_ok (historical_account_links_update f5 w) = personas_ok w"
  "personas_ok (faults_update f6 w) = personas_ok w" "personas_ok (random_pos_update f7 w) = personas_ok w"
  by (simp_all add: personas_ok_def)

lemma stats_ok_frame [simp]:
  "stats_ok (accounts_update f0 w) = stats_ok w" "stats_ok (friends_update f1 w) = stats_ok w"
  "stats_ok (login_tokens_update f2 w) = stats_ok w" "stats_ok (historical_players_update f3 w) = stats_ok w"
  "stats_ok (historical_runs_update f4 w) = stats_ok w" "stats_ok (historical_account_links_update f5 w) = stats_ok w"
  "stats_ok (faults_update f6 w) = stats_ok w" "stats_ok (random_pos_update f7 w) = stats_ok w"
  by (simp_all add: stats_ok_def)

lemma friends_ok_frame [simp]:
  "friends_ok (accounts_update f0 w) = friends_ok w" "friends_ok (stats_update f1 w) = friends_ok w"
  "friends_ok (login_tokens_update f2 w) = friends_ok w" "friends_ok (historical_players_update f3 w) = friends_ok w"
  "friends_ok (historical_runs_update f4 w) = friends_ok w" "friends_ok (historical_account_links_update f5 w) = friends_ok w"
  "friends_ok (faults_update f6 w) = friends_ok w" "friends_ok (random_pos_update f7 w) = friends_ok w"
  by (simp_all add: friends_ok_def)

lemma tokens_ok_frame [simp]:
  "tokens_ok (personas_update f0 w) = tokens_ok w" "tokens_ok (stats_update f1 w) = tokens_ok w"
  "tokens_ok (friends_update f2 w) = tokens_ok w" "tokens_ok (historical_players_update f3 w) = tokens_ok w"
  "tokens_ok (historical_runs_update f4 w) = tokens_ok w" "tokens_ok (historical_account_links_update f5 w) = tokens_ok w"
  "tokens_ok (faults_update f6 w) = tokens_ok w" "tokens_ok (random_pos_update f7 w) = tokens_ok w"
  by (simp_all add: tokens_ok_def)

lemma historical_ok_frame [simp]:
  "historical_ok (accounts_update f0 w) = historical_ok w" "historical_ok (personas_update f1 w) = historical_ok w"
  "historical_ok (stats_update f2 w) = historical_ok w" "historical_ok (friends_update f3 w) = historical_ok w"
  "historical_ok (login_tokens_update f4 w) = historical_ok w" "historical_ok (historical_account_links_update f5 w) = historical_ok w"
  "historical_ok (faults_update f6 w) = historical_ok w" "historical_ok (random_pos_update f7 w) = historical_ok w"
  by (simp_all add: historical_ok_def)

lemma links_ok_frame [simp]:
  "links_ok (accounts_update f0 w) = links_ok w" "links_ok (stats_update f1 w) = links_ok w"
  "links_ok (friends_update f2 w) = links_ok w" "links_ok (login_tokens_update f3 w) = links_ok w"
  "links_ok (historical_runs_update f4 w) = links_ok w" "links_ok (faults_update f5 w) = links_ok w"
  "links_ok (random_pos_update f6 w) = links_ok w"
  by (simp_all add: links_ok_def)

lemma db_ok_invariant [keeps_intro]: "table_invariant (db_ok A P)"
  using tables_ok_invariant by (simp add: table_invariant_def db_ok_def)

lemma keeps_stmt:
  assumes "table_invariant I" "keeps I run"
  shows "keeps I (stmt run)"
proof (rule keepsI)
  fix w
  assume I: "I w"
  have I': "I (w\<lparr>faults := fs\<rparr>)" for fs using assms(1) I by (simp add: table_invariant_def)
  have "I (snd (run v))" if "I v" for v using assms(2) that by (simp add: keeps_def)
  with I I' show "I (snd (stmt run w))"
    by (auto simp: stmt_def split: list.splits bool.splits)
qed

lemma keeps_query [keeps_intro]: "table_invariant I \<Longrightarrow> keeps I (query f)"
  unfolding query_def by (rule keeps_stmt) (simp_all add: keeps_def)

lemma keeps_exec_sql: "table_invariant I \<Longrightarrow> (\<And>w. I w \<Longrightarrow> I (f w)) \<Longrightarrow> keeps I (exec_sql f)"
  unfolding exec_sql_def by (rule keeps_stmt) (simp_all add: keeps_def)

lemma keeps_draw [keeps_intro]: "table_invariant I \<Longrightarrow> keeps I (draw n)"
  by (simp add: keeps_def draw_def table_invariant_def)

lemma triple_query:
  assumes "table_invariant I"
  shows "triple I (query f) (\<lambda>x w. I w \<and> x = f w) I"
proof (rule tripleI)
  show "I w' \<and> x = f w'" if "I w" "query f w = (Ret x, w')" for w x w'
    using query_returns [OF that(2)] that(2) keepsD [OF keeps_query [OF assms] that] by auto
  show "I w'" if "I w" "query f w = (r, w')" for w r w'
    using keepsD [OF keeps_query [OF assms] that] .
qed

text \<open>A statement may fail, but it does not panic.\<close>

lemma no_panic_stmt [no_panic_intro]: "no_panic m \<Longrightarrow> no_panic (stmt m)"
  by (auto simp: no_panic_def stmt_def split: list.splits bool.splits)

lemma no_panic_sql [no_panic_intro]: "no_panic (query f)" "no_panic (exec_sql g)" "no_panic (draw n)"
  unfolding query_def exec_sql_def by (rule no_panic_stmt; simp add: no_panic_def)+ (simp add: no_panic_def draw_def)

end
