(* ===== verification/Store_Accounts.thy ===== *)
theory Store_Accounts
  imports World
begin

text \<open>
  Accounts and login tokens of \<open>server/storage/storage.go\<close> (lines 211-299): creation with a hashed
  password, validation with the upgrade of plain-text passwords, and the login tokens that are
  stored by their hash.
\<close>

subsection \<open>Operations\<close>

definition GetAccountByNUID :: "string \<Rightarrow> (world, Account option) go" where
  "GetAccountByNUID nuid = query (\<lambda>w. query_row (\<lambda>a. acc_NUID a = nuid) (accounts w))"

definition insert_account :: "string \<Rightarrow> string \<Rightarrow> world \<Rightarrow> world" where
  "insert_account nuid hash w =
     w\<lparr>accounts := insert_or_ignore acc_NUID
        \<lparr>acc_ID = next_rowid (map acc_ID (accounts w)), acc_NUID = nuid, acc_Password = hash\<rparr>
        (accounts w)\<rparr>"

text \<open>\<open>INSERT OR IGNORE\<close> with the number of rows that it affected.\<close>

definition CreateAccount :: "string \<Rightarrow> string \<Rightarrow> (world, Account option) go" where
  "CreateAccount nuid password =
     gbind (draw 16) (\<lambda>salt.
     gbind (stmt (\<lambda>w. let w' = insert_account nuid (hashPassword salt password) w
                      in (Ret (length (accounts w') - length (accounts w)), w'))) (\<lambda>affected.
     if affected = 0 then gfail ErrAccountExists
     else GetAccountByNUID nuid))"

definition update_password :: "int \<Rightarrow> string \<Rightarrow> world \<Rightarrow> world" where
  "update_password aid hash w =
     w\<lparr>accounts := map (\<lambda>a. if acc_ID a = aid then a\<lparr>acc_Password := hash\<rparr> else a) (accounts w)\<rparr>"

definition ValidateAccount :: "string \<Rightarrow> string \<Rightarrow> (world, Account option) go" where
  "ValidateAccount nuid password =
     gbind (GetAccountByNUID nuid) (\<lambda>found. case found of
       None \<Rightarrow> gret None
     | Some account \<Rightarrow>
        if \<not> verifyPassword password (acc_Password account) then gret None
        else if \<not> prefix (passwordScheme @ ''$'') (acc_Password account) then
          gbind (draw 16) (\<lambda>salt.
          gbind (exec_sql (update_password (acc_ID account) (hashPassword salt password))) (\<lambda>_.
          GetAccountByNUID nuid))
        else gret (Some account))"

definition RevokeLoginTokens :: "int \<Rightarrow> (world, unit) go" where
  "RevokeLoginTokens accountID =
     exec_sql (\<lambda>w. w\<lparr>login_tokens := filter (\<lambda>r. tk_account_id r \<noteq> accountID) (login_tokens w)\<rparr>)"

definition insert_token :: "string \<Rightarrow> int \<Rightarrow> (world, unit) go" where
  "insert_token hash accountID = stmt (\<lambda>w.
     if hash \<in> tk_token_hash ` set (login_tokens w) then (Fail ErrDb, w)
     else (Ret (), w\<lparr>login_tokens := login_tokens w @
       [\<lparr>tk_token_hash = hash, tk_account_id = accountID,
         tk_created_at = current_timestamp w, tk_last_used_at = current_timestamp w\<rparr>]\<rparr>))"

definition IssueLoginToken :: "int \<Rightarrow> (world, string) go" where
  "IssueLoginToken accountID =
     gbind (draw loginTokenBytes) (\<lambda>buf.
     let token = generateLoginToken buf in
     gbind (RevokeLoginTokens accountID) (\<lambda>_.
     gbind (insert_token (hashLoginToken token) accountID) (\<lambda>_.
     gret token)))"

definition token_account :: "string \<Rightarrow> world \<Rightarrow> Account option" where
  "token_account token w =
     (case query_row (\<lambda>r. tk_token_hash r = hashLoginToken token) (login_tokens w) of
        None \<Rightarrow> None
      | Some r \<Rightarrow> query_row (\<lambda>a. acc_ID a = tk_account_id r) (accounts w))"

definition touch_token :: "string \<Rightarrow> world \<Rightarrow> world" where
  "touch_token token w =
     w\<lparr>login_tokens := map (\<lambda>r. if tk_token_hash r = hashLoginToken token
                               then r\<lparr>tk_last_used_at := current_timestamp w\<rparr> else r) (login_tokens w)\<rparr>"

definition AccountByLoginToken :: "string \<Rightarrow> (world, Account option) go" where
  "AccountByLoginToken token =
     (if \<not> ValidLoginToken token then gret None
      else gbind (query (token_account token)) (\<lambda>found. case found of
             None \<Rightarrow> gret None
           | Some account \<Rightarrow> gbind (exec_sql (touch_token token)) (\<lambda>_. gret (Some account))))"

subsection \<open>The tables as keyed tables\<close>

interpretation account_by_nuid: first_row_wins acc_NUID "\<lambda>k. query_row (\<lambda>a. acc_NUID a = k)"
  "insert_or_ignore acc_NUID" "\<lambda>t. distinct (map acc_NUID t)"
  by (rule insert_or_ignore_first_row_wins)

lemma accounts_okD:
  assumes "accounts_ok w"
  shows "distinct (map acc_ID (accounts w))" "distinct (map acc_NUID (accounts w))"
    "a \<in> set (accounts w) \<Longrightarrow> 1 \<le> acc_ID a"
  using assms by (auto simp: accounts_ok_def)

lemma tables_ok_accounts: "tables_ok w \<Longrightarrow> accounts_ok w"
  by (simp add: tables_ok_def)

subsection \<open>Every operation keeps the schema's constraints\<close>

lemma account_ids_insert: "account_ids w \<subseteq> account_ids (insert_account nuid hash w)"
  by (auto simp: account_ids_def insert_account_def set_insert_or_ignore)

lemma accounts_ok_insert: "accounts_ok w \<Longrightarrow> accounts_ok (insert_account nuid hash w)"
  using next_rowid_notin [of "map acc_ID (accounts w)"]
  by (auto simp: accounts_ok_def insert_account_def insert_or_ignore_def next_rowid_pos)

text \<open>More accounts and other passwords do not touch the constraints of the other tables.\<close>

lemma tables_ok_accounts_mono:
  assumes "tables_ok w" "accounts_ok (w\<lparr>accounts := t\<rparr>)" "account_ids w \<subseteq> acc_ID ` set t"
  shows "tables_ok (w\<lparr>accounts := t\<rparr>)"
  using assms by (auto simp: tables_ok_defs)

lemma tables_ok_insert_account: "tables_ok w \<Longrightarrow> tables_ok (insert_account nuid hash w)"
  using tables_ok_accounts_mono [of w "accounts (insert_account nuid hash w)"]
    accounts_ok_insert [of w nuid hash] account_ids_insert [of w nuid hash]
  by (simp add: insert_account_def tables_ok_def account_ids_def)

lemma tables_ok_update_password:
  assumes ok: "tables_ok w"
  shows "tables_ok (update_password aid hash w)"
proof -
  let ?f = "\<lambda>a. if acc_ID a = aid then a\<lparr>acc_Password := hash\<rparr> else a"
  have ids: "acc_ID ` set (map ?f (accounts w)) = account_ids w"
    unfolding set_map image_image account_ids_def by (intro image_cong) auto
  have "distinct (map acc_ID (map ?f (accounts w)))" "distinct (map acc_NUID (map ?f (accounts w)))"
    using ok by (auto intro!: distinct_map_row_update simp: tables_ok_def accounts_ok_def simp del: map_map)
  moreover have "\<forall>a \<in> set (map ?f (accounts w)). 1 \<le> acc_ID a"
    using ok by (auto simp: tables_ok_def accounts_ok_def)
  ultimately have "accounts_ok (w\<lparr>accounts := map ?f (accounts w)\<rparr>)"
    unfolding accounts_ok_def by (simp del: map_map set_map)
  with ok ids show ?thesis unfolding update_password_def by (intro tables_ok_accounts_mono) auto
qed

lemma tables_ok_touch_token: "tables_ok w \<Longrightarrow> tables_ok (touch_token token w)"
  by (auto simp: touch_token_def tables_ok_def tokens_ok_def simp del: map_map
      intro!: distinct_map_row_update)

lemma account_ids_update_password [simp]: "account_ids (update_password aid hash w) = account_ids w"
proof -
  have "map acc_ID (accounts (update_password aid hash w)) = map acc_ID (accounts w)"
    by (simp add: update_password_def)
  then show ?thesis unfolding account_ids_def by (metis list.set_map)
qed

lemma account_ids_touch_token [simp]: "account_ids (touch_token token w) = account_ids w"
  by (simp add: touch_token_def)

lemma persona_ids_accounts [simp]:
  "persona_ids (insert_account nuid hash w) = persona_ids w"
  "persona_ids (update_password aid hash w) = persona_ids w"
  "persona_ids (touch_token token w) = persona_ids w"
  by (simp_all add: insert_account_def update_password_def touch_token_def)

lemma keeps_GetAccountByNUID [keeps_intro]: "keeps (db_ok A P) (GetAccountByNUID nuid)"
  unfolding GetAccountByNUID_def by (intro keeps_intro)

lemma keeps_CreateAccount [keeps_intro]: "keeps (db_ok A P) (CreateAccount nuid password)"
  unfolding CreateAccount_def
  by (intro keeps_intro keeps_stmt)
     (use account_ids_insert in \<open>fastforce simp: keeps_def Let_def db_ok_def tables_ok_insert_account\<close>)

lemma keeps_ValidateAccount [keeps_intro]: "keeps (db_ok A P) (ValidateAccount nuid password)"
  unfolding ValidateAccount_def
  by (intro keeps_intro keeps_exec_sql) (simp add: db_ok_def tables_ok_update_password)

lemma keeps_RevokeLoginTokens [keeps_intro]: "keeps (db_ok A P) (RevokeLoginTokens aid)"
  unfolding RevokeLoginTokens_def
  by (intro keeps_intro keeps_exec_sql)
     (auto simp: db_ok_def tables_ok_def tokens_ok_def distinct_map_filter_rows)

text \<open>Issuing a token needs an account: it is the one operation here that writes a foreign key.\<close>

lemma keeps_insert_token: "aid \<in> A \<Longrightarrow> keeps (db_ok A P) (insert_token h aid)"
  unfolding insert_token_def
  by (intro keeps_stmt keeps_intro)
     (auto simp: keeps_def db_ok_def tables_ok_def tokens_ok_def)

lemma keeps_IssueLoginToken: "aid \<in> A \<Longrightarrow> keeps (db_ok A P) (IssueLoginToken aid)"
  unfolding IssueLoginToken_def by (intro keeps_intro keeps_insert_token)

lemma keeps_AccountByLoginToken [keeps_intro]: "keeps (db_ok A P) (AccountByLoginToken token)"
  unfolding AccountByLoginToken_def
  by (intro keeps_intro keeps_exec_sql) (simp add: db_ok_def tables_ok_touch_token)

text \<open>The accounts that these operations return are accounts of the table.\<close>

definition account_seen :: "int set \<Rightarrow> int set \<Rightarrow> Account option \<Rightarrow> world \<Rightarrow> bool" where
  "account_seen A P r = db_ok (A \<union> (case r of None \<Rightarrow> {} | Some a \<Rightarrow> {acc_ID a})) P"

lemma triple_GetAccountByNUID: "triple (db_ok A P) (GetAccountByNUID nuid) (account_seen A P) (db_ok A P)"
  unfolding GetAccountByNUID_def
  by (rule triple_conseq [OF triple_query [OF db_ok_invariant]])
     (auto simp: account_seen_def db_ok_def account_ids_def query_row_def split: option.splits dest: find_SomeD)

lemma account_seen_db: "account_seen A P r w \<Longrightarrow> db_ok A P w"
  by (auto simp: account_seen_def db_ok_def)

lemma account_seen_None [simp]: "account_seen A P None = db_ok A P"
  by (simp add: account_seen_def)

lemma triple_ValidateAccount: "triple (db_ok A P) (ValidateAccount nuid pw) (account_seen A P) (db_ok A P)"
  unfolding ValidateAccount_def
proof (intro triple_gbind [OF triple_GetAccountByNUID] triple_case_option triple_if)
  fix found a
  show "triple (account_seen A P found) (gret None) (account_seen A P) (db_ok A P)" if "found = None" for found
    by (intro triple_gret) (simp add: account_seen_db)
  then show "triple (account_seen A P found) (gret None) (account_seen A P) (db_ok A P)"
    by (intro triple_gret) (simp add: account_seen_db)
  show "triple (account_seen A P found) (gret (Some a)) (account_seen A P) (db_ok A P)" if "found = Some a"
    using that by (intro triple_gret) simp
  have "keeps (db_ok A P) (exec_sql (update_password (acc_ID a) (hashPassword salt pw)))" for salt
    by (intro keeps_exec_sql keeps_intro) (simp add: db_ok_def tables_ok_update_password)
  note upd = this [unfolded keeps_triple]
  show "triple (account_seen A P found)
      (gbind (draw 16) (\<lambda>salt. gbind (exec_sql (update_password (acc_ID a) (hashPassword salt pw)))
        (\<lambda>_. GetAccountByNUID nuid))) (account_seen A P) (db_ok A P)"
    by (rule triple_gbind [OF triple_keeps [OF keeps_draw [OF db_ok_invariant], where I = "db_ok A P"]])
       (erule account_seen_db, assumption, rule triple_gbind [OF upd], rule triple_GetAccountByNUID)
qed

lemma triple_AccountByLoginToken:
  "triple (db_ok A P) (AccountByLoginToken token) (account_seen A P) (db_ok A P)"
proof -
  have found: "triple (db_ok A P) (query (token_account token)) (account_seen A P) (db_ok A P)"
    by (rule triple_conseq [OF triple_query [OF db_ok_invariant]])
       (auto simp: account_seen_def db_ok_def account_ids_def token_account_def query_row_def
          split: option.splits dest: find_SomeD)
  have "keeps (db_ok A' P) (exec_sql (touch_token token))" for A'
    by (intro keeps_exec_sql keeps_intro) (simp add: db_ok_def tables_ok_touch_token)
  note touch = this [unfolded keeps_triple]
  have touch: "triple (account_seen A P r) (exec_sql (touch_token token)) (\<lambda>_. account_seen A P r) (db_ok A P)" for r
    unfolding account_seen_def
    by (rule triple_conseq [OF touch [of "A \<union> (case r of None \<Rightarrow> {} | Some a \<Rightarrow> {acc_ID a})"]])
       (auto simp: db_ok_def)
  show ?thesis unfolding AccountByLoginToken_def
    by (intro triple_if triple_gbind [OF found] triple_case_option triple_gbind [OF touch] triple_gret)
       (auto simp: account_seen_db)
qed

subsection \<open>Two concrete databases\<close>

definition empty_world :: world where
  "empty_world = \<lparr>accounts = [], personas = [], stats = [], friends = [], login_tokens = [],
     historical_players = [], historical_runs = [], historical_account_links = [],
     clock = 1700000000, random = (\<lambda>i. CHR ''r''), random_pos = 0, faults = [],
     row_order = (\<lambda>n. [0..<n]), scan_timestamp = id\<rparr>"

definition one_account :: world where
  "one_account = empty_world\<lparr>accounts := [\<lparr>acc_ID = 1, acc_NUID = ''n@x'', acc_Password = ''pw''\<rparr>]\<rparr>"

lemma empty_world_ok: "tables_ok empty_world"
  by (simp add: empty_world_def tables_ok_defs)

subsection \<open>What the operations return\<close>

definition next_bytes :: "nat \<Rightarrow> world \<Rightarrow> string" where
  "next_bytes n w = map (random w) [random_pos w..<random_pos w + n]"

lemma draw_run [go_run]: "draw n w = (Ret (next_bytes n w), w\<lparr>random_pos := random_pos w + n\<rparr>)"
  by (simp add: draw_def next_bytes_def)

lemma length_next_bytes [simp]: "length (next_bytes n w) = n"
  by (simp add: next_bytes_def)

lemma GetAccountByNUID_present:
  assumes "faults w = []" "accounts_ok w" "a \<in> set (accounts w)"
  shows "GetAccountByNUID (acc_NUID a) w = (Ret (Some a), w)"
  using assms account_by_nuid.look_iff [of "accounts w" "acc_NUID a" a]
  by (simp add: GetAccountByNUID_def go_run accounts_ok_def)

lemma ValidateAccount_hashed:
  assumes "faults w = []" "accounts_ok w" "a \<in> set (accounts w)" "acc_Password a = hashPassword salt pw"
  shows "ValidateAccount (acc_NUID a) p w =
    (Ret (if pbkdf2SHA256 p salt passwordIterations 32 = pbkdf2SHA256 pw salt passwordIterations 32
          then Some a else None), w)"
  using assms(4) GetAccountByNUID_present [OF assms(1-3)]
  by (simp add: ValidateAccount_def go_run verify_hashPassword hashPassword_prefix)

lemma CreateAccount_new:
  fixes w :: world and pw :: string
  assumes "faults w = []" "accounts_ok w" "nuid \<notin> acc_NUID ` set (accounts w)"
  defines "a \<equiv> \<lparr>acc_ID = next_rowid (map acc_ID (accounts w)), acc_NUID = nuid,
                acc_Password = hashPassword (next_bytes 16 w) pw\<rparr>"
  shows "CreateAccount nuid pw w =
    (Ret (Some a), w\<lparr>random_pos := random_pos w + 16, accounts := accounts w @ [a]\<rparr>)"
proof -
  have "query_row (\<lambda>x. acc_NUID x = nuid) (accounts w) = None"
    using assms(3) by (simp add: query_row_key_None)
  then have "query_row (\<lambda>x. acc_NUID x = nuid) (accounts w @ [a]) = Some a"
    by (simp add: query_row_def find_append a_def)
  then show ?thesis using assms(1,3)
    by (simp add: CreateAccount_def go_run insert_account_def insert_or_ignore_def GetAccountByNUID_def
        Let_def a_def)
qed

lemma CreateAccount_taken:
  assumes "faults w = []" "nuid \<in> acc_NUID ` set (accounts w)"
  shows "CreateAccount nuid pw w = (Fail ErrAccountExists, w\<lparr>random_pos := random_pos w + 16\<rparr>)"
  using assms by (simp add: CreateAccount_def go_run insert_account_def insert_or_ignore_def Let_def)

text \<open>
  C24. An account that \<open>CreateAccount\<close> made for a new NUID is validated afterwards by exactly the
  passwords that derive the same key as the one it was created with, the password itself among
  them; every other password is turned down, and validation writes nothing.
\<close>

theorem CreateAccount_ValidateAccount:
  assumes "tables_ok w" "faults w = []" "nuid \<notin> acc_NUID ` set (accounts w)"
  shows "\<exists>a w'. CreateAccount nuid pw w = (Ret (Some a), w') \<and> acc_NUID a = nuid
    \<and> ValidateAccount nuid pw w' = (Ret (Some a), w')
    \<and> (\<forall>p. ValidateAccount nuid p w' =
          (Ret (if pbkdf2SHA256 p (next_bytes 16 w) passwordIterations 32 =
                   pbkdf2SHA256 pw (next_bytes 16 w) passwordIterations 32 then Some a else None), w'))"
proof -
  note made = CreateAccount_new [OF assms(2) tables_ok_accounts [OF assms(1)] assms(3), of pw]
  let ?a = "\<lparr>acc_ID = next_rowid (map acc_ID (accounts w)), acc_NUID = nuid,
             acc_Password = hashPassword (next_bytes 16 w) pw\<rparr>"
  let ?w = "w\<lparr>random_pos := random_pos w + 16, accounts := accounts w @ [?a]\<rparr>"
  have "accounts_ok (insert_account nuid (hashPassword (next_bytes 16 w) pw) w)"
    using assms(1) by (intro accounts_ok_insert tables_ok_accounts)
  with assms(3) have "accounts_ok ?w"
    by (simp add: accounts_ok_def insert_account_def insert_or_ignore_def)
  from ValidateAccount_hashed [OF _ this, of ?a "next_bytes 16 w" pw] assms(2)
  have "ValidateAccount nuid p ?w =
      (Ret (if pbkdf2SHA256 p (next_bytes 16 w) passwordIterations 32 =
               pbkdf2SHA256 pw (next_bytes 16 w) passwordIterations 32 then Some ?a else None), ?w)" for p
    by simp
  with made show ?thesis by auto
qed

theorem CreateAccount_ValidateAccount_witness:
  "\<exists>a w'. CreateAccount ''n@x'' ''pw'' empty_world = (Ret (Some a), w') \<and> acc_NUID a = ''n@x''
     \<and> ValidateAccount ''n@x'' ''pw'' w' = (Ret (Some a), w')"
  using CreateAccount_ValidateAccount [of empty_world "''n@x''" "''pw''"] empty_world_ok
  by (auto simp: empty_world_def)

definition next_token :: "world \<Rightarrow> string" where
  "next_token w = generateLoginToken (next_bytes loginTokenBytes w)"

definition token_owner :: "string \<Rightarrow> world \<Rightarrow> int option" where
  "token_owner hash w = map_option tk_account_id (query_row (\<lambda>r. tk_token_hash r = hash) (login_tokens w))"

lemma token_owner_iff:
  "tokens_ok w \<Longrightarrow> token_owner h w = Some aid \<longleftrightarrow>
     (\<exists>r \<in> set (login_tokens w). tk_token_hash r = h \<and> tk_account_id r = aid)"
  by (auto simp: token_owner_def tokens_ok_def query_row_key_iff)

definition issued :: "int \<Rightarrow> world \<Rightarrow> world" where
  "issued aid w =
     w\<lparr>random_pos := random_pos w + loginTokenBytes,
       login_tokens := filter (\<lambda>r. tk_account_id r \<noteq> aid) (login_tokens w) @
         [\<lparr>tk_token_hash = hashLoginToken (next_token w), tk_account_id = aid,
           tk_created_at = current_timestamp w, tk_last_used_at = current_timestamp w\<rparr>]\<rparr>"

lemma IssueLoginToken_run:
  assumes "faults w = []"
    "\<forall>r \<in> set (login_tokens w). tk_token_hash r = hashLoginToken (next_token w) \<longrightarrow> tk_account_id r = aid"
  shows "IssueLoginToken aid w = (Ret (next_token w), issued aid w)"
proof -
  have "hashLoginToken (generateLoginToken (next_bytes loginTokenBytes w))
      \<notin> tk_token_hash ` set (filter (\<lambda>r. tk_account_id r \<noteq> aid) (login_tokens w))"
    using assms(2) by (auto simp: next_token_def)
  with assms(1) show ?thesis
    by (simp add: IssueLoginToken_def RevokeLoginTokens_def insert_token_def go_run Let_def
        next_token_def issued_def current_timestamp_def del: set_filter)
qed

lemma AccountByLoginToken_run:
  assumes "faults w = []" "tables_ok w" "ValidLoginToken t" "token_owner (hashLoginToken t) w = Some (acc_ID a)"
    "a \<in> set (accounts w)"
  shows "AccountByLoginToken t w = (Ret (Some a), touch_token t w)"
proof -
  from assms(2,5) have "query_row (\<lambda>x. acc_ID x = acc_ID a) (accounts w) = Some a"
    by (simp add: query_row_key_iff tables_ok_def accounts_ok_def)
  with assms(4) have "token_account t w = Some a"
    by (auto simp: token_account_def token_owner_def)
  with assms(1,3) show ?thesis by (simp add: AccountByLoginToken_def go_run)
qed

lemma tables_ok_issued:
  assumes "tables_ok w" "aid \<in> account_ids w"
    "\<forall>r \<in> set (login_tokens w). tk_token_hash r = hashLoginToken (next_token w) \<longrightarrow> tk_account_id r = aid"
  shows "tables_ok (issued aid w)"
  using assms by (auto simp: issued_def tables_ok_defs distinct_map_filter_rows)

text \<open>
  C25. A token that \<open>IssueLoginToken\<close> returns logs in to its account, it is the only token of that
  account from then on (the previous ones are revoked), and no token of another account is
  touched. The hypothesis on the hash only says that the fresh token does not collide with a
  token of somebody else.
\<close>

theorem IssueLoginToken_logs_in:
  assumes "tables_ok w" "faults w = []" "a \<in> set (accounts w)"
    "\<forall>r \<in> set (login_tokens w).
       tk_token_hash r = hashLoginToken (next_token w) \<longrightarrow> tk_account_id r = acc_ID a"
  shows "\<exists>w'. IssueLoginToken (acc_ID a) w = (Ret (next_token w), w')
    \<and> fst (AccountByLoginToken (next_token w) w') = Ret (Some a)
    \<and> (\<forall>h. token_owner h w' =
          (if h = hashLoginToken (next_token w) then Some (acc_ID a)
           else if token_owner h w = Some (acc_ID a) then None
           else token_owner h w))"
proof -
  let ?w = "issued (acc_ID a) w"
  have ok: "tables_ok ?w" using assms by (intro tables_ok_issued) (auto simp: account_ids_def)
  then have tok: "tokens_ok ?w" "tokens_ok w" using assms(1) by (auto simp: tables_ok_def)
  have owner: "token_owner h ?w = Some i \<longleftrightarrow>
      (if h = hashLoginToken (next_token w) then i = acc_ID a
       else i \<noteq> acc_ID a \<and> token_owner h w = Some i)" for h i
    unfolding token_owner_iff [OF tok(1)] token_owner_iff [OF tok(2)]
    using assms(4) by (auto simp: issued_def)
  have "token_owner h ?w =
      (if h = hashLoginToken (next_token w) then Some (acc_ID a)
       else if token_owner h w = Some (acc_ID a) then None else token_owner h w)" for h
    by (rule option_eq_by_Some) (auto simp: owner)
  moreover have "ValidLoginToken (next_token w)"
    by (simp add: next_token_def generated_token_valid)
  with ok owner assms have "AccountByLoginToken (next_token w) ?w = (Ret (Some a), touch_token (next_token w) ?w)"
    by (intro AccountByLoginToken_run) (auto simp: issued_def)
  ultimately show ?thesis using IssueLoginToken_run [OF assms(2,4)] by auto
qed

theorem IssueLoginToken_logs_in_witness:
  "\<exists>w'. IssueLoginToken 1 one_account = (Ret (next_token one_account), w')
     \<and> fst (AccountByLoginToken (next_token one_account) w') = Ret (Some \<lparr>acc_ID = 1, acc_NUID = ''n@x'', acc_Password = ''pw''\<rparr>)"
  using IssueLoginToken_logs_in [of one_account "\<lparr>acc_ID = 1, acc_NUID = ''n@x'', acc_Password = ''pw''\<rparr>"]
  by (auto simp: one_account_def empty_world_def tables_ok_defs)

text \<open>
  An account with a plain-text password (one that does not have the four parts of a hash) is
  upgraded by the first correct login: the login succeeds, the stored password is a hash from
  then on, and the same password keeps working; a wrong password changes nothing.
\<close>

theorem ValidateAccount_upgrades:
  assumes "tables_ok w" "faults w = []" "a \<in> set (accounts w)"
    "length (split_char (CHR ''$'') (acc_Password a)) \<noteq> 4" "\<not> prefix (passwordScheme @ ''$'') (acc_Password a)"
  shows "if p = acc_Password a
    then \<exists>b w'. ValidateAccount (acc_NUID a) p w = (Ret (Some b), w') \<and> acc_ID b = acc_ID a
          \<and> acc_Password b = hashPassword (next_bytes 16 w) p \<and> tables_ok w'
          \<and> ValidateAccount (acc_NUID a) p w' = (Ret (Some b), w')
    else ValidateAccount (acc_NUID a) p w = (Ret None, w)"
proof -
  note found = GetAccountByNUID_present [OF assms(2) tables_ok_accounts [OF assms(1)] assms(3)]
  have verify: "verifyPassword p (acc_Password a) \<longleftrightarrow> p = acc_Password a"
    using assms(4) by (auto simp: verifyPassword_def split: list.splits)
  let ?h = "hashPassword (next_bytes 16 w) p"
  let ?w = "update_password (acc_ID a) ?h (w\<lparr>random_pos := random_pos w + 16\<rparr>)"
  let ?b = "a\<lparr>acc_Password := ?h\<rparr>"
  have "tables_ok (w\<lparr>random_pos := random_pos w + 16\<rparr>)"
    using assms(1) tables_ok_invariant by (simp add: table_invariant_def)
  then have ok: "tables_ok ?w" by (rule tables_ok_update_password)
  have b: "?b \<in> set (accounts ?w)" "faults ?w = []" "acc_NUID ?b = acc_NUID a"
    using assms(2,3) by (auto simp: update_password_def image_iff intro!: bexI [of _ a])
  note again = GetAccountByNUID_present [OF b(2) tables_ok_accounts [OF ok] b(1)]
  have "ValidateAccount (acc_NUID a) p w = (Ret (Some ?b), ?w)" if "p = acc_Password a"
    using that verify found again assms(2,5) b(3)
    by (simp add: ValidateAccount_def go_run)
  moreover have "ValidateAccount (acc_NUID a) p ?w = (Ret (Some ?b), ?w)"
    using ValidateAccount_hashed [OF b(2) tables_ok_accounts [OF ok] b(1), of "next_bytes 16 w" p p] b(3)
    by simp
  moreover have "ValidateAccount (acc_NUID a) p w = (Ret None, w)" if "p \<noteq> acc_Password a"
    using that verify found by (simp add: ValidateAccount_def go_run)
  ultimately show ?thesis using ok by (cases "p = acc_Password a") (auto intro!: exI [of _ ?b] exI [of _ ?w])
qed

theorem ValidateAccount_upgrades_witness:
  "\<exists>b w'. ValidateAccount ''n@x'' ''pw'' one_account = (Ret (Some b), w')
     \<and> acc_Password b = hashPassword (next_bytes 16 one_account) ''pw''
     \<and> ValidateAccount ''n@x'' ''pw'' w' = (Ret (Some b), w')"
  using ValidateAccount_upgrades [of one_account "\<lparr>acc_ID = 1, acc_NUID = ''n@x'', acc_Password = ''pw''\<rparr>" "''pw''"]
  by (auto simp: one_account_def empty_world_def tables_ok_defs passwordScheme_def)

end
