(* ===== verification/Store_Personas.thy ===== *)
theory Store_Personas
  imports Store_Accounts
begin

text \<open>
  Personas and friend lists of \<open>server/storage/storage.go\<close> (lines 327-427 and 945-984): a persona
  name belongs to one account for good, a friend list is a set of persona ids per owner and type,
  read back in the order of the names.
\<close>

subsection \<open>Operations\<close>

text \<open>The driver converts the timestamp column while scanning a row into the record.\<close>

definition scan_persona :: "world \<Rightarrow> Persona \<Rightarrow> Persona" where
  "scan_persona w p = p\<lparr>per_CreatedAt := scan_timestamp w (per_CreatedAt p)\<rparr>"

definition Personas :: "int \<Rightarrow> (world, Persona list) go" where
  "Personas accountID = query (\<lambda>w.
     map (scan_persona w) (sort_key per_ID (filter (\<lambda>p. per_AccountID p = accountID) (personas w))))"

definition LookupPersonaByName :: "string \<Rightarrow> (world, Persona option) go" where
  "LookupPersonaByName name = query (\<lambda>w.
     map_option (scan_persona w) (query_row (\<lambda>p. per_Name p = name) (personas w)))"

definition insert_persona :: "int \<Rightarrow> string \<Rightarrow> world \<Rightarrow> world" where
  "insert_persona accountID name w =
     w\<lparr>personas := insert_or_ignore per_Name
        \<lparr>per_ID = next_rowid (map per_ID (personas w)), per_AccountID = accountID,
         per_Name = name, per_CreatedAt = current_timestamp w\<rparr> (personas w)\<rparr>"

definition GetOrCreatePersona :: "int \<Rightarrow> string \<Rightarrow> (world, Persona) go" where
  "GetOrCreatePersona accountID name =
     gbind (LookupPersonaByName name) (\<lambda>found. case found of
       Some existing \<Rightarrow>
         if per_AccountID existing \<noteq> accountID then gfail ErrPersonaNameTaken else gret existing
     | None \<Rightarrow>
         gbind (exec_sql (insert_persona accountID name)) (\<lambda>_.
         gbind (LookupPersonaByName name) (\<lambda>again. case again of
             None \<Rightarrow> gfail ErrNoRows
           | Some persona \<Rightarrow>
               if per_AccountID persona \<noteq> accountID then gfail ErrPersonaNameTaken
               else gret persona)))"

definition PersonaByID :: "int \<Rightarrow> (world, Persona option) go" where
  "PersonaByID personaID = query (\<lambda>w.
     map_option (scan_persona w) (query_row (\<lambda>p. per_ID p = personaID) (personas w)))"

definition PersonaExists :: "int \<Rightarrow> (world, bool) go" where
  "PersonaExists personaID = query (\<lambda>w. query_row (\<lambda>p. per_ID p = personaID) (personas w) \<noteq> None)"

text \<open>\<open>SELECT ... FROM friends JOIN personas ... ORDER BY name\<close>.\<close>

definition GetAssociations :: "int \<Rightarrow> string \<Rightarrow> (world, Association list) go" where
  "GetAssociations personaID assocType = query (\<lambda>w.
     sort_key as_Name (concat (map (\<lambda>f.
       if fr_persona_id f = personaID \<and> fr_type f = assocType then
         (case query_row (\<lambda>p. per_ID p = fr_friend_persona_id f) (personas w) of
            None \<Rightarrow> []
          | Some p \<Rightarrow> [\<lparr>as_ID = fr_friend_persona_id f, as_Name = per_Name p\<rparr>])
       else []) (friends w))))"

definition AddAssociation :: "int \<Rightarrow> int \<Rightarrow> string \<Rightarrow> (world, bool) go" where
  "AddAssociation personaID friendPersonaID assocType = stmt (\<lambda>w.
     let rows = insert_or_ignore friend_key
           \<lparr>fr_persona_id = personaID, fr_friend_persona_id = friendPersonaID, fr_type = assocType\<rparr>
           (friends w)
     in (Ret (length (friends w) < length rows), w\<lparr>friends := rows\<rparr>))"

definition DeleteAssociation :: "int \<Rightarrow> int \<Rightarrow> string \<Rightarrow> (world, unit) go" where
  "DeleteAssociation personaID friendPersonaID assocType = exec_sql (\<lambda>w.
     w\<lparr>friends := filter (\<lambda>f. friend_key f \<noteq> (personaID, friendPersonaID, assocType)) (friends w)\<rparr>)"

subsection \<open>The tables as keyed tables\<close>

interpretation persona_by_name: first_row_wins per_Name "\<lambda>k. query_row (\<lambda>p. per_Name p = k)"
  "insert_or_ignore per_Name" "\<lambda>t. distinct (map per_Name t)"
  by (rule insert_or_ignore_first_row_wins)

interpretation friend_rows: first_row_wins friend_key "\<lambda>k. query_row (\<lambda>f. friend_key f = k)"
  "insert_or_ignore friend_key" "\<lambda>t. distinct (map friend_key t)"
  by (rule insert_or_ignore_first_row_wins)

lemma scan_persona_fields [simp]:
  "per_ID (scan_persona w p) = per_ID p" "per_AccountID (scan_persona w p) = per_AccountID p"
  "per_Name (scan_persona w p) = per_Name p"
  by (simp_all add: scan_persona_def)

lemma personas_okD:
  assumes "personas_ok w"
  shows "distinct (map per_ID (personas w))" "distinct (map per_Name (personas w))"
  using assms by (auto simp: personas_ok_def)

subsection \<open>Every operation keeps the schema's constraints\<close>

lemma persona_ids_insert: "persona_ids w \<subseteq> persona_ids (insert_persona aid name w)"
  by (auto simp: persona_ids_def insert_persona_def set_insert_or_ignore)

lemma account_ids_insert_persona [simp]: "account_ids (insert_persona aid name w) = account_ids w"
  by (simp add: insert_persona_def)

lemma tables_ok_insert_persona:
  assumes "tables_ok w" "aid \<in> account_ids w"
  shows "tables_ok (insert_persona aid name w)"
proof -
  have "personas_ok (insert_persona aid name w)"
    using assms next_rowid_notin [of "map per_ID (personas w)"]
    by (auto simp: tables_ok_def personas_ok_def insert_persona_def insert_or_ignore_def next_rowid_pos)
  moreover have "stats_ok (insert_persona aid name w) \<and> friends_ok (insert_persona aid name w)
      \<and> links_ok (insert_persona aid name w)"
    using assms(1) persona_ids_insert [of w aid name]
    by (auto simp: tables_ok_def stats_ok_def friends_ok_def links_ok_def insert_persona_def)
  ultimately show ?thesis using assms(1) by (simp add: tables_ok_def insert_persona_def)
qed

lemma keeps_Personas [keeps_intro]: "keeps (db_ok A P) (Personas aid)"
  unfolding Personas_def by (intro keeps_intro)

lemma keeps_LookupPersonaByName [keeps_intro]: "keeps (db_ok A P) (LookupPersonaByName name)"
  unfolding LookupPersonaByName_def by (intro keeps_intro)

lemma keeps_PersonaByID [keeps_intro]: "keeps (db_ok A P) (PersonaByID pid)"
  unfolding PersonaByID_def by (intro keeps_intro)

lemma keeps_PersonaExists [keeps_intro]: "keeps (db_ok A P) (PersonaExists pid)"
  unfolding PersonaExists_def by (intro keeps_intro)

lemma keeps_GetAssociations [keeps_intro]: "keeps (db_ok A P) (GetAssociations pid t)"
  unfolding GetAssociations_def by (intro keeps_intro)

lemma keeps_insert_persona: "aid \<in> A \<Longrightarrow> keeps (db_ok A P) (exec_sql (insert_persona aid name))"
  using persona_ids_insert
  by (intro keeps_exec_sql keeps_intro) (fastforce simp: db_ok_def tables_ok_insert_persona)

lemma keeps_GetOrCreatePersona: "aid \<in> A \<Longrightarrow> keeps (db_ok A P) (GetOrCreatePersona aid name)"
  unfolding GetOrCreatePersona_def by (intro keeps_intro keeps_insert_persona)

lemma keeps_AddAssociation:
  "pid \<in> P \<Longrightarrow> fid \<in> P \<Longrightarrow> keeps (db_ok A P) (AddAssociation pid fid t)"
  unfolding AddAssociation_def
  by (intro keeps_stmt keeps_intro)
     (auto simp: keeps_def db_ok_def tables_ok_def friends_ok_def set_insert_or_ignore
        distinct_insert_or_ignore Let_def)

lemma keeps_DeleteAssociation [keeps_intro]: "keeps (db_ok A P) (DeleteAssociation pid fid t)"
  unfolding DeleteAssociation_def
  by (intro keeps_exec_sql keeps_intro)
     (auto simp: db_ok_def tables_ok_def friends_ok_def distinct_map_filter_rows)

text \<open>What a lookup finds is a persona of the table.\<close>

lemma triple_PersonaExists:
  "triple (db_ok A P) (PersonaExists pid) (\<lambda>b. db_ok A (P \<union> (if b then {pid} else {}))) (db_ok A P)"
  unfolding PersonaExists_def
  by (rule triple_conseq [OF triple_query [OF db_ok_invariant]])
     (auto simp: db_ok_def persona_ids_def query_row_def dest: find_SomeD)

definition persona_seen :: "int set \<Rightarrow> int set \<Rightarrow> Persona option \<Rightarrow> world \<Rightarrow> bool" where
  "persona_seen A P r = db_ok A (P \<union> (case r of None \<Rightarrow> {} | Some p \<Rightarrow> {per_ID p}))"

lemma triple_LookupPersonaByName:
  "triple (db_ok A P) (LookupPersonaByName name) (persona_seen A P) (db_ok A P)"
  unfolding LookupPersonaByName_def persona_seen_def
  by (rule triple_conseq [OF triple_query [OF db_ok_invariant]])
     (auto simp: db_ok_def persona_ids_def query_row_def split: option.splits dest: find_SomeD)

lemma persona_seen_db: "persona_seen A P r w \<Longrightarrow> db_ok A P w"
  by (auto simp: persona_seen_def db_ok_def)

lemma triple_GetOrCreatePersona:
  assumes "aid \<in> A"
  shows "triple (db_ok A P) (GetOrCreatePersona aid name) (\<lambda>p. db_ok A (P \<union> {per_ID p})) (db_ok A P)"
proof -
  have ret: "triple (persona_seen A P r) (if b then gfail ErrPersonaNameTaken else gret p)
      (\<lambda>p. db_ok A (P \<union> {per_ID p})) (db_ok A P)" if "r = Some p" for r p b
    using that by (intro triple_if triple_gfail triple_gret) (auto simp: persona_seen_db, simp add: persona_seen_def)
  have ins: "triple (persona_seen A P r) (exec_sql (insert_persona aid name)) (\<lambda>_. db_ok A P) (db_ok A P)" for r
    by (rule triple_keeps [OF keeps_insert_persona [OF assms]]) (auto dest: persona_seen_db)
  show ?thesis unfolding GetOrCreatePersona_def
    by (intro triple_gbind [OF triple_LookupPersonaByName] triple_case_option ret triple_gbind [OF ins]
          triple_gfail) (auto dest: persona_seen_db)
qed

subsection \<open>A persona name belongs to one account\<close>

lemma LookupPersonaByName_run:
  "faults w = [] \<Longrightarrow> LookupPersonaByName name w =
     (Ret (map_option (scan_persona w) (query_row (\<lambda>p. per_Name p = name) (personas w))), w)"
  by (simp add: LookupPersonaByName_def go_run)

lemma scan_persona_update [simp]: "scan_persona (personas_update f w) = scan_persona w"
  by (simp add: scan_persona_def fun_eq_iff)

lemma GetOrCreatePersona_taken:
  assumes "faults w = []" "personas_ok w" "p \<in> set (personas w)"
  shows "GetOrCreatePersona aid (per_Name p) w =
    (if per_AccountID p = aid then Ret (scan_persona w p) else Fail ErrPersonaNameTaken, w)"
proof -
  have "query_row (\<lambda>x. per_Name x = per_Name p) (personas w) = Some p"
    using assms persona_by_name.look_iff [of "personas w"] by (simp add: personas_ok_def)
  with assms(1) show ?thesis by (simp add: GetOrCreatePersona_def go_run LookupPersonaByName_run)
qed

lemma GetOrCreatePersona_new:
  fixes w :: world and aid :: int
  assumes "faults w = []" "name \<notin> per_Name ` set (personas w)"
  defines "p \<equiv> \<lparr>per_ID = next_rowid (map per_ID (personas w)), per_AccountID = aid, per_Name = name,
                per_CreatedAt = current_timestamp w\<rparr>"
  shows "GetOrCreatePersona aid name w = (Ret (scan_persona w p), w\<lparr>personas := personas w @ [p]\<rparr>)"
proof -
  have none: "query_row (\<lambda>x. per_Name x = name) (personas w) = None"
    using assms(2) by (simp add: query_row_key_None)
  then have "query_row (\<lambda>x. per_Name x = name) (personas w @ [p]) = Some p"
    by (simp add: query_row_def find_append p_def)
  with none assms(1,2) show ?thesis
    by (simp add: GetOrCreatePersona_def go_run LookupPersonaByName_run insert_persona_def
        insert_or_ignore_def p_def)
qed

text \<open>
  C26. A persona name is held by the first account that asks for it. Asking for a free name creates
  the persona under a fresh id; asking again with the same account returns the same persona and
  changes nothing; asking with another account is refused with \<open>ErrPersonaNameTaken\<close> and changes
  nothing. No persona that existed before is altered.
\<close>

theorem GetOrCreatePersona_ownership:
  assumes "tables_ok w" "faults w = []" "aid \<in> account_ids w"
  shows "case query_row (\<lambda>p. per_Name p = name) (personas w) of
      Some p \<Rightarrow> GetOrCreatePersona aid name w =
        (if per_AccountID p = aid then Ret (scan_persona w p) else Fail ErrPersonaNameTaken, w)
    | None \<Rightarrow> \<exists>p w'. GetOrCreatePersona aid name w = (Ret p, w') \<and> tables_ok w'
        \<and> per_ID p \<notin> persona_ids w \<and> per_AccountID p = aid \<and> per_Name p = name
        \<and> set (personas w) \<subseteq> set (personas w')
        \<and> (\<forall>b. GetOrCreatePersona b name w' = (if b = aid then Ret p else Fail ErrPersonaNameTaken, w'))"
proof (cases "query_row (\<lambda>p. per_Name p = name) (personas w)")
  case (Some p)
  then have "p \<in> set (personas w)" "per_Name p = name" by (auto simp: query_row_def dest: find_SomeD)
  with Some assms show ?thesis
    using GetOrCreatePersona_taken [of w p aid] by (simp add: tables_ok_def)
next
  case None
  then have free: "name \<notin> per_Name ` set (personas w)" by (simp add: query_row_key_None)
  let ?p = "\<lparr>per_ID = next_rowid (map per_ID (personas w)), per_AccountID = aid, per_Name = name,
             per_CreatedAt = current_timestamp w\<rparr>"
  let ?w = "w\<lparr>personas := personas w @ [?p]\<rparr>"
  have w': "insert_persona aid name w = ?w" using free by (simp add: insert_persona_def insert_or_ignore_def)
  have ok: "tables_ok ?w" using tables_ok_insert_persona [OF assms(1,3), of name] by (simp add: w')
  have "GetOrCreatePersona b name ?w =
      (if b = aid then Ret (scan_persona w ?p) else Fail ErrPersonaNameTaken, ?w)" for b
    using GetOrCreatePersona_taken [of ?w ?p b] ok assms(2) by (auto simp: tables_ok_def)
  moreover have "per_ID ?p \<notin> persona_ids w"
    using next_rowid_notin [of "map per_ID (personas w)"] by (simp add: persona_ids_def)
  ultimately show ?thesis
    using GetOrCreatePersona_new [OF assms(2) free, of aid] ok None
    by (auto intro!: exI [of _ "scan_persona w ?p"] exI [of _ ?w])
qed

definition two_personas :: world where
  "two_personas = one_account\<lparr>
     accounts := [\<lparr>acc_ID = 1, acc_NUID = ''n@x'', acc_Password = ''pw''\<rparr>,
                  \<lparr>acc_ID = 2, acc_NUID = ''m@x'', acc_Password = ''pw''\<rparr>],
     personas := [\<lparr>per_ID = 1, per_AccountID = 1, per_Name = ''Faith'', per_CreatedAt = ''t''\<rparr>,
                  \<lparr>per_ID = 2, per_AccountID = 2, per_Name = ''Celeste'', per_CreatedAt = ''t''\<rparr>]\<rparr>"

lemma two_personas_ok: "tables_ok two_personas" "faults two_personas = []"
  by (simp_all add: two_personas_def one_account_def empty_world_def tables_ok_defs)

theorem GetOrCreatePersona_ownership_witness:
  "GetOrCreatePersona 2 ''Faith'' two_personas = (Fail ErrPersonaNameTaken, two_personas)"
  using GetOrCreatePersona_ownership [OF two_personas_ok, of 2 "''Faith''"]
  by (simp add: two_personas_def account_ids_def query_row_def)

subsection \<open>Friend lists as sets\<close>

text \<open>The abstract state of the friend lists: who has whom, under which type.\<close>

definition friend_set :: "world \<Rightarrow> (int \<times> int \<times> string) set" where
  "friend_set w = friend_key ` set (friends w)"

definition persona_name :: "world \<Rightarrow> int \<Rightarrow> string" where
  "persona_name w pid = (case query_row (\<lambda>p. per_ID p = pid) (personas w) of Some p \<Rightarrow> per_Name p | None \<Rightarrow> [])"

lemma persona_name_inj:
  assumes "personas_ok w" "x \<in> persona_ids w" "y \<in> persona_ids w" "persona_name w x = persona_name w y"
  shows "x = y"
proof -
  obtain p q where p: "p \<in> set (personas w)" "per_ID p = x" and q: "q \<in> set (personas w)" "per_ID q = y"
    using assms(2,3) by (auto simp: persona_ids_def)
  then have "query_row (\<lambda>r. per_ID r = x) (personas w) = Some p"
    "query_row (\<lambda>r. per_ID r = y) (personas w) = Some q"
    using personas_okD(1) [OF assms(1)] by (auto simp: query_row_key_iff)
  with assms(4) have "per_Name p = per_Name q" by (simp add: persona_name_def)
  with p q personas_okD(2) [OF assms(1)] show ?thesis by (auto simp: distinct_map inj_on_def)
qed

text \<open>With every friend a persona, the join only attaches the name.\<close>

lemma concat_map_if_single: "concat (map (\<lambda>x. if P x then [f x] else []) xs) = map f (filter P xs)"
  by (induction xs) auto

lemma associations_rows:
  assumes "tables_ok w"
  shows "concat (map (\<lambda>f.
       if fr_persona_id f = pid \<and> fr_type f = t then
         (case query_row (\<lambda>p. per_ID p = fr_friend_persona_id f) (personas w) of
            None \<Rightarrow> []
          | Some p \<Rightarrow> [\<lparr>as_ID = fr_friend_persona_id f, as_Name = per_Name p\<rparr>])
       else []) (friends w)) =
    map (\<lambda>f. \<lparr>as_ID = fr_friend_persona_id f, as_Name = persona_name w (fr_friend_persona_id f)\<rparr>)
      (filter (\<lambda>f. fr_persona_id f = pid \<and> fr_type f = t) (friends w))"
proof -
  have "(case query_row (\<lambda>p. per_ID p = fr_friend_persona_id f) (personas w) of
            None \<Rightarrow> [] | Some p \<Rightarrow> [\<lparr>as_ID = fr_friend_persona_id f, as_Name = per_Name p\<rparr>]) =
      [\<lparr>as_ID = fr_friend_persona_id f, as_Name = persona_name w (fr_friend_persona_id f)\<rparr>]"
    if "f \<in> set (friends w)" for f
  proof -
    have "fr_friend_persona_id f \<in> persona_ids w"
      using assms that by (auto simp: tables_ok_def friends_ok_def)
    then have "query_row (\<lambda>p. per_ID p = fr_friend_persona_id f) (personas w) \<noteq> None"
      by (simp add: query_row_key_None persona_ids_def)
    then show ?thesis by (auto simp: persona_name_def)
  qed
  then show ?thesis unfolding concat_map_if_single [symmetric]
    by (intro arg_cong [where f = concat] map_cong) auto
qed



end
