(* ===== verification/Store_Stats.thy ===== *)
theory Store_Stats
  imports Store_Personas
begin

text \<open>
  Stats, historical runs and leaderboards of \<open>server/storage/storage.go\<close> (lines 504-943 and
  967-1003). A stat row belongs to a persona; a historical run belongs to an imported player,
  which may be linked to a persona. Every join here is on a primary or unique key, so it finds at
  most one row.
\<close>

subsection \<open>Joins and row conditions\<close>

definition is_time_key :: "string \<Rightarrow> bool" where
  "is_time_key key \<longleftrightarrow> suffix ''_20'' key"

definition IsHistoricalOwner :: "int \<Rightarrow> bool" where
  "IsHistoricalOwner ownerID \<longleftrightarrow> HistoricalOwnerOffset \<le> ownerID"

definition in_period :: "world \<Rightarrow> int \<Rightarrow> string \<Rightarrow> bool" where
  "in_period w periodID = periodDateClauseFor periodID (clock w)"

definition run_player :: "world \<Rightarrow> run_row \<Rightarrow> player_row option" where
  "run_player w r = query_row (\<lambda>hp. hp_id hp = hr_player_id r) (historical_players w)"

definition player_link :: "world \<Rightarrow> player_row \<Rightarrow> link_row option" where
  "player_link w hp = query_row (\<lambda>l. ln_source_key l = hp_source_key hp) (historical_account_links w)"

definition persona_row :: "world \<Rightarrow> int \<Rightarrow> Persona option" where
  "persona_row w pid = query_row (\<lambda>p. per_ID p = pid) (personas w)"

text \<open>The rows that a leaderboard over a key and a period draws on.\<close>

definition live_row :: "world \<Rightarrow> string \<Rightarrow> int \<Rightarrow> stat_row \<Rightarrow> bool" where
  "live_row w key periodID s \<longleftrightarrow> st_key s = key \<and> st_period_id s = periodID \<and> positive (st_value s)
     \<and> in_period w periodID (st_updated_at s)"

definition run_selected :: "world \<Rightarrow> string \<Rightarrow> int \<Rightarrow> run_row \<Rightarrow> bool" where
  "run_selected w key periodID r \<longleftrightarrow> hr_key r = key \<and> hr_period_id r = periodID \<and> positive (hr_value r)
     \<and> in_period w periodID (hr_updated_at r)"

subsection \<open>Which persona holds the best time\<close>

definition bestPersonaIDForKey :: "int \<Rightarrow> string \<Rightarrow> int \<Rightarrow> (world, int) go" where
  "bestPersonaIDForKey personaID key periodID =
     (if personaID = 0 \<or> \<not> is_time_key key then gret personaID
      else gbind (PersonaByID personaID) (\<lambda>found. case found of
        None \<Rightarrow> gret personaID
      | Some persona \<Rightarrow> query (\<lambda>w.
          case sort_key snd (permute (row_order w) (concat (map (\<lambda>s.
            if live_row w key periodID s then
              (case persona_row w (st_persona_id s) of
                 Some p \<Rightarrow> if per_Name p = per_Name persona then [(per_ID p, st_value s)] else []
               | None \<Rightarrow> [])
            else []) (stats w)))) of
            [] \<Rightarrow> personaID
          | (pid, v) # _ \<Rightarrow> pid)))"

definition bestPersonaIDForKeys :: "int \<Rightarrow> string list \<Rightarrow> int \<Rightarrow> (world, int) go" where
  "bestPersonaIDForKeys personaID keys periodID =
     (case find is_time_key keys of
        Some key \<Rightarrow> bestPersonaIDForKey personaID key periodID
      | None \<Rightarrow> gret personaID)"

subsection \<open>Stats of one owner\<close>

type_synonym stat_map = "string \<rightharpoonup> float64"

text \<open>The loop that puts the scanned rows into a map.\<close>

definition scan_rows :: "(string \<times> float64) list \<Rightarrow> stat_map" where
  "scan_rows rows = foldl (\<lambda>m (k, v). m(k \<mapsto> v)) Map.empty rows"

fun sql_min :: "float64 list \<Rightarrow> float64 option" where
  "sql_min [] = None"
| "sql_min (x # xs) = Some (foldl min x xs)"

definition linked_values :: "world \<Rightarrow> int \<Rightarrow> string \<Rightarrow> int \<Rightarrow> float64 list" where
  "linked_values w personaID key periodID = map hr_value (filter (\<lambda>r. run_selected w key periodID r \<and>
     (case run_player w r of None \<Rightarrow> False
      | Some hp \<Rightarrow> (case player_link w hp of None \<Rightarrow> False | Some l \<Rightarrow> ln_persona_id l = personaID)))
     (historical_runs w))"

definition linkedHistoricalStats :: "int \<Rightarrow> string list \<Rightarrow> int \<Rightarrow> (world, stat_map) go" where
  "linkedHistoricalStats personaID keys periodID =
     (if personaID = 0 \<or> keys = [] then gret Map.empty
      else let timeKeys = filter is_time_key keys in
      if timeKeys = [] then gret Map.empty
      else query (\<lambda>w key. if key \<in> set timeKeys then sql_min (linked_values w personaID key periodID)
                          else None))"

definition linkedHistoricalTime :: "int \<Rightarrow> string \<Rightarrow> int \<Rightarrow> (world, float64) go" where
  "linkedHistoricalTime personaID key periodID =
     gbind (linkedHistoricalStats personaID [key] periodID) (\<lambda>out.
     gret (case out key of None \<Rightarrow> Fin 0 | Some v \<Rightarrow> v))"

definition stat_rows :: "world \<Rightarrow> int \<Rightarrow> string list \<Rightarrow> int \<Rightarrow> (string \<times> float64) list" where
  "stat_rows w personaID keys periodID = map (\<lambda>s. (st_key s, st_value s))
     (filter (\<lambda>s. st_persona_id s = personaID \<and> st_period_id s = periodID \<and> st_key s \<in> set keys
        \<and> in_period w periodID (st_updated_at s)) (stats w))"

definition merge_linked :: "stat_map \<Rightarrow> stat_map \<Rightarrow> stat_map" where
  "merge_linked linked out = (\<lambda>key. case linked key of
      None \<Rightarrow> out key
    | Some v \<Rightarrow> (case out key of
          None \<Rightarrow> Some v
        | Some current \<Rightarrow> if v < current then Some v else Some current))"

definition GetStats :: "int \<Rightarrow> string list \<Rightarrow> int \<Rightarrow> (world, stat_map) go" where
  "GetStats personaID keys periodID =
     (if keys = [] then gret Map.empty
      else gbind (bestPersonaIDForKeys personaID keys periodID) (\<lambda>effective.
           gbind (query (\<lambda>w. scan_rows (stat_rows w effective keys periodID))) (\<lambda>out.
           gbind (linkedHistoricalStats effective keys periodID) (\<lambda>linked.
           gret (merge_linked linked out)))))"

text \<open>
  \<open>UpdateStats\<close> walks a Go map; the order of the walk is the order of the list. A \<open>NaN\<close> is bound as
  \<open>NULL\<close> and refused by the column.
\<close>

definition upsert_stat :: "int \<Rightarrow> string \<Rightarrow> float64 \<Rightarrow> int \<Rightarrow> (world, unit) go" where
  "upsert_stat personaID key v periodID = stmt (\<lambda>w.
     if v = NaN then (Fail ErrNotNull, w)
     else (Ret (), w\<lparr>stats := insert_or_update stat_key
       \<lparr>st_persona_id = personaID, st_key = key, st_value = real_column v, st_period_id = periodID,
        st_updated_at = current_timestamp w\<rparr> (stats w)\<rparr>))"

definition UpdateStats :: "int \<Rightarrow> (string \<times> float64) list \<Rightarrow> int \<Rightarrow> (world, unit) go" where
  "UpdateStats personaID values periodID =
     gfold (\<lambda>(key, v) _. upsert_stat personaID key v periodID) values ()"

subsection \<open>Ranks\<close>

text \<open>The owners that hold a value between zero and \<open>v\<close>; a run's owner is its linked persona.\<close>

definition owners_upto :: "world \<Rightarrow> string \<Rightarrow> int \<Rightarrow> float64 \<Rightarrow> int list" where
  "owners_upto w key periodID v =
     map st_persona_id (filter (\<lambda>s. live_row w key periodID s \<and> st_value s \<le> v) (stats w)) @
     concat (map (\<lambda>r. case run_player w r of
           None \<Rightarrow> []
         | Some hp \<Rightarrow> (case player_link w hp of
               Some l \<Rightarrow> [ln_persona_id l]
             | None \<Rightarrow> [hp_id hp + HistoricalOwnerOffset]))
       (filter (\<lambda>r. run_selected w key periodID r \<and> hr_value r \<le> v) (historical_runs w)))"

definition rankForValue :: "string \<Rightarrow> int \<Rightarrow> float64 \<Rightarrow> (world, int) go" where
  "rankForValue key periodID v =
     query (\<lambda>w. max (int (length (remdups (owners_upto w key periodID v)))) 1)"

definition RankedStats :: "int \<Rightarrow> string \<Rightarrow> int \<Rightarrow> (world, RankedStat) go" where
  "RankedStats personaID key periodID =
     gbind (bestPersonaIDForKey personaID key periodID) (\<lambda>effective.
     gbind (query (\<lambda>w. scan_rows (stat_rows w effective [key] periodID) key)) (\<lambda>live.
     gbind (if is_time_key key then linkedHistoricalTime effective key periodID else gret (Fin 0)) (\<lambda>linked.
     case (if is_time_key key \<and> positive linked \<and> (case live of None \<Rightarrow> True | Some v \<Rightarrow> linked < v)
           then Some linked else live) of
       None \<Rightarrow> gret \<lparr>rs_Rank = 0, rs_Value = Fin 0\<rparr>
     | Some v \<Rightarrow> gbind (rankForValue key periodID v) (\<lambda>rank. gret \<lparr>rs_Rank = rank, rs_Value = v\<rparr>))))"

subsection \<open>Imported players\<close>

definition HistoricalStats :: "int \<Rightarrow> string list \<Rightarrow> int \<Rightarrow> (world, stat_map) go" where
  "HistoricalStats ownerID keys periodID =
     (if keys = [] \<or> \<not> IsHistoricalOwner ownerID then gret Map.empty
      else query (\<lambda>w. scan_rows (map (\<lambda>r. (hr_key r, hr_value r)) (filter (\<lambda>r.
             hr_player_id r = ownerID - HistoricalOwnerOffset \<and> hr_period_id r = periodID
             \<and> hr_key r \<in> set keys \<and> in_period w periodID (hr_updated_at r)) (historical_runs w)))))"

definition HistoricalRankedStats :: "int \<Rightarrow> string \<Rightarrow> int \<Rightarrow> (world, RankedStat) go" where
  "HistoricalRankedStats ownerID key periodID =
     (if \<not> IsHistoricalOwner ownerID then gret \<lparr>rs_Rank = 0, rs_Value = Fin 0\<rparr>
      else gbind (query (\<lambda>w. query_row (\<lambda>r. hr_player_id r = ownerID - HistoricalOwnerOffset
                \<and> hr_key r = key \<and> hr_period_id r = periodID \<and> in_period w periodID (hr_updated_at r))
                (historical_runs w))) (\<lambda>found. case found of
             None \<Rightarrow> gret \<lparr>rs_Rank = 0, rs_Value = Fin 0\<rparr>
           | Some r \<Rightarrow> gbind (rankForValue key periodID (hr_value r)) (\<lambda>rank.
               gret \<lparr>rs_Rank = rank, rs_Value = hr_value r\<rparr>)))"

definition insert_player :: "string \<Rightarrow> string \<Rightarrow> world \<Rightarrow> world" where
  "insert_player sourceKey name w = w\<lparr>historical_players := insert_or_ignore hp_source_key
     \<lparr>hp_id = next_rowid (map hp_id (historical_players w)), hp_source_key = sourceKey, hp_name = name\<rparr>
     (historical_players w)\<rparr>"

definition AddHistoricalRun ::
  "string \<Rightarrow> string \<Rightarrow> int \<Rightarrow> string \<Rightarrow> float64 \<Rightarrow> int \<Rightarrow> string \<Rightarrow> string \<Rightarrow> string \<Rightarrow> (world, unit) go" where
  "AddHistoricalRun sourceKey name stretchID key v periodID runID weblink updatedAt =
     gbind (exec_sql (insert_player sourceKey name)) (\<lambda>_.
     stmt (\<lambda>w. case query_row (\<lambda>hp. hp_source_key hp = sourceKey) (historical_players w) of
         None \<Rightarrow> (Fail ErrNotNull, w)
       | Some hp \<Rightarrow>
           if v = NaN then (Fail ErrNotNull, w)
           else (Ret (), w\<lparr>historical_runs := insert_or_replace run_key
             \<lparr>hr_player_id = hp_id hp, hr_stretch_id = stretchID, hr_key = key, hr_value = real_column v,
              hr_period_id = periodID, hr_run_id = runID, hr_weblink = weblink,
              hr_updated_at = updatedAt\<rparr> (historical_runs w)\<rparr>)))"

definition LinkHistoricalAccount :: "string \<Rightarrow> int \<Rightarrow> (world, unit) go" where
  "LinkHistoricalAccount sourceKey personaID =
     gbind (PersonaByID personaID) (\<lambda>persona. case persona of
       None \<Rightarrow> gfail ErrNoRows
     | Some _ \<Rightarrow>
        gbind (query (\<lambda>w. query_row (\<lambda>hp. hp_source_key hp = sourceKey) (historical_players w))) (\<lambda>player.
        case player of
          None \<Rightarrow> gfail ErrNoRows
        | Some _ \<Rightarrow> exec_sql (\<lambda>w. w\<lparr>historical_account_links := insert_or_update ln_source_key
            \<lparr>ln_source_key = sourceKey, ln_persona_id = personaID\<rparr> (historical_account_links w)\<rparr>)))"

definition UnlinkHistoricalAccount :: "string \<Rightarrow> (world, unit) go" where
  "UnlinkHistoricalAccount sourceKey = exec_sql (\<lambda>w. w\<lparr>historical_account_links :=
     filter (\<lambda>l. ln_source_key l \<noteq> sourceKey) (historical_account_links w)\<rparr>)"

subsection \<open>The names of imported players\<close>

fun sanitize_loop :: "nat list \<Rightarrow> string \<Rightarrow> string" where
  "sanitize_loop [] b = b"
| "sanitize_loop (r # rs) b =
     (if r < 32 \<or> 126 < r then sanitize_loop rs b
      else if r = ord (CHR ''='') \<or> r = 13 \<or> r = 10 \<or> r = 9 then sanitize_loop rs b
      else let b' = b @ [char_of r] in
        if MaxHistoricalNameLen \<le> length b' then b' else sanitize_loop rs b')"

definition SanitizeHistoricalName :: "string \<Rightarrow> string" where
  "SanitizeHistoricalName name =
     (let out = trim_space (sanitize_loop (runes (trim_space name)) []) in
      if out = [] then ''SRC Runner'' else out)"

subsection \<open>The tables as keyed tables\<close>

interpretation stat_table: last_row_wins stat_key "\<lambda>k. query_row (\<lambda>s. stat_key s = k)"
  "insert_or_update stat_key" "\<lambda>t. distinct (map stat_key t)"
  by (rule insert_or_update_last_row_wins)

interpretation run_table: last_row_wins run_key "\<lambda>k. query_row (\<lambda>r. run_key r = k)"
  "insert_or_replace run_key" "\<lambda>t. distinct (map run_key t)"
  by (rule insert_or_replace_last_row_wins)

interpretation link_table: last_row_wins ln_source_key "\<lambda>k. query_row (\<lambda>l. ln_source_key l = k)"
  "insert_or_update ln_source_key" "\<lambda>t. distinct (map ln_source_key t)"
  by (rule insert_or_update_last_row_wins)

interpretation player_table: first_row_wins hp_source_key "\<lambda>k. query_row (\<lambda>p. hp_source_key p = k)"
  "insert_or_ignore hp_source_key" "\<lambda>t. distinct (map hp_source_key t)"
  by (rule insert_or_ignore_first_row_wins)

subsection \<open>Every operation keeps the schema's constraints\<close>

lemma keeps_bestPersonaIDForKey [keeps_intro]: "keeps (db_ok A P) (bestPersonaIDForKey pid key period)"
  unfolding bestPersonaIDForKey_def by (intro keeps_intro)

lemma keeps_bestPersonaIDForKeys [keeps_intro]: "keeps (db_ok A P) (bestPersonaIDForKeys pid keys period)"
  unfolding bestPersonaIDForKeys_def by (intro keeps_intro)

lemma keeps_linkedHistoricalStats [keeps_intro]: "keeps (db_ok A P) (linkedHistoricalStats pid keys period)"
  unfolding linkedHistoricalStats_def by (intro keeps_intro)

lemma keeps_linkedHistoricalTime [keeps_intro]: "keeps (db_ok A P) (linkedHistoricalTime pid key period)"
  unfolding linkedHistoricalTime_def by (intro keeps_intro)

lemma keeps_GetStats [keeps_intro]: "keeps (db_ok A P) (GetStats pid keys period)"
  unfolding GetStats_def by (intro keeps_intro)

lemma keeps_rankForValue [keeps_intro]: "keeps (db_ok A P) (rankForValue key period v)"
  unfolding rankForValue_def by (intro keeps_intro)

lemma keeps_RankedStats [keeps_intro]: "keeps (db_ok A P) (RankedStats pid key period)"
  unfolding RankedStats_def by (intro keeps_intro)

lemma keeps_HistoricalStats [keeps_intro]: "keeps (db_ok A P) (HistoricalStats oid keys period)"
  unfolding HistoricalStats_def by (intro keeps_intro)

lemma keeps_HistoricalRankedStats [keeps_intro]: "keeps (db_ok A P) (HistoricalRankedStats oid key period)"
  unfolding HistoricalRankedStats_def by (intro keeps_intro)

lemma keeps_upsert_stat: "pid \<in> P \<Longrightarrow> keeps (db_ok A P) (upsert_stat pid key v period)"
  unfolding upsert_stat_def
  by (intro keeps_stmt keeps_intro)
     (auto simp: keeps_def db_ok_def tables_ok_def stats_ok_def set_insert_or_update
        intro: distinct_insert_or_update)

lemma keeps_UpdateStats: "pid \<in> P \<Longrightarrow> keeps (db_ok A P) (UpdateStats pid values period)"
  unfolding UpdateStats_def by (intro keeps_gfold) (auto split: prod.splits intro: keeps_upsert_stat)

lemma tables_ok_insert_player: "tables_ok w \<Longrightarrow> tables_ok (insert_player sourceKey name w)"
proof -
  assume ok: "tables_ok w"
  have "historical_ok (insert_player sourceKey name w)"
    using ok next_rowid_notin [of "map hp_id (historical_players w)"]
    by (auto simp: tables_ok_def historical_ok_def insert_player_def insert_or_ignore_def next_rowid_pos)
  moreover have "links_ok (insert_player sourceKey name w)"
    using ok by (auto simp: tables_ok_def links_ok_def insert_player_def set_insert_or_ignore)
  ultimately show ?thesis using ok by (simp add: tables_ok_def insert_player_def)
qed

lemma keeps_AddHistoricalRun [keeps_intro]:
  "keeps (db_ok A P) (AddHistoricalRun sourceKey name stretchID key v period runID weblink updatedAt)"
proof -
  have ins: "keeps (db_ok A P) (exec_sql (insert_player sourceKey name))"
    by (intro keeps_exec_sql keeps_intro) (simp add: db_ok_def tables_ok_insert_player, simp add: insert_player_def)
  show ?thesis unfolding AddHistoricalRun_def
    by (intro keeps_intro ins keeps_stmt)
       (auto simp: keeps_def db_ok_def tables_ok_def historical_ok_def query_row_def set_insert_or_replace
          split: option.splits dest: find_SomeD intro: distinct_insert_or_replace)
qed

text \<open>A link is only made between a player and a persona that exist.\<close>

definition player_keys :: "world \<Rightarrow> string set" where
  "player_keys w = hp_source_key ` set (historical_players w)"

lemma keeps_LinkHistoricalAccount [keeps_intro]: "keeps (db_ok A P) (LinkHistoricalAccount sourceKey pid)"
proof -
  let ?J = "\<lambda>w. db_ok A (P \<union> {pid}) w \<and> sourceKey \<in> player_keys w"
  let ?link = "\<lambda>w. w\<lparr>historical_account_links := insert_or_update ln_source_key
      \<lparr>ln_source_key = sourceKey, ln_persona_id = pid\<rparr> (historical_account_links w)\<rparr>"
  have J: "table_invariant ?J"
    using db_ok_invariant by (auto simp: table_invariant_def player_keys_def)
  have link: "keeps ?J (exec_sql ?link)"
    using J by (intro keeps_exec_sql)
      (auto simp: db_ok_def tables_ok_def links_ok_def player_keys_def set_insert_or_update
         intro: distinct_insert_or_update)
  have persona: "triple (db_ok A P) (PersonaByID pid)
      (\<lambda>r. db_ok A (P \<union> (case r of None \<Rightarrow> {} | Some _ \<Rightarrow> {pid}))) (db_ok A P)"
    unfolding PersonaByID_def
    by (rule triple_conseq [OF triple_query [OF db_ok_invariant]])
       (auto simp: db_ok_def persona_ids_def query_row_def split: option.splits dest: find_SomeD)
  have player: "triple (db_ok A (P \<union> {pid}))
      (query (\<lambda>w. query_row (\<lambda>hp. hp_source_key hp = sourceKey) (historical_players w)))
      (\<lambda>r w. db_ok A (P \<union> {pid}) w \<and> (r \<noteq> None \<longrightarrow> sourceKey \<in> player_keys w)) (db_ok A P)"
    by (rule triple_conseq [OF triple_query [OF db_ok_invariant [of A "P \<union> {pid}"]]])
       (auto simp: db_ok_def player_keys_def query_row_def dest: find_SomeD)
  show ?thesis unfolding LinkHistoricalAccount_def
  proof (intro keeps_gbind_triple [OF persona] triple_case_option triple_gfail)
    fix r p
    assume r: "r = Some p"
    then have "triple (db_ok A (P \<union> {pid}))
        (gbind (query (\<lambda>w. query_row (\<lambda>hp. hp_source_key hp = sourceKey) (historical_players w)))
          (\<lambda>player. case player of None \<Rightarrow> gfail ErrNoRows | Some _ \<Rightarrow> exec_sql ?link)) (\<lambda>_. db_ok A P) (db_ok A P)"
      by (intro triple_gbind [OF player] triple_case_option triple_gfail triple_keeps [OF link])
         (auto simp: db_ok_def)
    with r show "triple (db_ok A (P \<union> (case r of None \<Rightarrow> {} | Some _ \<Rightarrow> {pid})))
        (gbind (query (\<lambda>w. query_row (\<lambda>hp. hp_source_key hp = sourceKey) (historical_players w)))
          (\<lambda>player. case player of None \<Rightarrow> gfail ErrNoRows | Some _ \<Rightarrow> exec_sql ?link)) (\<lambda>_. db_ok A P) (db_ok A P)"
      by simp
  qed (auto simp: db_ok_def)
qed

lemma keeps_UnlinkHistoricalAccount [keeps_intro]: "keeps (db_ok A P) (UnlinkHistoricalAccount sourceKey)"
  unfolding UnlinkHistoricalAccount_def
  by (intro keeps_exec_sql keeps_intro)
     (auto simp: db_ok_def tables_ok_def links_ok_def distinct_map_filter_rows)

subsection \<open>The detour over the best persona\<close>

text \<open>A database whose statements succeed, and whose open row orders are permutations.\<close>

definition healthy :: "world \<Rightarrow> bool" where
  "healthy w \<longleftrightarrow> tables_ok w \<and> faults w = [] \<and> row_order_ok (row_order w)"

lemma healthyD: "healthy w \<Longrightarrow> tables_ok w" "healthy w \<Longrightarrow> faults w = []"
  "healthy w \<Longrightarrow> row_order_ok (row_order w)"
  by (simp_all add: healthy_def)

lemma persona_row_iff: "tables_ok w \<Longrightarrow> persona_row w pid = Some p \<longleftrightarrow> p \<in> set (personas w) \<and> per_ID p = pid"
  by (simp add: persona_row_def query_row_key_iff tables_ok_def personas_ok_def)

lemma PersonaByID_run: "faults w = [] \<Longrightarrow> PersonaByID pid w = (Ret (map_option (scan_persona w) (persona_row w pid)), w)"
  by (simp add: PersonaByID_def go_run persona_row_def)

lemma case_all_fst: "(\<And>x. x \<in> set xs \<Longrightarrow> fst x = y) \<Longrightarrow> (case xs of [] \<Rightarrow> y | (q, v) # _ \<Rightarrow> q) = y"
  by (cases xs) (auto simp: case_prod_beta)

lemma bestPersonaIDForKey_run:
  assumes "healthy w"
  shows "bestPersonaIDForKey pid key period w = (Ret pid, w)"
proof (cases "pid = 0 \<or> \<not> is_time_key key \<or> persona_row w pid = None")
  case True
  then show ?thesis using healthyD [OF assms]
    by (auto simp: bestPersonaIDForKey_def go_run PersonaByID_run)
next
  case False
  then obtain persona where p: "persona_row w pid = Some persona" by auto
  define rows where "rows = concat (map (\<lambda>s. if live_row w key period s then
      (case persona_row w (st_persona_id s) of
         Some p \<Rightarrow> if per_Name p = per_Name (scan_persona w persona) then [(per_ID p, st_value s)] else []
       | None \<Rightarrow> []) else []) (stats w))"
  have same: "fst x = pid" if "x \<in> set rows" for x
  proof -
    from that obtain q where "q \<in> set (personas w)" "per_Name q = per_Name persona" "fst x = per_ID q"
      using persona_row_iff [OF healthyD(1) [OF assms]]
      by (auto simp: rows_def split: if_splits option.splits dest!: sym [of "Some _"])
    moreover have "persona \<in> set (personas w)" "per_ID persona = pid"
      using p persona_row_iff [OF healthyD(1) [OF assms]] by auto
    ultimately show ?thesis using healthyD(1) [OF assms]
      by (auto simp: tables_ok_def personas_ok_def distinct_map inj_on_def)
  qed
  have "set (sort_key snd (permute (row_order w) rows)) = set rows"
    by (simp add: set_permute [OF healthyD(3) [OF assms]])
  then have "(case sort_key snd (permute (row_order w) rows) of [] \<Rightarrow> pid | (q, v) # _ \<Rightarrow> q) = pid"
    using same by (intro case_all_fst) simp
  then show ?thesis using False p healthyD(2) [OF assms]
    by (simp add: bestPersonaIDForKey_def go_run PersonaByID_run rows_def del: scan_persona_fields)
qed

lemma bestPersonaIDForKeys_run: "healthy w \<Longrightarrow> bestPersonaIDForKeys pid keys period w = (Ret pid, w)"
  by (simp add: bestPersonaIDForKeys_def bestPersonaIDForKey_run gret_apply split: option.splits)

subsection \<open>The value of an owner\<close>

text \<open>
  What the store means by the value of a persona under a key and a period: its live stat, or a
  better time of a linked player.
\<close>

definition live_stat :: "world \<Rightarrow> int \<Rightarrow> string \<Rightarrow> int \<Rightarrow> float64 option" where
  "live_stat w pid key period =
     (case query_row (\<lambda>s. stat_key s = (pid, key, period)) (stats w) of
        None \<Rightarrow> None
      | Some s \<Rightarrow> if in_period w period (st_updated_at s) then Some (st_value s) else None)"

definition linked_best :: "world \<Rightarrow> int \<Rightarrow> string \<Rightarrow> int \<Rightarrow> float64 option" where
  "linked_best w pid key period =
     (if pid \<noteq> 0 \<and> is_time_key key then sql_min (linked_values w pid key period) else None)"

definition better :: "float64 option \<Rightarrow> float64 option \<Rightarrow> float64 option" where
  "better linked live = (case (linked, live) of
      (None, _) \<Rightarrow> live | (Some v, None) \<Rightarrow> Some v | (Some v, Some u) \<Rightarrow> Some (min v u))"

definition owner_stat :: "world \<Rightarrow> int \<Rightarrow> string \<Rightarrow> int \<Rightarrow> float64 option" where
  "owner_stat w pid key period = better (linked_best w pid key period) (live_stat w pid key period)"

lemma scan_rows_snoc [simp]: "scan_rows (rows @ [r]) = (scan_rows rows)(fst r \<mapsto> snd r)"
  by (simp add: scan_rows_def split: prod.splits)

lemma scan_rows_Nil [simp]: "scan_rows [] = Map.empty"
  by (simp add: scan_rows_def)

lemma scan_rows_iff:
  "distinct (map fst rows) \<Longrightarrow> scan_rows rows k = Some v \<longleftrightarrow> (k, v) \<in> set rows"
  by (induction rows rule: rev_induct) (auto simp: image_iff)

lemma live_stat_iff:
  assumes "tables_ok w"
  shows "live_stat w pid k period = Some v \<longleftrightarrow> (\<exists>s \<in> set (stats w).
     st_persona_id s = pid \<and> st_key s = k \<and> st_period_id s = period
     \<and> in_period w period (st_updated_at s) \<and> st_value s = v)"
proof -
  have "query_row (\<lambda>s. stat_key s = (pid, k, period)) (stats w) = Some s \<longleftrightarrow>
      s \<in> set (stats w) \<and> stat_key s = (pid, k, period)" for s
    using assms by (simp add: query_row_key_iff tables_ok_def stats_ok_def)
  note row = this
  show ?thesis
  proof (cases "query_row (\<lambda>s. stat_key s = (pid, k, period)) (stats w)")
    case None
    then have "\<not> (s \<in> set (stats w) \<and> stat_key s = (pid, k, period))" for s using row [of s] by simp
    with None show ?thesis by (auto simp: live_stat_def stat_key_def)
  next
    case (Some r)
    then have r: "r \<in> set (stats w)" "st_persona_id r = pid" "st_key r = k" "st_period_id r = period"
      using row [of r] by (auto simp: stat_key_def)
    have uniq: "s = r" if "s \<in> set (stats w)" "st_persona_id s = pid" "st_key s = k" "st_period_id s = period" for s
      using that row [of s] Some by (simp add: stat_key_def)
    have "(\<exists>s \<in> set (stats w). st_persona_id s = pid \<and> st_key s = k \<and> st_period_id s = period
        \<and> in_period w period (st_updated_at s) \<and> st_value s = v) \<longleftrightarrow>
      in_period w period (st_updated_at r) \<and> st_value r = v"
      using r uniq by blast
    with Some show ?thesis by (simp add: live_stat_def)
  qed
qed

lemma stat_rows_iff:
  assumes "tables_ok w"
  shows "(k, v) \<in> set (stat_rows w pid keys period) \<longleftrightarrow> k \<in> set keys \<and> live_stat w pid k period = Some v"
  unfolding live_stat_iff [OF assms] stat_rows_def by auto

lemma distinct_filter_keys:
  "distinct (map stat_key rows) \<Longrightarrow>
   distinct (map st_key (filter (\<lambda>s. st_persona_id s = pid \<and> st_period_id s = period \<and> Q s) rows))"
  by (induction rows) (auto simp: stat_key_def image_iff)

lemma distinct_stat_rows:
  assumes "tables_ok w"
  shows "distinct (map fst (stat_rows w pid keys period))"
  using distinct_filter_keys [of "stats w" pid period] assms
  by (simp add: stat_rows_def comp_def tables_ok_def stats_ok_def)

lemma scan_stat_rows:
  assumes "tables_ok w"
  shows "scan_rows (stat_rows w pid keys period) k = (if k \<in> set keys then live_stat w pid k period else None)"
  by (rule option_eq_by_Some)
     (simp add: scan_rows_iff [OF distinct_stat_rows [OF assms]] stat_rows_iff [OF assms])

lemma linkedHistoricalStats_run:
  "faults w = [] \<Longrightarrow> linkedHistoricalStats pid keys period w =
     (Ret (\<lambda>k. if k \<in> set keys then linked_best w pid k period else None), w)"
  by (auto simp: linkedHistoricalStats_def linked_best_def go_run Let_def fun_eq_iff filter_empty_conv)

lemma GetStats_run:
  assumes "healthy w"
  shows "GetStats pid keys period w = (Ret (\<lambda>k. if k \<in> set keys then owner_stat w pid k period else None), w)"
proof -
  note w = healthyD [OF assms]
  have "merge_linked (\<lambda>k. if k \<in> set keys then linked_best w pid k period else None)
      (scan_rows (stat_rows w pid keys period)) =
    (\<lambda>k. if k \<in> set keys then owner_stat w pid k period else None)"
    by (auto simp: fun_eq_iff merge_linked_def scan_stat_rows [OF w(1)] owner_stat_def better_def
        min_def split: option.splits)
  with w assms show ?thesis
    by (cases "keys = []")
       (simp_all add: GetStats_def go_run bestPersonaIDForKeys_run linkedHistoricalStats_run)
qed

lemma sql_min_Some: "sql_min xs = Some v \<longleftrightarrow> xs \<noteq> [] \<and> v = Min (set xs)"
proof (cases xs)
  case (Cons x ys)
  have "(\<lambda>x s. min s x) = (min :: float64 \<Rightarrow> _)" by (simp add: fun_eq_iff min.commute)
  then have "foldl min x ys = Min (set (x # ys))"
    by (simp only: foldl_conv_fold Min.set_eq_fold)
  with Cons show ?thesis by auto
qed simp

lemma linked_best_positive: "linked_best w pid key period = Some v \<Longrightarrow> positive v"
proof -
  assume "linked_best w pid key period = Some v"
  then have "v = Min (set (linked_values w pid key period))" "linked_values w pid key period \<noteq> []"
    by (auto simp: linked_best_def sql_min_Some split: if_splits)
  then have "v \<in> set (linked_values w pid key period)" by simp
  then show ?thesis by (auto simp: linked_values_def run_selected_def)
qed

definition rank_of :: "world \<Rightarrow> string \<Rightarrow> int \<Rightarrow> float64 \<Rightarrow> int" where
  "rank_of w key period v = max (int (length (remdups (owners_upto w key period v)))) 1"

lemma rankForValue_run: "faults w = [] \<Longrightarrow> rankForValue key period v w = (Ret (rank_of w key period v), w)"
  by (simp add: rankForValue_def go_run rank_of_def)

lemma linkedHistoricalTime_run:
  "faults w = [] \<Longrightarrow> linkedHistoricalTime pid key period w =
     (Ret (case linked_best w pid key period of None \<Rightarrow> Fin 0 | Some v \<Rightarrow> v), w)"
  by (simp add: linkedHistoricalTime_def go_run linkedHistoricalStats_run)

lemma linked_best_time_key: "\<not> is_time_key key \<Longrightarrow> linked_best w pid key period = None"
  by (simp add: linked_best_def)

lemma ranked_value:
  "(if is_time_key key \<and> positive (case linked_best w pid key period of None \<Rightarrow> Fin 0 | Some v \<Rightarrow> v)
      \<and> (case live of None \<Rightarrow> True | Some v \<Rightarrow> (case linked_best w pid key period of None \<Rightarrow> Fin 0 | Some v \<Rightarrow> v) < v)
    then Some (case linked_best w pid key period of None \<Rightarrow> Fin 0 | Some v \<Rightarrow> v) else live) =
   better (linked_best w pid key period) live"
proof (cases "linked_best w pid key period")
  case None
  then show ?thesis by (simp add: better_def positive_def)
next
  case (Some v)
  then have "is_time_key key" "positive v"
    using linked_best_time_key [of key w pid period] linked_best_positive [OF Some] by auto
  with Some show ?thesis by (auto simp: better_def min_def split: option.splits)
qed

lemma RankedStats_run:
  assumes "healthy w"
  shows "RankedStats pid key period w =
    (Ret (case owner_stat w pid key period of
        None \<Rightarrow> \<lparr>rs_Rank = 0, rs_Value = Fin 0\<rparr>
      | Some v \<Rightarrow> \<lparr>rs_Rank = rank_of w key period v, rs_Value = v\<rparr>), w)"
proof -
  note w = healthyD [OF assms]
  have linked: "(if is_time_key key then linkedHistoricalTime pid key period else gret (Fin 0)) w =
      (Ret (case linked_best w pid key period of None \<Rightarrow> Fin 0 | Some v \<Rightarrow> v), w)"
    using w linked_best_time_key [of key w pid period] by (simp add: linkedHistoricalTime_run gret_apply)
  have live: "scan_rows (stat_rows w pid [key] period) key = live_stat w pid key period"
    by (simp add: scan_stat_rows [OF w(1)])
  show ?thesis
    unfolding RankedStats_def owner_stat_def ranked_value [symmetric]
    using w by (simp add: go_run bestPersonaIDForKey_run [OF assms] linked live rankForValue_run split: option.splits)
qed

text \<open>
  The detour over the \<open>best persona\<close> never changes the persona: personas have unique names, so
  the query by name, value and period can only find the persona it started from.
\<close>

theorem bestPersonaID_identity:
  assumes "healthy w"
  shows "bestPersonaIDForKey pid key period w = (Ret pid, w)
    \<and> bestPersonaIDForKeys pid keys period w = (Ret pid, w)"
  by (simp add: bestPersonaIDForKey_run bestPersonaIDForKeys_run assms)

lemma stats_frame: "stats (stats_update f w) = f (stats w)"
  by simp

lemma healthy_concrete:
  "healthy empty_world" "healthy two_personas"
  using two_personas_ok empty_world_ok row_order_ok_upt
  by (simp_all add: healthy_def two_personas_def one_account_def empty_world_def)

theorem bestPersonaID_identity_witness:
  "bestPersonaIDForKey 1 ''TD_1_20'' 0 two_personas = (Ret 1, two_personas)"
  using bestPersonaID_identity [of two_personas 1 "''TD_1_20''" 0 "[]"] healthy_concrete by simp

subsection \<open>Writing and reading a stat\<close>

text \<open>
  C30. What \<open>UpdateStats\<close> writes is what its readers see. Under the written persona, key and period the
  table holds the new value (as its \<open>REAL\<close> column stores it: \<open>-0.0\<close> becomes \<open>0.0\<close>) and every other live
  stat is as before; \<open>GetStats\<close> and \<open>RankedStats\<close> both answer with that value, or with a better time of a
  linked player. A NaN is refused and leaves the table alone. The hypothesis on the period says that now
  lies in it.
\<close>

theorem UpdateStats_read_back:
  assumes "healthy w" "pid \<in> persona_ids w" "in_period w period (current_timestamp w)"
  shows "if v = NaN then UpdateStats pid [(key, v)] period w = (Fail ErrNotNull, w)
    else \<exists>w'. UpdateStats pid [(key, v)] period w = (Ret (), w') \<and> healthy w'
      \<and> (\<forall>q k p. live_stat w' q k p = (if (q, k, p) = (pid, key, period) then Some (real_column v) else live_stat w q k p))
      \<and> fst (GetStats pid [key] period w') = Ret [key \<mapsto> the (better (linked_best w pid key period) (Some (real_column v)))]
      \<and> (\<exists>r. fst (RankedStats pid key period w') = Ret r
            \<and> Some (rs_Value r) = better (linked_best w pid key period) (Some (real_column v)))"
proof (cases "v = NaN")
  case True
  then show ?thesis using healthyD [OF assms(1)]
    by (simp add: UpdateStats_def go_run upsert_stat_def)
next
  case False
  note w = healthyD [OF assms(1)]
  let ?row = "\<lparr>st_persona_id = pid, st_key = key, st_value = real_column v, st_period_id = period,
               st_updated_at = current_timestamp w\<rparr>"
  let ?w = "w\<lparr>stats := insert_or_update stat_key ?row (stats w)\<rparr>"
  have run: "UpdateStats pid [(key, v)] period w = (Ret (), ?w)"
    using False w by (simp add: UpdateStats_def go_run upsert_stat_def)
  have "keeps (db_ok {} {pid}) (UpdateStats pid [(key, v)] period)" by (rule keeps_UpdateStats) simp
  with run assms(2) w(1) have "db_ok {} {pid} ?w"
    by (elim keepsD) (auto simp: db_ok_def)
  with w have ok: "healthy ?w" by (simp add: healthy_def db_ok_def)
  have d: "distinct (map stat_key (stats w))" using w(1) by (simp add: tables_ok_def stats_ok_def)
  have period: "in_period (stats_update f w) p = in_period w p" for f p by (simp add: in_period_def)
  have key: "stat_key ?row = (pid, key, period)" by (simp add: stat_key_def)
  have live: "live_stat ?w q k p = (if (q, k, p) = (pid, key, period) then Some (real_column v) else live_stat w q k p)" for q k p
  proof (cases "(q, k, p) = (pid, key, period)")
    case True
    then show ?thesis using stat_table.look_put [OF d, of "(q, k, p)" ?row] assms(3)
      unfolding live_stat_def period by (simp add: key)
  next
    case False
    then show ?thesis using stat_table.look_put [OF d, of "(q, k, p)" ?row]
      unfolding live_stat_def period by (simp only: key simp_thms if_False stats_frame)
  qed
  have linked: "linked_best ?w = linked_best w"
    unfolding linked_best_def linked_values_def run_selected_def in_period_def run_player_def
      player_link_def fun_eq_iff by (simp cong: option.case_cong)
  obtain b where b: "better (linked_best w pid key period) (Some (real_column v)) = Some b"
    by (cases "linked_best w pid key period") (auto simp: better_def)
  have owner: "owner_stat ?w pid key period = Some b"
    by (simp add: owner_stat_def live linked b)
  then have "fst (GetStats pid [key] period ?w) = Ret [key \<mapsto> b]"
    by (auto simp: GetStats_run [OF ok] fun_eq_iff)
  moreover have "\<exists>r. fst (RankedStats pid key period ?w) = Ret r \<and> rs_Value r = b"
    by (simp add: RankedStats_run [OF ok] owner)
  ultimately show ?thesis using False run ok live b by auto
qed

theorem UpdateStats_read_back_witness:
  "\<exists>w'. UpdateStats 1 [(''TD_1_20'', Fin 42)] 0 two_personas = (Ret (), w')
     \<and> fst (GetStats 1 [''TD_1_20''] 0 w') = Ret [''TD_1_20'' \<mapsto> Fin 42]"
proof -
  have "1 \<in> persona_ids two_personas" "in_period two_personas 0 (current_timestamp two_personas)"
    "linked_best two_personas 1 ''TD_1_20'' 0 = None"
    by (simp_all add: two_personas_def one_account_def empty_world_def persona_ids_def in_period_def
        linked_best_def linked_values_def)
  then show ?thesis
    using UpdateStats_read_back [of two_personas 1 0 "Fin 42" "''TD_1_20''"] healthy_concrete
    by (auto simp: better_def real_column_def)
qed

subsection \<open>Names of imported players\<close>

text \<open>A name that goes out on the wire: printable, without the separator, of bounded length.\<close>

definition name_char :: "nat \<Rightarrow> bool" where
  "name_char r \<longleftrightarrow> 32 \<le> r \<and> r \<le> 126 \<and> r \<noteq> 61"

lemma sanitize_loop_eq:
  "length b < 31 \<Longrightarrow> sanitize_loop rs b = b @ take (31 - length b) (map char_of (filter name_char rs))"
proof (induction rs arbitrary: b)
  case (Cons r rs)
  then have "31 - length b = Suc (30 - length b)" by simp
  with Cons show ?case
    by (auto simp: name_char_def MaxHistoricalNameLen_def Let_def ord_def not_le less_Suc_eq_le)
qed simp

lemma sanitized_chars:
  assumes "c \<in> set (sanitize_loop rs [])"
  shows "name_char (ord c)"
proof -
  from assms have "c \<in> char_of ` set (filter name_char rs)"
    by (auto simp: sanitize_loop_eq dest: in_set_takeD)
  then show ?thesis by (auto simp: name_char_def)
qed

lemma sanitized_default: "SanitizeHistoricalName ''SRC Runner'' = ''SRC Runner''"
  by code_simp

lemma sanitize_clean:
  assumes "t \<noteq> []" "length t \<le> 31" "\<And>c. c \<in> set t \<Longrightarrow> name_char (ord c)"
    "\<not> sp (hd t)" "\<not> sp (last t)"
  shows "SanitizeHistoricalName t = t"
proof -
  have a: "ascii t" unfolding ascii_def using assms(3) by (fastforce simp: name_char_def)
  then have trim: "trim_space t = t" using assms by (intro trim_space_id) auto
  have "runes t = map ord t" using a by (intro runes_ascii) (simp add: ascii_def)
  moreover have "filter name_char (map ord t) = map ord t" using assms(3) by (intro filter_True) auto
  ultimately have "sanitize_loop (runes (trim_space t)) [] = t"
    using assms(2) by (simp add: sanitize_loop_eq trim comp_def)
  then show ?thesis using assms(1) trim by (simp add: SanitizeHistoricalName_def)
qed

text \<open>
  C37. Whatever name an imported player has, what \<open>SanitizeHistoricalName\<close> makes of it is never empty, has at
  most 31 characters, is printable ASCII without the separator \<open>=\<close> and without spaces at its ends; cleaning
  a clean name again changes nothing.
\<close>

theorem SanitizeHistoricalName_clean:
  "SanitizeHistoricalName name \<noteq> [] \<and> length (SanitizeHistoricalName name) \<le> MaxHistoricalNameLen
   \<and> (\<forall>c \<in> set (SanitizeHistoricalName name). 32 \<le> ord c \<and> ord c \<le> 126 \<and> c \<noteq> CHR ''='')
   \<and> hd (SanitizeHistoricalName name) \<noteq> CHR '' '' \<and> last (SanitizeHistoricalName name) \<noteq> CHR '' ''
   \<and> SanitizeHistoricalName (SanitizeHistoricalName name) = SanitizeHistoricalName name"
proof -
  let ?loop = "sanitize_loop (runes (trim_space name)) []"
  let ?out = "SanitizeHistoricalName name"
  have "ascii ?loop" unfolding ascii_def using sanitized_chars by (fastforce simp: name_char_def)
  then have trim: "trim_space ?loop = [] \<Longrightarrow> ?thesis"
    using sanitized_default by (simp add: SanitizeHistoricalName_def Let_def MaxHistoricalNameLen_def ord_def)
  show ?thesis
  proof (cases "trim_space ?loop = []")
    case False
    then have out: "?out = trim_space ?loop" by (simp add: SanitizeHistoricalName_def Let_def)
    have chars: "name_char (ord c)" if "c \<in> set ?out" for c
      using that trim_space_subset [of ?loop] sanitized_chars by (auto simp: out)
    have "length ?out \<le> 31"
      using trim_space_length [of ?loop] by (simp add: out sanitize_loop_eq)
    moreover have ends: "\<not> sp (hd ?out)" "\<not> sp (last ?out)"
      using trim_space_ends [OF \<open>ascii ?loop\<close> False] by (simp_all add: out)
    moreover have "32 \<le> ord c \<and> ord c \<le> 126 \<and> c \<noteq> CHR ''=''" if "c \<in> set ?out" for c
      using chars [OF that] by (auto simp: name_char_def ord_def)
    moreover have "sp (CHR '' '')" by (simp add: is_space_def ord_def)
    moreover have "?out \<noteq> []" using False by (simp add: out)
    ultimately show ?thesis
      using chars sanitize_clean [of ?out] unfolding MaxHistoricalNameLen_def by metis
  qed (rule trim)
qed

theorem SanitizeHistoricalName_clean_witness:
  "SanitizeHistoricalName '' A=b '' = ''Ab'' \<and> SanitizeHistoricalName ''='' = ''SRC Runner''
   \<and> CHR ''='' \<notin> set (SanitizeHistoricalName '' A=b '')"
proof -
  have "SanitizeHistoricalName '' A=b '' = ''Ab''" "SanitizeHistoricalName ''='' = ''SRC Runner''" by code_simp+
  then show ?thesis using SanitizeHistoricalName_clean [of "'' A=b ''"] by blast
qed

end
