(* ===== verification/Leaderboard.thy ===== *)
theory Leaderboard
  imports Store_Stats
begin

text \<open>
  \<open>Store.TopN\<close> of \<open>server/storage/storage.go\<close> (lines 725-828): the rows of live stats, of runs of
  linked players and of runs of imported players compete, the best one per owner stays, and a page
  of the result is returned with ranks and extra stats.
\<close>

subsection \<open>The query\<close>

record candidate =
  cd_owner :: int
  cd_name :: string
  cd_value :: float64
  cd_imported :: bool
  cd_time_only :: bool

definition live_candidates :: "world \<Rightarrow> string \<Rightarrow> int \<Rightarrow> candidate list" where
  "live_candidates w key periodID = concat (map (\<lambda>s.
     if live_row w key periodID s then
       (case persona_row w (st_persona_id s) of
          None \<Rightarrow> []
        | Some p \<Rightarrow> [\<lparr>cd_owner = st_persona_id s, cd_name = per_Name p, cd_value = st_value s,
                     cd_imported = False, cd_time_only = False\<rparr>])
     else []) (stats w))"

definition run_candidate :: "world \<Rightarrow> run_row \<Rightarrow> candidate list" where
  "run_candidate w r =
     (case run_player w r of
        None \<Rightarrow> []
      | Some hp \<Rightarrow> (case player_link w hp of
           Some l \<Rightarrow> (case persona_row w (ln_persona_id l) of
              None \<Rightarrow> []
            | Some p \<Rightarrow> [\<lparr>cd_owner = per_ID p, cd_name = per_Name p, cd_value = hr_value r,
                         cd_imported = False, cd_time_only = True\<rparr>])
         | None \<Rightarrow> [\<lparr>cd_owner = hp_id hp + HistoricalOwnerOffset, cd_name = hp_name hp,
                    cd_value = hr_value r, cd_imported = True, cd_time_only = True\<rparr>]))"

definition run_candidates :: "world \<Rightarrow> string \<Rightarrow> int \<Rightarrow> candidate list" where
  "run_candidates w key periodID =
     concat (map (run_candidate w) (filter (run_selected w key periodID) (historical_runs w)))"

definition candidates :: "world \<Rightarrow> string \<Rightarrow> int \<Rightarrow> candidate list" where
  "candidates w key periodID = live_candidates w key periodID @ run_candidates w key periodID"

text \<open>\<open>ROW_NUMBER() OVER (PARTITION BY owner_id ORDER BY value, time_only) = 1\<close>.\<close>

definition best_row :: "world \<Rightarrow> candidate list \<Rightarrow> int \<Rightarrow> candidate" where
  "best_row w cs owner = hd (sort_key (\<lambda>c. (cd_value c, cd_time_only c))
     (permute (row_order w) (filter (\<lambda>c. cd_owner c = owner) cs)))"

definition leaderboard :: "world \<Rightarrow> string \<Rightarrow> int \<Rightarrow> candidate list" where
  "leaderboard w key periodID =
     (let cs = candidates w key periodID in
      sort_key cd_value (permute (row_order w) (map (best_row w cs) (remdups (map cd_owner cs)))))"

text \<open>The loop over the rows: the extra stats of a row come from where the row comes from.\<close>

definition top_entry :: "string \<Rightarrow> string list \<Rightarrow> int \<Rightarrow> int \<Rightarrow> nat \<times> candidate \<Rightarrow> (world, TopEntry) go" where
  "top_entry key extraKeys periodID offset = (\<lambda>(i, c).
     gbind (if cd_imported c then HistoricalStats (cd_owner c) extraKeys periodID
            else if cd_time_only c then gret Map.empty
            else GetStats (cd_owner c) extraKeys periodID) (\<lambda>extra.
     gret \<lparr>te_PersonaID = cd_owner c,
           te_PersonaName = (if cd_imported c then SanitizeHistoricalName (cd_name c) else cd_name c),
           te_Rank = offset + int i + 1,
           te_Values = (\<lambda>k. if k = key then Some (cd_value c) else extra k),
           te_Imported = cd_imported c, te_TimeOnly = cd_time_only c\<rparr>))"

definition TopN :: "string \<Rightarrow> int \<Rightarrow> int \<Rightarrow> string list \<Rightarrow> int \<Rightarrow> (world, TopEntry list) go" where
  "TopN key minRank maxRank extraKeys periodID =
     (let offset = max (i64 (minRank - 1)) 0; limit = max (i64 (maxRank - offset)) 1 in
      gbind (query (\<lambda>w. take (nat limit) (drop (nat offset) (leaderboard w key periodID)))) (\<lambda>rows.
      gfold (\<lambda>row entries. gbind (top_entry key extraKeys periodID offset row) (\<lambda>e. gret (entries @ [e])))
        (zip [0..<length rows] rows) []))"

lemma keeps_TopN [keeps_intro]: "keeps (db_ok A P) (TopN key minRank maxRank extraKeys period)"
proof -
  have "keeps (db_ok A P) (top_entry key extraKeys period offset row)" for offset row
    by (cases row) (auto simp: top_entry_def intro!: keeps_intro)
  then show ?thesis unfolding TopN_def by (intro keeps_intro)
qed

subsection \<open>Evaluation in a healthy database\<close>

lemma HistoricalStats_total: "faults w = [] \<Longrightarrow> \<exists>m. HistoricalStats oid keys period w = (Ret m, w)"
  by (auto simp: HistoricalStats_def go_run)

definition extra_stats :: "world \<Rightarrow> string list \<Rightarrow> int \<Rightarrow> candidate \<Rightarrow> stat_map" where
  "extra_stats w extraKeys period c =
     (if cd_imported c then (case fst (HistoricalStats (cd_owner c) extraKeys period w) of Ret m \<Rightarrow> m | _ \<Rightarrow> Map.empty)
      else if cd_time_only c then Map.empty
      else (\<lambda>k. if k \<in> set extraKeys then owner_stat w (cd_owner c) k period else None))"

definition entry_of :: "world \<Rightarrow> string \<Rightarrow> string list \<Rightarrow> int \<Rightarrow> int \<Rightarrow> nat \<times> candidate \<Rightarrow> TopEntry" where
  "entry_of w key extraKeys period offset = (\<lambda>(i, c).
     \<lparr>te_PersonaID = cd_owner c,
      te_PersonaName = (if cd_imported c then SanitizeHistoricalName (cd_name c) else cd_name c),
      te_Rank = offset + int i + 1,
      te_Values = (\<lambda>k. if k = key then Some (cd_value c) else extra_stats w extraKeys period c k),
      te_Imported = cd_imported c, te_TimeOnly = cd_time_only c\<rparr>)"

lemma top_entry_run:
  assumes "healthy w"
  shows "top_entry key extraKeys period offset row w = (Ret (entry_of w key extraKeys period offset row), w)"
proof -
  note w = healthyD [OF assms]
  obtain m where "HistoricalStats (cd_owner (snd row)) extraKeys period w = (Ret m, w)"
    using HistoricalStats_total [OF w(2)] by blast
  then have "(if cd_imported c then HistoricalStats (cd_owner c) extraKeys period
      else if cd_time_only c then gret Map.empty else GetStats (cd_owner c) extraKeys period) w =
    (Ret (extra_stats w extraKeys period c), w)" if "c = snd row" for c
    using that by (simp add: extra_stats_def gret_apply GetStats_run [OF assms])
  then show ?thesis
    by (cases row) (simp add: top_entry_def entry_of_def gbind_Ret gret_apply)
qed

lemma gfold_append_run:
  assumes "\<And>x. f x w = (Ret (g x), w)"
  shows "gfold (\<lambda>x acc. gbind (f x) (\<lambda>e. gret (acc @ [e]))) xs acc w = (Ret (acc @ map g xs), w)"
  by (induction xs arbitrary: acc) (simp_all add: go_run assms)

definition page :: "int \<Rightarrow> int \<Rightarrow> 'a list \<Rightarrow> 'a list" where
  "page minRank maxRank rows =
     (let offset = max (i64 (minRank - 1)) 0; limit = max (i64 (maxRank - offset)) 1
      in take (nat limit) (drop (nat offset) rows))"

lemma TopN_run:
  assumes "healthy w"
  shows "TopN key minRank maxRank extraKeys period w =
    (Ret (map (entry_of w key extraKeys period (max (i64 (minRank - 1)) 0))
       (let rows = page minRank maxRank (leaderboard w key period) in zip [0..<length rows] rows)), w)"
  using healthyD [OF assms]
  by (simp add: TopN_def Let_def go_run page_def gfold_append_run top_entry_run [OF assms])

subsection \<open>The board\<close>

text \<open>
  What the query computes, said without it: the best value of an owner among all its rows, and the
  owners that have one.
\<close>

definition board_owners :: "world \<Rightarrow> string \<Rightarrow> int \<Rightarrow> int set" where
  "board_owners w key period = cd_owner ` set (candidates w key period)"

definition board_value :: "world \<Rightarrow> string \<Rightarrow> int \<Rightarrow> int \<Rightarrow> float64" where
  "board_value w key period owner = Min (cd_value ` {c \<in> set (candidates w key period). cd_owner c = owner})"

lemma hd_sort_key_min:
  assumes "xs \<noteq> []"
  shows "hd (sort_key f xs) \<in> set xs" "x \<in> set xs \<Longrightarrow> f (hd (sort_key f xs)) \<le> f x"
proof -
  obtain y ys where ys: "sort_key f xs = y # ys"
    using assms by (metis list.exhaust set_empty set_sort)
  then have "y \<in> set xs" by (metis list.set_intros(1) set_sort)
  with ys show "hd (sort_key f xs) \<in> set xs" by simp
  have "sorted (map f (y # ys))" by (metis sorted_sort_key ys)
  moreover have "set (y # ys) = set xs" by (metis set_sort ys)
  ultimately show "x \<in> set xs \<Longrightarrow> f (hd (sort_key f xs)) \<le> f x" using ys by fastforce
qed

lemma best_row_spec:
  assumes "row_order_ok (row_order w)" "owner \<in> cd_owner ` set cs"
  defines "b \<equiv> best_row w cs owner"
  shows "b \<in> set cs \<and> cd_owner b = owner \<and> cd_value b = Min (cd_value ` {c \<in> set cs. cd_owner c = owner})"
proof -
  let ?xs = "permute (row_order w) (filter (\<lambda>c. cd_owner c = owner) cs)"
  have set: "set ?xs = {c \<in> set cs. cd_owner c = owner}" by (simp add: set_permute [OF assms(1)])
  have "{c \<in> set cs. cd_owner c = owner} \<noteq> {}" using assms(2) by auto
  then have ne: "?xs \<noteq> []" by (metis set set_empty)
  have b: "b = hd (sort_key (\<lambda>c. (cd_value c, cd_time_only c)) ?xs)" by (simp add: b_def best_row_def)
  note min = hd_sort_key_min [OF ne, where f = "\<lambda>c. (cd_value c, cd_time_only c)", folded b, unfolded set]
  have "cd_value b \<le> cd_value c" if "c \<in> set cs" "cd_owner c = owner" for c
    using min(2) [of c] that by (auto simp: less_eq_prod_def)
  with min(1) have "cd_value b = Min (cd_value ` {c \<in> set cs. cd_owner c = owner})"
    by (intro Min_eqI [symmetric]) auto
  with min(1) show ?thesis by simp
qed

lemma leaderboard_spec:
  assumes "row_order_ok (row_order w)"
  shows "distinct (map cd_owner (leaderboard w key period))"
    "cd_owner ` set (leaderboard w key period) = board_owners w key period"
    "sorted (map cd_value (leaderboard w key period))"
    "c \<in> set (leaderboard w key period) \<Longrightarrow> cd_value c = board_value w key period (cd_owner c)"
proof -
  let ?cs = "candidates w key period"
  let ?best = "map (best_row w ?cs) (remdups (map cd_owner ?cs))"
  have lb: "leaderboard w key period = sort_key cd_value (permute (row_order w) ?best)"
    by (simp add: leaderboard_def Let_def)
  have owner: "cd_owner (best_row w ?cs x) = x" if "x \<in> cd_owner ` set ?cs" for x
    using best_row_spec [OF assms that] by simp
  have owners: "map cd_owner ?best = remdups (map cd_owner ?cs)"
    using owner by (auto intro!: map_idI simp: comp_def)
  have "distinct (map cd_owner (permute (row_order w) ?best))"
    by (rule distinct_map_permute [OF assms]) (simp only: owners distinct_remdups)
  then show "distinct (map cd_owner (leaderboard w key period))"
    unfolding lb by (metis distinct_map distinct_sort set_sort)
  have set: "set (leaderboard w key period) = best_row w ?cs ` cd_owner ` set ?cs"
    by (simp add: lb set_permute [OF assms])
  then show "cd_owner ` set (leaderboard w key period) = board_owners w key period"
    using owner by (force simp: board_owners_def image_iff)
  show "sorted (map cd_value (leaderboard w key period))" by (simp add: lb)
  assume "c \<in> set (leaderboard w key period)"
  then show "cd_value c = board_value w key period (cd_owner c)"
    using set best_row_spec [OF assms] by (auto simp: board_value_def)
qed

lemma candidates_positive: "c \<in> set (candidates w key period) \<Longrightarrow> positive (cd_value c)"
proof -
  have run: "c \<in> set (run_candidate w r) \<Longrightarrow> cd_value c = hr_value r" for r
    by (auto simp: run_candidate_def split: option.splits)
  show "c \<in> set (candidates w key period) \<Longrightarrow> positive (cd_value c)"
    by (auto simp: candidates_def live_candidates_def run_candidates_def live_row_def run_selected_def
        dest!: run split: if_splits option.splits)
qed

lemma board_value_iff:
  assumes "owner \<in> board_owners w key period"
  shows "board_value w key period owner \<le> v \<longleftrightarrow>
    (\<exists>c \<in> set (candidates w key period). cd_owner c = owner \<and> cd_value c \<le> v)"
  unfolding board_value_def using assms by (subst Min_le_iff) (auto simp: board_owners_def)

lemma board_value_positive:
  assumes "owner \<in> board_owners w key period"
  shows "positive (board_value w key period owner)"
proof -
  have "board_value w key period owner \<in> cd_value ` {c \<in> set (candidates w key period). cd_owner c = owner}"
    unfolding board_value_def using assms by (intro Min_in) (auto simp: board_owners_def)
  then show ?thesis using candidates_positive by auto
qed

text \<open>Positions in a list sorted by value, without two rows of one owner.\<close>

lemma sorted_position:
  assumes "sorted (map val xs)" "distinct (map own xs)" "j < length xs"
  shows "card {x \<in> set xs. val x < val (xs ! j)} \<le> j" "Suc j \<le> card {x \<in> set xs. val x \<le> val (xs ! j)}"
proof -
  have d: "distinct xs" using assms(2) by (simp add: distinct_map)
  have mono: "val (xs ! a) \<le> val (xs ! b)" if "a \<le> b" "b < length xs" for a b
    using sorted_nth_mono [OF assms(1), of a b] that by simp
  have "{x \<in> set xs. val x < val (xs ! j)} \<subseteq> set (take j xs)"
  proof
    fix x
    assume "x \<in> {x \<in> set xs. val x < val (xs ! j)}"
    then obtain k where "k < length xs" "x = xs ! k" "val (xs ! k) < val (xs ! j)" by (auto simp: in_set_conv_nth)
    moreover from this have "k < j" using mono [of j k] by (meson leD leI)
    ultimately show "x \<in> set (take j xs)" using assms(3) by (auto simp: in_set_conv_nth)
  qed
  then have "card {x \<in> set xs. val x < val (xs ! j)} \<le> card (set (take j xs))" by (intro card_mono) auto
  also have "\<dots> \<le> j" using card_length [of "take j xs"] by simp
  finally show "card {x \<in> set xs. val x < val (xs ! j)} \<le> j" .
  have "set (take (Suc j) xs) \<subseteq> {x \<in> set xs. val x \<le> val (xs ! j)}"
  proof
    fix x
    assume "x \<in> set (take (Suc j) xs)"
    then obtain k where "k < length (take (Suc j) xs)" "x = take (Suc j) xs ! k"
      by (metis in_set_conv_nth)
    then have "k \<le> j" "x = xs ! k" by auto
    with mono [of k j] assms(3) show "x \<in> {x \<in> set xs. val x \<le> val (xs ! j)}" by simp
  qed
  then have "card (set (take (Suc j) xs)) \<le> card {x \<in> set xs. val x \<le> val (xs ! j)}" by (intro card_mono) auto
  moreover have "card (set (take (Suc j) xs)) = Suc j" using d assms(3) by (simp add: distinct_card)
  ultimately show "Suc j \<le> card {x \<in> set xs. val x \<le> val (xs ! j)}" by simp
qed

lemma leaderboard_position:
  assumes "row_order_ok (row_order w)" "j < length (leaderboard w key period)"
  defines "v \<equiv> cd_value (leaderboard w key period ! j)"
  shows "card {x \<in> board_owners w key period. board_value w key period x < v} \<le> j"
    "Suc j \<le> card {x \<in> board_owners w key period. board_value w key period x \<le> v}"
proof -
  let ?lb = "leaderboard w key period"
  note lb = leaderboard_spec [OF assms(1), where key = key and period = period]
  have inj: "inj_on cd_owner (set ?lb)" using lb(1) by (simp add: distinct_map)
  have card: "card {x \<in> board_owners w key period. P (board_value w key period x)} =
      card {c \<in> set ?lb. P (cd_value c)}" for P
  proof -
    have "{x \<in> board_owners w key period. P (board_value w key period x)} = cd_owner ` {c \<in> set ?lb. P (cd_value c)}"
      using lb(4) by (auto simp: lb(2) [symmetric])
    then show ?thesis using inj by (simp add: card_image inj_on_subset)
  qed
  show "card {x \<in> board_owners w key period. board_value w key period x < v} \<le> j"
    using sorted_position(1) [OF lb(3,1) assms(2)] card [of "\<lambda>u. u < v"] by (simp add: v_def)
  show "Suc j \<le> card {x \<in> board_owners w key period. board_value w key period x \<le> v}"
    using sorted_position(2) [OF lb(3,1) assms(2)] card [of "\<lambda>u. u \<le> v"] by (simp add: v_def)
qed

subsection \<open>The rank query sees the same owners\<close>

lemma persona_row_present:
  "tables_ok w \<Longrightarrow> pid \<in> persona_ids w \<Longrightarrow> \<exists>p. persona_row w pid = Some p \<and> per_ID p = pid"
  using persona_row_iff by (auto simp: persona_ids_def)

lemma live_owner_iff:
  assumes "tables_ok w"
  shows "(\<exists>s \<in> set (stats w). live_row w key period s \<and> st_value s \<le> v \<and> st_persona_id s = x) \<longleftrightarrow>
    (\<exists>c \<in> set (live_candidates w key period). cd_owner c = x \<and> cd_value c \<le> v)"
proof
  assume "\<exists>s \<in> set (stats w). live_row w key period s \<and> st_value s \<le> v \<and> st_persona_id s = x"
  then obtain s where s: "s \<in> set (stats w)" "live_row w key period s" "st_value s \<le> v" "st_persona_id s = x" by blast
  moreover obtain p where "persona_row w (st_persona_id s) = Some p"
    using s assms persona_row_present by (fastforce simp: tables_ok_def stats_ok_def)
  ultimately show "\<exists>c \<in> set (live_candidates w key period). cd_owner c = x \<and> cd_value c \<le> v"
    by (auto simp: live_candidates_def intro!: bexI [of _ s])
qed (auto simp: live_candidates_def split: if_splits option.splits)

definition run_owner :: "world \<Rightarrow> player_row \<Rightarrow> int" where
  "run_owner w hp = (case player_link w hp of
      Some l \<Rightarrow> ln_persona_id l | None \<Rightarrow> hp_id hp + HistoricalOwnerOffset)"

lemma run_candidate_owner:
  assumes "tables_ok w"
  shows "(\<exists>c \<in> set (run_candidate w r). cd_owner c = x \<and> cd_value c \<le> v) \<longleftrightarrow>
    hr_value r \<le> v \<and> (\<exists>hp. run_player w r = Some hp \<and> x = run_owner w hp)"
proof (cases "run_player w r")
  case player: (Some hp)
  show ?thesis
  proof (cases "player_link w hp")
    case None
    with player show ?thesis by (auto simp: run_candidate_def run_owner_def)
  next
    case (Some l)
    then have "l \<in> set (historical_account_links w)" by (auto simp: player_link_def query_row_def dest: find_SomeD)
    then obtain p where "persona_row w (ln_persona_id l) = Some p" "per_ID p = ln_persona_id l"
      using assms persona_row_present by (fastforce simp: tables_ok_def links_ok_def)
    with Some player show ?thesis by (auto simp: run_candidate_def run_owner_def)
  qed
qed (simp add: run_candidate_def)

lemma run_owner_row:
  "x \<in> set (case a of None \<Rightarrow> [] | Some hp \<Rightarrow> (case player_link w hp of
       Some l \<Rightarrow> [ln_persona_id l] | None \<Rightarrow> [hp_id hp + HistoricalOwnerOffset])) \<longleftrightarrow>
   (\<exists>hp. a = Some hp \<and> x = run_owner w hp)"
proof (cases a)
  case (Some hp)
  then show ?thesis by (cases "player_link w hp") (simp_all add: run_owner_def)
qed simp

lemma board_upto_iff:
  "x \<in> board_owners w key period \<and> board_value w key period x \<le> v \<longleftrightarrow>
   (\<exists>c \<in> set (candidates w key period). cd_owner c = x \<and> cd_value c \<le> v)"
  using board_value_iff [of x w key period v] by (cases "x \<in> board_owners w key period") (auto simp: board_owners_def)

lemma owners_upto_board:
  assumes "tables_ok w"
  shows "set (owners_upto w key period v) = {x \<in> board_owners w key period. board_value w key period x \<le> v}"
proof -
  have live: "x \<in> set (map st_persona_id (filter (\<lambda>s. live_row w key period s \<and> st_value s \<le> v) (stats w))) \<longleftrightarrow>
      (\<exists>c \<in> set (live_candidates w key period). cd_owner c = x \<and> cd_value c \<le> v)" for x
    unfolding live_owner_iff [OF assms, symmetric] by auto
  have run: "(\<exists>r \<in> set (historical_runs w). (run_selected w key period r \<and> hr_value r \<le> v) \<and>
        (\<exists>hp. run_player w r = Some hp \<and> x = run_owner w hp)) \<longleftrightarrow>
      (\<exists>c \<in> set (run_candidates w key period). cd_owner c = x \<and> cd_value c \<le> v)" for x
    using run_candidate_owner [OF assms, of _ x v] unfolding run_candidates_def by fastforce
  have "x \<in> set (owners_upto w key period v) \<longleftrightarrow>
      (\<exists>c \<in> set (candidates w key period). cd_owner c = x \<and> cd_value c \<le> v)" for x
    unfolding candidates_def set_append bex_Un live [symmetric] run [symmetric] owners_upto_def Un_iff
      set_concat set_map set_filter UN_iff bex_simps run_owner_row
    by auto
  then show ?thesis unfolding board_upto_iff [symmetric] by auto
qed

lemma rank_of_board:
  assumes "tables_ok w"
  shows "rank_of w key period v =
    max (int (card {x \<in> board_owners w key period. board_value w key period x \<le> v})) 1"
  unfolding rank_of_def owners_upto_board [OF assms, symmetric] by (simp add: length_remdups_card_conv)

subsection \<open>Pages of the board\<close>

lemma page_bounds:
  assumes "1 \<le> minRank" "minRank \<le> maxRank" "maxRank \<le> max_int64"
  shows "max (i64 (minRank - 1)) 0 = minRank - 1"
    "page minRank maxRank rows = take (nat (maxRank - minRank + 1)) (drop (nat (minRank - 1)) rows)"
proof -
  have "int64_range (minRank - 1)" "int64_range (maxRank - (minRank - 1))"
    using assms by (auto simp: int64_range_def min_int64_def max_int64_def)
  then show "max (i64 (minRank - 1)) 0 = minRank - 1"
    "page minRank maxRank rows = take (nat (maxRank - minRank + 1)) (drop (nat (minRank - 1)) rows)"
    using assms by (simp_all add: page_def Let_def i64_id algebra_simps)
qed

definition page_entries :: "world \<Rightarrow> string \<Rightarrow> string list \<Rightarrow> int \<Rightarrow> int \<Rightarrow> int \<Rightarrow> TopEntry list" where
  "page_entries w key extraKeys period minRank maxRank =
     map (entry_of w key extraKeys period (minRank - 1))
       (let rows = page minRank maxRank (leaderboard w key period) in zip [0..<length rows] rows)"

lemma length_leaderboard:
  assumes "row_order_ok (row_order w)"
  shows "length (leaderboard w key period) = card (board_owners w key period)"
  using leaderboard_spec(1,2) [OF assms, of key period] by (metis distinct_card length_map list.set_map)

lemma page_entry:
  assumes "1 \<le> minRank" "minRank \<le> maxRank" "maxRank \<le> max_int64"
    and "e \<in> set (page_entries w key extraKeys period minRank maxRank)"
  obtains i where "nat (minRank - 1) + i < length (leaderboard w key period)"
    "te_Rank e = int (nat (minRank - 1) + i) + 1"
    "te_PersonaID e = cd_owner (leaderboard w key period ! (nat (minRank - 1) + i))"
    "te_Values e key = Some (cd_value (leaderboard w key period ! (nat (minRank - 1) + i)))"
proof -
  let ?rows = "page minRank maxRank (leaderboard w key period)"
  from assms(4) obtain i where "i < length ?rows" "e = entry_of w key extraKeys period (minRank - 1) (i, ?rows ! i)"
    by (auto simp: page_entries_def Let_def set_zip)
  with assms(1) show thesis
    by (intro that [of i]) (auto simp: page_bounds [OF assms(1-3)] entry_of_def)
qed

text \<open>
  C28. A page of a leaderboard. With ranks in order, \<open>TopN\<close> returns exactly the rows of its page that
  exist, with consecutive ranks from \<open>minRank\<close>, one row per owner; the value of a row is the best
  value of its owner over live stats and runs, and the rank is right: fewer owners than the rank
  are strictly better, and at least as many as the rank are as good or better.
\<close>

theorem TopN_page:
  assumes "healthy w" "1 \<le> minRank" "minRank \<le> maxRank" "maxRank \<le> max_int64"
  shows "\<exists>es. TopN key minRank maxRank extraKeys period w = (Ret es, w)
    \<and> length es = min (nat (maxRank - minRank + 1)) (card (board_owners w key period) - nat (minRank - 1))
    \<and> map te_Rank es = map (\<lambda>i. minRank + int i) [0..<length es]
    \<and> distinct (map te_PersonaID es)
    \<and> (\<forall>e \<in> set es. te_PersonaID e \<in> board_owners w key period
        \<and> te_Values e key = Some (board_value w key period (te_PersonaID e))
        \<and> int (card {x \<in> board_owners w key period.
                board_value w key period x < board_value w key period (te_PersonaID e)}) < te_Rank e
        \<and> te_Rank e \<le> int (card {x \<in> board_owners w key period.
                board_value w key period x \<le> board_value w key period (te_PersonaID e)}))"
proof -
  let ?lb = "leaderboard w key period" and ?es = "page_entries w key extraKeys period minRank maxRank"
  let ?rows = "page minRank maxRank ?lb"
  note w = healthyD [OF assms(1)] and bounds = page_bounds [OF assms(2-4)]
  note lb = leaderboard_spec [OF w(3), where key = key and period = period]
  have run: "TopN key minRank maxRank extraKeys period w = (Ret ?es, w)"
    by (simp add: TopN_run [OF assms(1)] page_entries_def bounds(1))
  have len: "length ?es = length ?rows" by (simp add: page_entries_def Let_def)
  then have "length ?es = min (nat (maxRank - minRank + 1)) (card (board_owners w key period) - nat (minRank - 1))"
    by (simp add: bounds(2) length_leaderboard [OF w(3)] min.commute)
  moreover have "map te_Rank ?es = map (\<lambda>i. minRank + int i) [0..<length ?es]"
    unfolding len by (rule nth_equalityI) (auto simp: page_entries_def Let_def entry_of_def)
  moreover have "map te_PersonaID ?es = map cd_owner ?rows"
    by (rule nth_equalityI) (auto simp: page_entries_def Let_def entry_of_def)
  then have "distinct (map te_PersonaID ?es)"
    using lb(1) unfolding bounds(2) by (simp add: take_map [symmetric] drop_map [symmetric])
  moreover have "te_PersonaID e \<in> board_owners w key period
        \<and> te_Values e key = Some (board_value w key period (te_PersonaID e))
        \<and> int (card {x \<in> board_owners w key period.
                board_value w key period x < board_value w key period (te_PersonaID e)}) < te_Rank e
        \<and> te_Rank e \<le> int (card {x \<in> board_owners w key period.
                board_value w key period x \<le> board_value w key period (te_PersonaID e)})"
    if e: "e \<in> set ?es" for e
  proof -
    obtain j where j: "j < length ?lb" "te_Rank e = int j + 1" "te_PersonaID e = cd_owner (?lb ! j)"
      "te_Values e key = Some (cd_value (?lb ! j))"
      using page_entry [OF assms(2-4) e] by metis
    then have "?lb ! j \<in> set ?lb" by simp
    then have "te_PersonaID e \<in> board_owners w key period"
      "cd_value (?lb ! j) = board_value w key period (te_PersonaID e)"
      using lb(2,4) j(3) by auto
    then show ?thesis using leaderboard_position [OF w(3) j(1)] j by auto
  qed
  ultimately show ?thesis using run by blast
qed

text \<open>Two personas with the same best time.\<close>

definition tied_world :: world where
  "tied_world = two_personas\<lparr>stats :=
     [\<lparr>st_persona_id = 1, st_key = ''TD_1_20'', st_value = Fin 42, st_period_id = 0, st_updated_at = ''t''\<rparr>,
      \<lparr>st_persona_id = 2, st_key = ''TD_1_20'', st_value = Fin 42, st_period_id = 0, st_updated_at = ''t''\<rparr>]\<rparr>"

lemma healthy_tied_world: "healthy tied_world"
  using row_order_ok_upt
  by (auto simp: healthy_def tied_world_def two_personas_def one_account_def empty_world_def tables_ok_defs
      stat_key_def)

lemma tied_board: "board_owners tied_world ''TD_1_20'' 0 = {1, 2}"
  by (auto simp: board_owners_def candidates_def live_candidates_def run_candidates_def live_row_def
      persona_row_def query_row_def in_period_def tied_world_def two_personas_def one_account_def empty_world_def)

theorem TopN_page_witness:
  "\<exists>es. TopN ''TD_1_20'' 1 10 [] 0 tied_world = (Ret es, tied_world) \<and> map te_Rank es = [1, 2]"
  using TopN_page [OF healthy_tied_world, of 1 10 "''TD_1_20''" "[]" 0]
  by (auto simp: tied_board max_int64_def upt_rec)

text \<open>
  C29. The rank that \<open>rankForValue\<close> (and with it \<open>RankedStats\<close>) gives to the value of a row counts
  every owner that is as good or better, so it is never better than the rank on the page; it is the
  rank of the last row among those tied with it.
\<close>

theorem rankForValue_counts_ties:
  assumes "healthy w" "1 \<le> minRank" "minRank \<le> maxRank" "maxRank \<le> max_int64"
    "TopN key minRank maxRank extraKeys period w = (Ret es, w)" "e \<in> set es" "te_Values e key = Some v"
  shows "\<exists>r. rankForValue key period v w = (Ret r, w) \<and> te_Rank e \<le> r
    \<and> r = int (card {x \<in> board_owners w key period. board_value w key period x \<le> v})"
proof -
  note w = healthyD [OF assms(1)]
  let ?lb = "leaderboard w key period"
  have "es = page_entries w key extraKeys period minRank maxRank"
    using assms(5) by (simp add: TopN_run [OF assms(1)] page_entries_def page_bounds(1) [OF assms(2-4)])
  then obtain j where j: "j < length ?lb" "te_Rank e = int j + 1" "v = cd_value (?lb ! j)"
    using page_entry [OF assms(2-4), of e w key extraKeys period] assms(6,7) by (metis option.inject)
  then have "Suc j \<le> card {x \<in> board_owners w key period. board_value w key period x \<le> v}"
    using leaderboard_position(2) [OF w(3) j(1)] by simp
  with j show ?thesis by (auto simp: rankForValue_run [OF w(2)] rank_of_board [OF w(1)])
qed

lemma tied_leader_rank:
  "map te_Rank (case fst (TopN ''TD_1_20'' 1 10 [] 0 tied_world) of Ret es \<Rightarrow> es | _ \<Rightarrow> []) = [1, 2]
   \<and> fst (RankedStats 1 ''TD_1_20'' 0 tied_world) = Ret \<lparr>rs_Rank = 2, rs_Value = Fin 42\<rparr>
   \<and> fst (RankedStats 2 ''TD_1_20'' 0 tied_world) = Ret \<lparr>rs_Rank = 2, rs_Value = Fin 42\<rparr>"
  by code_simp

theorem rankForValue_counts_ties_witness:
  "\<exists>r. rankForValue ''TD_1_20'' 0 (Fin 42) tied_world = (Ret r, tied_world) \<and> 2 \<le> r"
proof -
  have "TopN ''TD_1_20'' 1 10 [] 0 tied_world =
      (Ret (page_entries tied_world ''TD_1_20'' [] 0 1 10), tied_world)"
    by (simp add: TopN_run [OF healthy_tied_world] page_entries_def i64_id int64_range_def min_int64_def
        max_int64_def)
  moreover have "map (\<lambda>e. (te_Rank e, te_Values e ''TD_1_20'')) (page_entries tied_world ''TD_1_20'' [] 0 1 10) =
      [(1, Some (Fin 42)), (2, Some (Fin 42))]" by code_simp
  then have "(2, Some (Fin 42)) \<in> set (map (\<lambda>e. (te_Rank e, te_Values e ''TD_1_20''))
      (page_entries tied_world ''TD_1_20'' [] 0 1 10))" by (simp only:) simp
  then obtain e where "e \<in> set (page_entries tied_world ''TD_1_20'' [] 0 1 10)" "te_Rank e = 2"
    "te_Values e ''TD_1_20'' = Some (Fin 42)" by auto
  ultimately show ?thesis
    using rankForValue_counts_ties [OF healthy_tied_world, of 1 10 "''TD_1_20''" "[]" 0]
    by (fastforce simp: max_int64_def)
qed

end
