(* ===== verification/Session.thy ===== *)
theory Session
  imports Config Packet Leaderboard
begin

text \<open>
  The session side of \<open>server/fesl/server.go\<close>: the session record, the helpers that the handlers share,
  the validators, and the handlers for accounts, login and personas. A handler runs on the state of
  the database and of its session; what it writes to the log is not modelled.
\<close>

subsection \<open>State\<close>

record Session =
  accountID :: int
  personaID :: int
  personaName :: string
  session_nuid :: string
  lkey :: string

record server_state =
  db :: world
  sess :: Session

definition new_session :: Session where
  "new_session = \<lparr>accountID = 0, personaID = 0, personaName = [], session_nuid = [], lkey = []\<rparr>"

type_synonym 'a fesl = "(server_state, 'a) go"

type_synonym handler = "Config \<Rightarrow> packet \<Rightarrow> string fesl"

definition on_store :: "(world, 'a) go \<Rightarrow> 'a fesl" where
  "on_store m = (\<lambda>s. case m (db s) of (r, w) \<Rightarrow> (r, s\<lparr>db := w\<rparr>))"

subsection \<open>Helpers\<close>

fun kvs :: "string list \<Rightarrow> kv list" where
  "kvs (k # v # rest) = KV k v # kvs rest"
| "kvs _ = []"

definition reply :: "string \<Rightarrow> packet \<Rightarrow> kv list \<Rightarrow> string fesl" where
  "reply t pkt params = gret (Encode t (ID pkt) params)"

definition handlerErrorResponse :: "packet \<Rightarrow> string \<Rightarrow> string" where
  "handlerErrorResponse pkt txn =
     (let txn' = (if txn = [] then mget (ParamsMap (Params pkt)) ''TXN'' else txn)
      in Encode (Type pkt) (ID pkt) (kvs [''TXN'', txn', ''errorCode'', ''1'']))"

definition atoi :: "string \<Rightarrow> int" where
  "atoi v = atoi_value v"

definition atof :: "string \<Rightarrow> float64" where
  "atof v = parse_float_value v"

definition itoa64 :: "int \<Rightarrow> string" where
  "itoa64 v = itoa v"

definition randomHex :: "nat \<Rightarrow> string fesl" where
  "randomHex n = gbind (on_store (draw n)) (\<lambda>buf. gret (hex_encode buf))"

definition withDefault :: "string \<Rightarrow> string \<Rightarrow> string" where
  "withDefault v fallback = (if v = [] then fallback else v)"

text \<open>\<open>fmt.Sprintf("%s.%d", prefix, i)\<close> and the like.\<close>

definition indexed :: "string \<Rightarrow> nat \<Rightarrow> string" where
  "indexed p i = p @ CHR ''.'' # itoa (int i)"

text \<open>
  \<open>make([]T, 0, count)\<close> panics when the capacity is negative or needs more than the \<open>2^48\<close> bytes
  that the runtime can address.
\<close>

definition make_ok :: "int \<Rightarrow> int \<Rightarrow> bool" where
  "make_ok elem_size count \<longleftrightarrow> 0 \<le> count \<and> elem_size * count \<le> 281474976710656"

definition parseKeyList :: "params \<Rightarrow> string \<Rightarrow> ('s, string list) go" where
  "parseKeyList params p =
     (let count = atoi (mget params (p @ ''.[]'')) in
      if make_ok 16 count then
        gret (filter (\<lambda>k. k \<noteq> []) (map (\<lambda>i. mget params (indexed p i)) [0..<nat count]))
      else gpanic)"

text \<open>An owner of the list: its id and its type.\<close>

definition parse_owner :: "params \<Rightarrow> nat \<Rightarrow> (int \<times> string) list" where
  "parse_owner params i =
     (let oid = atoi (mget params (indexed ''owners'' i @ ''.ownerId'')) in
      if oid = 0 then []
      else [(oid, withDefault (mget params (indexed ''owners'' i @ ''.ownerType'')) ''1'')])"

definition parseOwnerList :: "params \<Rightarrow> ('s, (int \<times> string) list) go" where
  "parseOwnerList params =
     (let count = atoi (mget params ''owners.[]'') in
      if make_ok 24 count then gret (concat (map (parse_owner params) [0..<nat count]))
      else gpanic)"

definition noTime :: float64 where
  "noTime = Fin (1979115432438661 / 549755813888)"

definition defaultForKey :: "string \<Rightarrow> float64" where
  "defaultForKey key = (if is_time_key key then noTime else Fin 0)"

subsection \<open>Validation of client input\<close>

text \<open>The reason for a refusal; the empty string is acceptance.\<close>

fun identifier_runes :: "bool \<Rightarrow> nat list \<Rightarrow> string" where
  "identifier_runes rejectSeparators [] = []"
| "identifier_runes rejectSeparators (r # rs) =
     (if r < 32 \<or> r = 127 \<or> r = 61 then ''invalid character''
      else if rejectSeparators \<and> (r = 47 \<or> r = 92) then ''path separator''
      else identifier_runes rejectSeparators rs)"

definition validateLineIdentifier :: "string \<Rightarrow> int \<Rightarrow> bool \<Rightarrow> string" where
  "validateLineIdentifier v maxLen rejectSeparators =
     (if v = [] \<or> trim_space v = [] then ''empty''
      else if 0 < maxLen \<and> maxLen < int (length v) then ''too long''
      else identifier_runes rejectSeparators (runes v))"

definition validateAccountNUID :: "string \<Rightarrow> int \<Rightarrow> string" where
  "validateAccountNUID v maxLen = validateLineIdentifier v maxLen False"

definition persona_rune :: "nat \<Rightarrow> bool" where
  "persona_rune r \<longleftrightarrow> (65 \<le> r \<and> r \<le> 90) \<or> (97 \<le> r \<and> r \<le> 122) \<or> (48 \<le> r \<and> r \<le> 57)
     \<or> r = 95 \<or> r = 46 \<or> r = 45 \<or> r = 32"

definition validatePersonaName :: "string \<Rightarrow> int \<Rightarrow> string" where
  "validatePersonaName v maxLen =
     (let reason = validateLineIdentifier v maxLen True in
      if reason \<noteq> [] then reason
      else if \<exists>r \<in> set (runes v). \<not> persona_rune r then ''unsafe character''
      else [])"

definition maxPasswordBytes :: nat where "maxPasswordBytes = 256"

definition validateAccountPassword :: "string \<Rightarrow> string" where
  "validateAccountPassword v =
     (if v = [] then ''empty''
      else if maxPasswordBytes < length v then ''too long''
      else if \<exists>r \<in> set (runes v). r = 0 \<or> r = 13 \<or> r = 10 then ''invalid character''
      else [])"

subsection \<open>Handlers with a fixed answer\<close>

definition month_name :: "int \<Rightarrow> string" where
  "month_name m = [''Jan'', ''Feb'', ''Mar'', ''Apr'', ''May'', ''Jun'', ''Jul'', ''Aug'', ''Sep'', ''Oct'',
     ''Nov'', ''Dec''] ! nat (m - 1)"

text \<open>The layout \<open>Jan-02-2006 15:04:05 UTC\<close>.\<close>

definition hello_time :: "int \<Rightarrow> string" where
  "hello_time t = (case year_month_day t of (y, m, d) \<Rightarrow>
     month_name m @ ''-'' @ pad2 d @ ''-'' @ pad4 y @ '' '' @ pad2 (t mod 86400 div 3600) @ '':''
       @ pad2 (t mod 3600 div 60) @ '':'' @ pad2 (t mod 60) @ '' UTC'')"

definition handleHello :: handler where
  "handleHello cfg pkt = gbind (gget (\<lambda>s. clock (db s))) (\<lambda>now.
     reply ''fsys'' pkt (kvs [
       ''TXN'', ''Hello'',
       ''domainPartition.domain'', ''eagames'',
       ''domainPartition.subDomain'', ''takedown-pc'',
       ''curTime'', hello_time now,
       ''activityTimeoutSecs'', ''3600'',
       ''messengerIp'', ''127.0.0.1'',
       ''messengerPort'', ''0'',
       ''theaterIp'', ''127.0.0.1'',
       ''theaterPort'', ''0'']))"

definition handleGetLockerURL :: handler where
  "handleGetLockerURL cfg pkt = reply ''acct'' pkt (kvs [''TXN'', ''GetLockerURL'', ''url'', LockerURL cfg])"

definition handleNuSuggestPersonas :: handler where
  "handleNuSuggestPersonas cfg pkt = reply ''acct'' pkt (kvs [''TXN'', ''NuSuggestPersonas'', ''suggestedNames.[]'', ''0''])"

definition handleNuGetEntitlements :: handler where
  "handleNuGetEntitlements cfg pkt = reply ''acct'' pkt (kvs [''TXN'', ''NuGetEntitlements'', ''entitlements.[]'', ''0''])"

definition handleNuGetEntitlementCount :: handler where
  "handleNuGetEntitlementCount cfg pkt = reply ''acct'' pkt (kvs [''TXN'', ''NuGetEntitlementCount'', ''entitlementCount'', ''0''])"

definition handleGameSpyPreAuth :: handler where
  "handleGameSpyPreAuth cfg pkt = reply ''acct'' pkt (kvs [''TXN'', ''GameSpyPreAuth''])"

definition countries :: "(string \<times> string \<times> string) list" where
  "countries = [
     (''US'', ''United%20States'', ''13''), (''GB'', ''United%20Kingdom'', ''13''),
     (''CA'', ''Canada'', ''13''), (''AU'', ''Australia'', ''15''), (''DE'', ''Germany'', ''16''),
     (''FR'', ''France'', ''15''), (''ES'', ''Spain'', ''14''), (''IT'', ''Italy'', ''14''),
     (''NL'', ''Netherlands'', ''16''), (''SE'', ''Sweden'', ''13''), (''NO'', ''Norway'', ''15''),
     (''DK'', ''Denmark'', ''13''), (''FI'', ''Finland'', ''13''), (''JP'', ''Japan'', ''13''),
     (''BR'', ''Brazil'', ''13''), (''MX'', ''Mexico'', ''13''), (''PL'', ''Poland'', ''13''),
     (''RU'', ''Russia'', ''14''), (''KR'', ''South%20Korea'', ''14''), (''NZ'', ''New%20Zealand'', ''13''),
     (''AT'', ''Austria'', ''14''), (''BE'', ''Belgium'', ''13''), (''CH'', ''Switzerland'', ''13''),
     (''IE'', ''Ireland'', ''13''), (''PT'', ''Portugal'', ''13''), (''CZ'', ''Czech%20Republic'', ''15'')]"

definition handleGetCountryList :: handler where
  "handleGetCountryList cfg pkt = reply ''acct'' pkt
     (kvs [''TXN'', ''GetCountryList'', ''countryList.[]'', itoa (int (length countries))] @
      concat (map (\<lambda>(i, iso, desc, age). kvs [
        indexed ''countryList'' i @ ''.ISOCode'', iso,
        indexed ''countryList'' i @ ''.description'', desc,
        indexed ''countryList'' i @ ''.registrationAgeLimit'', age])
        (zip [0..<length countries] countries)))"

definition tos :: string where
  "tos = ''MedgeNet%20-%20Terms%20of%20Service.%20This%20is%20an%20unofficial%20server%20for%20Mirror's%20Edge.%20It%20is%20not%20affiliated%20with%20or%20endorsed%20by%20Electronic%20Arts.%20Use%20the%20service%20respectfully.''"

definition handleNuGetTos :: handler where
  "handleNuGetTos cfg pkt = reply ''acct'' pkt (kvs [''TXN'', ''NuGetTos'', ''tos'', tos])"

definition handleSetPresenceStatus :: handler where
  "handleSetPresenceStatus cfg pkt = reply ''pres'' pkt (kvs [''TXN'', ''SetPresenceStatus''])"

definition handlePresenceSubscribe :: handler where
  "handlePresenceSubscribe cfg pkt = reply ''pres'' pkt (kvs [''TXN'', ''PresenceSubscribe'', ''responses.[]'', ''0''])"

definition handleModifySettings :: handler where
  "handleModifySettings cfg pkt = reply ''xmsg'' pkt (kvs [''TXN'', ''ModifySettings''])"

definition handleGetMessages :: handler where
  "handleGetMessages cfg pkt = reply ''xmsg'' pkt (kvs [''TXN'', ''GetMessages'', ''messages.[]'', ''0''])"

subsection \<open>Accounts and login\<close>

definition loginResponse :: "packet \<Rightarrow> Account \<Rightarrow> string \<Rightarrow> string fesl" where
  "loginResponse pkt account encryptedLoginInfo =
     gbind (gmodify (\<lambda>s. s\<lparr>sess := (sess s)\<lparr>accountID := acc_ID account, session_nuid := acc_NUID account\<rparr>\<rparr>)) (\<lambda>_.
     gbind (randomHex 20) (\<lambda>key.
     gbind (gmodify (\<lambda>s. s\<lparr>sess := (sess s)\<lparr>lkey := key\<rparr>\<rparr>)) (\<lambda>_.
     reply ''acct'' pkt (kvs [
         ''TXN'', ''NuLogin'',
         ''lkey'', key,
         ''nuid'', acc_NUID account,
         ''profileId'', itoa64 (acc_ID account),
         ''userId'', itoa64 (acc_ID account)] @
       (if encryptedLoginInfo \<noteq> [] then [KV ''encryptedLoginInfo'' encryptedLoginInfo] else [])))))"

definition handleNuLogin :: handler where
  "handleNuLogin cfg pkt =
     (let p = ParamsMap (Params pkt); token = mget p ''encryptedInfo'';
          refused = reply ''acct'' pkt (kvs [''TXN'', ''NuLogin'', ''errorCode'', ''122'']) in
      if token \<noteq> [] then
        gbind (on_store (AccountByLoginToken token)) (\<lambda>account. case account of
            None \<Rightarrow> refused
          | Some account \<Rightarrow> loginResponse pkt account [])
      else
        gbind (on_store (ValidateAccount (mget p ''nuid'') (mget p ''password''))) (\<lambda>account. case account of
            None \<Rightarrow> refused
          | Some account \<Rightarrow>
              gbind (if mget p ''returnEncryptedInfo'' = ''1'' then on_store (IssueLoginToken (acc_ID account))
                     else gret []) (\<lambda>encryptedLoginInfo.
              loginResponse pkt account encryptedLoginInfo)))"

definition handleNuAddAccount :: handler where
  "handleNuAddAccount cfg pkt =
     (let p = ParamsMap (Params pkt); nuid = mget p ''nuid''; password = mget p ''password'';
          refused = reply ''acct'' pkt (kvs [''TXN'', ''NuAddAccount'', ''errorCode'', ''122'']) in
      if validateAccountNUID nuid (MaxIdentifierLength cfg) \<noteq> [] then refused
      else if validateAccountPassword password \<noteq> [] then refused
      else gtry (on_store (CreateAccount nuid password))
        (\<lambda>err. if err = ErrAccountExists then refused else gfail err)
        (\<lambda>account. case account of
            None \<Rightarrow> refused
          | Some _ \<Rightarrow> reply ''acct'' pkt (kvs [''TXN'', ''NuAddAccount''])))"

subsection \<open>Personas\<close>

definition handleNuGetPersonas :: handler where
  "handleNuGetPersonas cfg pkt = gbind (gget (\<lambda>s. accountID (sess s))) (\<lambda>account.
     if account = 0 then reply ''acct'' pkt (kvs [''TXN'', ''NuGetPersonas'', ''personas.[]'', ''0''])
     else gbind (on_store (Personas account)) (\<lambda>ps.
       reply ''acct'' pkt (kvs [''TXN'', ''NuGetPersonas'', ''personas.[]'', itoa (int (length ps))] @
         map (\<lambda>(i, persona). KV (indexed ''personas'' i) (per_Name persona)) (zip [0..<length ps] ps))))"

definition handleNuLoginPersona :: handler where
  "handleNuLoginPersona cfg pkt = gbind (gget (\<lambda>s. accountID (sess s))) (\<lambda>account.
     let name = mget (ParamsMap (Params pkt)) ''name'';
         refused = reply ''acct'' pkt (kvs [''TXN'', ''NuLoginPersona'', ''errorCode'', ''122'']) in
     if account = 0 then reply ''acct'' pkt (kvs [''TXN'', ''NuLoginPersona''])
     else if validatePersonaName name (MaxIdentifierLength cfg) \<noteq> [] then refused
     else gtry (on_store (GetOrCreatePersona account name))
       (\<lambda>err. if err = ErrPersonaNameTaken then refused else gfail err)
       (\<lambda>persona.
         gbind (gmodify (\<lambda>s. s\<lparr>sess := (sess s)\<lparr>personaID := per_ID persona, personaName := per_Name persona\<rparr>\<rparr>)) (\<lambda>_.
         gbind (randomHex 20) (\<lambda>key.
         gbind (gmodify (\<lambda>s. s\<lparr>sess := (sess s)\<lparr>lkey := key\<rparr>\<rparr>)) (\<lambda>_.
         reply ''acct'' pkt (kvs [
           ''TXN'', ''NuLoginPersona'',
           ''lkey'', key,
           ''profileId'', itoa64 (per_ID persona),
           ''userId'', itoa64 account]))))))"

definition handleNuAddPersona :: handler where
  "handleNuAddPersona cfg pkt = gbind (gget (\<lambda>s. accountID (sess s))) (\<lambda>account.
     let name = mget (ParamsMap (Params pkt)) ''name'';
         refused = reply ''acct'' pkt (kvs [''TXN'', ''NuAddPersona'', ''errorCode'', ''122'']);
         added = reply ''acct'' pkt (kvs [''TXN'', ''NuAddPersona'']) in
     if account \<noteq> 0 then
       (if validatePersonaName name (MaxIdentifierLength cfg) \<noteq> [] then refused
        else gtry (on_store (GetOrCreatePersona account name))
          (\<lambda>err. if err = ErrPersonaNameTaken then refused else gfail err)
          (\<lambda>_. added))
     else added)"

definition lookup_user :: "params \<Rightarrow> nat \<Rightarrow> kv list \<Rightarrow> kv list fesl" where
  "lookup_user p i resp =
     (let name = mget p (indexed ''userInfo'' i @ ''.userName'') in
      gbind (on_store (LookupPersonaByName name)) (\<lambda>persona.
      gret (resp @ kvs [
        indexed ''userInfo'' i @ ''.userName'', (case persona of Some q \<Rightarrow> per_Name q | None \<Rightarrow> name),
        indexed ''userInfo'' i @ ''.namespace'', [],
        indexed ''userInfo'' i @ ''.userId'', (case persona of Some q \<Rightarrow> itoa64 (per_ID q) | None \<Rightarrow> ''0'')])))"

definition handleNuLookupUserInfo :: handler where
  "handleNuLookupUserInfo cfg pkt =
     (let p = ParamsMap (Params pkt); count = atoi (mget p ''userInfo.[]'') in
      gbind (gfold (lookup_user p) [0..<nat count]
        (kvs [''TXN'', ''NuLookupUserInfo'', ''userInfo.[]'', itoa count])) (\<lambda>resp.
      reply ''acct'' pkt resp))"

subsection \<open>The session invariant\<close>

text \<open>
  What a session holds exists: its account and its persona, when it has them. \<open>session_with A P\<close> adds
  accounts and personas that the running handler has seen.
\<close>

definition held :: "int \<Rightarrow> int set" where
  "held i = (if i = 0 then {} else {i})"

definition session_with :: "int set \<Rightarrow> int set \<Rightarrow> server_state \<Rightarrow> bool" where
  "session_with A P s \<longleftrightarrow>
     db_ok (A \<union> held (accountID (sess s))) (P \<union> held (personaID (sess s))) (db s)"

abbreviation session_ok :: "server_state \<Rightarrow> bool" where
  "session_ok \<equiv> session_with {} {}"

lemma session_with_mono: "session_with A P s \<Longrightarrow> A' \<subseteq> A \<Longrightarrow> P' \<subseteq> P \<Longrightarrow> session_with A' P' s"
  by (auto simp: session_with_def db_ok_def)

lemma triple_on_store:
  assumes "\<And>A' P'. A \<subseteq> A' \<Longrightarrow> P \<subseteq> P' \<Longrightarrow>
    triple (db_ok A' P') m (\<lambda>x. db_ok (A' \<union> fA x) (P' \<union> fP x)) (db_ok A' P')"
  shows "triple (session_with A P) (on_store m) (\<lambda>x. session_with (A \<union> fA x) (P \<union> fP x)) (session_with A P)"
proof -
  have "case on_store m s of (Ret x, s') \<Rightarrow> session_with (A \<union> fA x) (P \<union> fP x) s' | (_, s') \<Rightarrow> session_with A P s'"
    if "session_with A P s" for s
    using assms [of "A \<union> held (accountID (sess s))" "P \<union> held (personaID (sess s))"] that
    by (fastforce simp: triple_def session_with_def on_store_def Un_ac split: prod.splits outcome.splits)
  then show ?thesis by (simp add: triple_def)
qed

lemma keeps_on_store:
  assumes "\<And>A' P'. A \<subseteq> A' \<Longrightarrow> P \<subseteq> P' \<Longrightarrow> keeps (db_ok A' P') m"
  shows "keeps (session_with A P) (on_store m)"
  using triple_on_store [of A P m "\<lambda>_. {}" "\<lambda>_. {}"] assms by (simp add: keeps_triple)

lemma keeps_on_store_plain [keeps_intro]:
  "(\<And>A P. keeps (db_ok A P) m) \<Longrightarrow> keeps (session_with A P) (on_store m)"
  by (rule keeps_on_store)

lemma keeps_reply [keeps_intro]: "keeps I (reply t pkt params)"
  unfolding reply_def by (rule keeps_gret)

lemma keeps_randomHex [keeps_intro]: "keeps (session_with A P) (randomHex n)"
  unfolding randomHex_def by (intro keeps_intro)

lemma keeps_parseKeyList [keeps_intro]: "keeps I (parseKeyList params p)"
  unfolding parseKeyList_def by (intro keeps_intro)

lemma keeps_parseOwnerList [keeps_intro]: "keeps I (parseOwnerList params)"
  unfolding parseOwnerList_def by (intro keeps_intro)

text \<open>Reading the session's own ids.\<close>

lemma triple_account:
  "triple (session_with A P) (gget (\<lambda>s. accountID (sess s))) (\<lambda>x. session_with (A \<union> held x) P) (session_with A P)"
  by (simp add: triple_def go_run session_with_def Un_ac)

lemma triple_persona:
  "triple (session_with A P) (gget (\<lambda>s. personaID (sess s))) (\<lambda>x. session_with A (P \<union> held x)) (session_with A P)"
  by (simp add: triple_def go_run session_with_def Un_ac)

lemma triple_with:
  assumes "keeps (session_with A' P') m" "A \<subseteq> A'" "P \<subseteq> P'"
  shows "triple (session_with A' P') m (\<lambda>_. session_with A P) (session_with A P)"
  using assms(1) by (rule triple_keeps) (assumption, erule session_with_mono [OF _ assms(2,3)])

lemma fixed_answers [keeps_intro]:
  "keeps I (handleHello cfg pkt)" "keeps I (handleGetLockerURL cfg pkt)"
  "keeps I (handleNuSuggestPersonas cfg pkt)" "keeps I (handleNuGetEntitlements cfg pkt)"
  "keeps I (handleNuGetEntitlementCount cfg pkt)" "keeps I (handleGameSpyPreAuth cfg pkt)"
  "keeps I (handleGetCountryList cfg pkt)" "keeps I (handleNuGetTos cfg pkt)"
  "keeps I (handleSetPresenceStatus cfg pkt)" "keeps I (handlePresenceSubscribe cfg pkt)"
  "keeps I (handleModifySettings cfg pkt)" "keeps I (handleGetMessages cfg pkt)"
  unfolding handleHello_def handleGetLockerURL_def handleNuSuggestPersonas_def handleNuGetEntitlements_def
    handleNuGetEntitlementCount_def handleGameSpyPreAuth_def handleGetCountryList_def handleNuGetTos_def
    handleSetPresenceStatus_def handlePresenceSubscribe_def handleModifySettings_def handleGetMessages_def
  by (intro keeps_intro)+

lemma keeps_set_account:
  "aid \<in> A \<Longrightarrow> keeps (session_with A P)
     (gmodify (\<lambda>s. s\<lparr>sess := (sess s)\<lparr>accountID := aid, session_nuid := n\<rparr>\<rparr>))"
  by (rule keeps_gmodify) (auto simp: session_with_def db_ok_def held_def)

lemma keeps_set_persona:
  "pid \<in> P \<Longrightarrow> keeps (session_with A P)
     (gmodify (\<lambda>s. s\<lparr>sess := (sess s)\<lparr>personaID := pid, personaName := n\<rparr>\<rparr>))"
  by (rule keeps_gmodify) (auto simp: session_with_def db_ok_def held_def)

lemma keeps_set_lkey [keeps_intro]:
  "keeps (session_with A P) (gmodify (\<lambda>s. s\<lparr>sess := (sess s)\<lparr>lkey := key\<rparr>\<rparr>))"
  by (rule keeps_gmodify) (simp add: session_with_def)

lemma loginResponse_ok: "acc_ID a \<in> A \<Longrightarrow> keeps (session_with A P) (loginResponse pkt a info)"
  unfolding loginResponse_def by (intro keeps_intro keeps_set_account)

definition seen_account :: "Account option \<Rightarrow> int set" where
  "seen_account r = (case r of None \<Rightarrow> {} | Some a \<Rightarrow> {acc_ID a})"

lemma triple_account_store:
  assumes "\<And>A P. triple (db_ok A P) m (account_seen A P) (db_ok A P)"
  shows "triple (session_with A P) (on_store m) (\<lambda>r. session_with (A \<union> seen_account r) P) (session_with A P)"
  using triple_on_store [of A P m seen_account "\<lambda>_. {}"] assms
  by (simp add: account_seen_def [abs_def] seen_account_def [abs_def])

lemma handleNuLogin_ok [keeps_intro]: "keeps (session_with A P) (handleNuLogin cfg pkt)"
proof -
  have issue: "keeps (session_with A P) (on_store (IssueLoginToken aid))" if "aid \<in> A" for A P aid
    using that by (intro keeps_on_store keeps_IssueLoginToken) auto
  have refused: "triple (session_with (A \<union> B) P) (reply t p ps) (\<lambda>_. session_with A P) (session_with A P)" for B t p ps
    by (intro triple_with keeps_intro) auto
  have "triple (session_with (A \<union> seen_account r) P) (loginResponse p a info) (\<lambda>_. session_with A P) (session_with A P)"
    if "r = Some a" for r a info p
    using that by (intro triple_with loginResponse_ok) (auto simp: seen_account_def)
  moreover have "triple (session_with (A \<union> seen_account r) P)
      (gbind (if b then on_store (IssueLoginToken (acc_ID a)) else gret []) (loginResponse p a))
      (\<lambda>_. session_with A P) (session_with A P)" if "r = Some a" for r a b p
    using that by (intro triple_with keeps_intro issue loginResponse_ok) (auto simp: seen_account_def)
  ultimately show ?thesis unfolding handleNuLogin_def Let_def
    by (intro keeps_if keeps_gbind_triple [OF triple_account_store] triple_case_option
        triple_AccountByLoginToken triple_ValidateAccount refused)
qed

lemma handleNuAddAccount_ok [keeps_intro]: "keeps (session_with A P) (handleNuAddAccount cfg pkt)"
  unfolding handleNuAddAccount_def Let_def by (intro keeps_intro)

lemma handleNuGetPersonas_ok [keeps_intro]: "keeps (session_with A P) (handleNuGetPersonas cfg pkt)"
  unfolding handleNuGetPersonas_def by (intro keeps_intro)

lemma triple_persona_store:
  assumes "account \<noteq> 0"
  shows "triple (session_with (A \<union> held account) P) (on_store (GetOrCreatePersona account name))
    (\<lambda>p. session_with (A \<union> held account) (P \<union> {per_ID p})) (session_with (A \<union> held account) P)"
  using triple_on_store [of "A \<union> held account" P "GetOrCreatePersona account name" "\<lambda>_. {}" "\<lambda>p. {per_ID p}"]
    triple_GetOrCreatePersona [of account] assms
  by (simp add: held_def)

lemma handleNuLoginPersona_ok [keeps_intro]: "keeps (session_with A P) (handleNuLoginPersona cfg pkt)"
  unfolding handleNuLoginPersona_def Let_def
  by (intro keeps_gbind_triple [OF triple_account] triple_if triple_gtry [OF triple_persona_store]
        triple_with keeps_intro keeps_set_persona)
     (auto intro: session_with_mono)

lemma handleNuAddPersona_ok [keeps_intro]: "keeps (session_with A P) (handleNuAddPersona cfg pkt)"
  unfolding handleNuAddPersona_def Let_def
  by (intro keeps_gbind_triple [OF triple_account] triple_if triple_gtry [OF triple_persona_store]
        triple_with keeps_intro)
     (auto intro: session_with_mono)

lemma handleNuLookupUserInfo_ok [keeps_intro]: "keeps (session_with A P) (handleNuLookupUserInfo cfg pkt)"
  unfolding handleNuLookupUserInfo_def lookup_user_def by (intro keeps_intro)

subsection \<open>What the validators accept\<close>

definition bad_identifier :: "bool \<Rightarrow> nat \<Rightarrow> bool" where
  "bad_identifier sep r \<longleftrightarrow> r < 32 \<or> r = 127 \<or> r = 61 \<or> (sep \<and> (r = 47 \<or> r = 92))"

lemma identifier_runes_Nil: "identifier_runes sep rs = [] \<longleftrightarrow> \<not> (\<exists>r \<in> set rs. bad_identifier sep r)"
  by (induction rs) (auto simp: bad_identifier_def)

lemma identifier_bytes:
  "identifier_runes sep (runes v) = [] \<longleftrightarrow> (\<forall>c \<in> set v. \<not> bad_identifier sep (ord c))"
proof -
  have "n < 128" if "bad_identifier sep n" for n using that by (auto simp: bad_identifier_def)
  then show ?thesis using runes_no_ascii [of "bad_identifier sep" v] by (simp add: identifier_runes_Nil)
qed

lemma ord_literals:
  "ord c = 0 \<longleftrightarrow> c = NUL" "ord c = 13 \<longleftrightarrow> c = CR" "ord c = 10 \<longleftrightarrow> c = LF"
  "ord c = 32 \<longleftrightarrow> c = CHR '' ''" "ord c = 61 \<longleftrightarrow> c = CHR ''=''"
proof -
  have "ord NUL = 0" "ord CR = 13" "ord LF = 10" "ord (CHR '' '') = 32" "ord (CHR ''='') = 61"
    by (simp_all add: ord_def)
  then show "ord c = 0 \<longleftrightarrow> c = NUL" "ord c = 13 \<longleftrightarrow> c = CR" "ord c = 10 \<longleftrightarrow> c = LF"
    "ord c = 32 \<longleftrightarrow> c = CHR '' ''" "ord c = 61 \<longleftrightarrow> c = CHR ''=''"
    using ord_eq_iff by metis+
qed

lemma trim_space_Nil [simp]: "trim_space [] = []"
  using trim_space_length [of "[]"] by simp

lemma validateLineIdentifier_iff:
  "validateLineIdentifier v m sep = [] \<longleftrightarrow>
     trim_space v \<noteq> [] \<and> (0 < m \<longrightarrow> int (length v) \<le> m) \<and> (\<forall>c \<in> set v. \<not> bad_identifier sep (ord c))"
  by (auto simp: validateLineIdentifier_def identifier_bytes)

lemma persona_bytes: "(\<forall>r \<in> set (runes v). persona_rune r) \<longleftrightarrow> (\<forall>c \<in> set v. persona_rune (ord c))"
  by (rule runes_all_ascii) (auto simp: persona_rune_def)

lemma persona_trim:
  assumes "\<forall>c \<in> set v. persona_rune (ord c)"
  shows "trim_space v = [] \<longleftrightarrow> (\<forall>c \<in> set v. c = CHR '' '')"
proof -
  have "ascii v" using assms by (auto simp: ascii_def persona_rune_def)
  moreover have "sp c \<longleftrightarrow> c = CHR '' ''" if "persona_rune (ord c)" for c
    using that unfolding ord_literals(4) [symmetric] by (auto simp: persona_rune_def is_space_def)
  ultimately show ?thesis using assms by (auto simp: trim_space_Nil_iff)
qed

text \<open>
  What the validators let through, byte for byte although they look at runes. An account id is
  not blank, within the configured length, and free of control characters and of \<open>=\<close>; a password
  has 1 to 256 bytes and no NUL, CR or LF; a persona name consists of letters, digits, \<open>_\<close>, \<open>.\<close>, \<open>-\<close>
  and blanks, and not of blanks alone. In particular none of them can break the line format of a
  packet, and a persona name cannot contain a path separator.
\<close>

theorem validators_exact:
  "(validateAccountNUID v m = [] \<longleftrightarrow>
      trim_space v \<noteq> [] \<and> (0 < m \<longrightarrow> int (length v) \<le> m)
      \<and> (\<forall>c \<in> set v. 32 \<le> ord c \<and> ord c \<noteq> 127 \<and> c \<noteq> CHR ''=''))
   \<and> (validateAccountPassword v = [] \<longleftrightarrow>
      v \<noteq> [] \<and> length v \<le> 256 \<and> NUL \<notin> set v \<and> CR \<notin> set v \<and> LF \<notin> set v)
   \<and> (validatePersonaName v m = [] \<longleftrightarrow>
      (\<exists>c \<in> set v. c \<noteq> CHR '' '') \<and> (0 < m \<longrightarrow> int (length v) \<le> m) \<and> (\<forall>c \<in> set v. persona_rune (ord c)))"
proof (intro conjI)
  have "\<not> bad_identifier False (ord c) \<longleftrightarrow> 32 \<le> ord c \<and> ord c \<noteq> 127 \<and> c \<noteq> CHR ''=''" for c
    unfolding ord_literals(5) [symmetric] by (auto simp: bad_identifier_def)
  then show "validateAccountNUID v m = [] \<longleftrightarrow>
      trim_space v \<noteq> [] \<and> (0 < m \<longrightarrow> int (length v) \<le> m)
      \<and> (\<forall>c \<in> set v. 32 \<le> ord c \<and> ord c \<noteq> 127 \<and> c \<noteq> CHR ''='')"
    by (simp add: validateAccountNUID_def validateLineIdentifier_iff)
  have "(\<exists>r \<in> set (runes v). r = 0 \<or> r = 13 \<or> r = 10) \<longleftrightarrow> (\<exists>c \<in> set v. ord c = 0 \<or> ord c = 13 \<or> ord c = 10)"
    by (rule runes_no_ascii) auto
  then have "(\<exists>r \<in> set (runes v). r = 0 \<or> r = 13 \<or> r = 10) \<longleftrightarrow> NUL \<in> set v \<or> CR \<in> set v \<or> LF \<in> set v"
    by (auto simp: ord_literals)
  then show "validateAccountPassword v = [] \<longleftrightarrow>
      v \<noteq> [] \<and> length v \<le> 256 \<and> NUL \<notin> set v \<and> CR \<notin> set v \<and> LF \<notin> set v"
    by (auto simp: validateAccountPassword_def maxPasswordBytes_def simp del: One_nat_def)
  have "\<not> bad_identifier True r" if "persona_rune r" for r
    using that by (auto simp: persona_rune_def bad_identifier_def)
  then show "validatePersonaName v m = [] \<longleftrightarrow>
      (\<exists>c \<in> set v. c \<noteq> CHR '' '') \<and> (0 < m \<longrightarrow> int (length v) \<le> m) \<and> (\<forall>c \<in> set v. persona_rune (ord c))"
    using persona_bytes [of v] persona_trim [of v]
    by (cases "\<forall>c \<in> set v. persona_rune (ord c)") (auto simp: validatePersonaName_def Let_def validateLineIdentifier_iff)
qed

theorem validators_exact_witness:
  "validateAccountPassword ''runner'' = [] \<and> validateAccountPassword ''a\<newline>b'' \<noteq> []
   \<and> validatePersonaName ''Faith_1'' 16 = [] \<and> validatePersonaName ''../x'' 16 \<noteq> []
   \<and> validateAccountNUID ''a=b'' 64 \<noteq> []"
proof -
  have "validateAccountPassword ''runner'' = []"
    using validators_exact [of "''runner''" 64] by simp
  moreover have "validateAccountPassword ''a\<newline>b'' \<noteq> []"
    using validators_exact [of "''a\<newline>b''" 64] by simp
  moreover have "\<forall>c \<in> set ''Faith_1''. persona_rune (ord c)" "\<not> persona_rune (ord (CHR ''/''))" by code_simp+
  then have "validatePersonaName ''Faith_1'' 16 = []" "validatePersonaName ''../x'' 16 \<noteq> []"
    using validators_exact [of "''Faith_1''" 16] validators_exact [of "''../x''" 16] by auto
  moreover have "validateAccountNUID ''a=b'' 64 \<noteq> []"
    using validators_exact [of "''a=b''" 64] by simp
  ultimately show ?thesis by blast
qed

end
