(* ===== verification/Associations.thy ===== *)
theory Associations
  imports Session
begin

text \<open>
  \<open>server/fesl/associations.go\<close>: the friend-list transactions. A request names an owner and a member;
  it is checked, applied and answered one by one, and the answer ends with the owner's list.
\<close>

subsection \<open>Requests and results\<close>

record memberRow =
  mr_id :: int
  mr_name :: string
  mr_typ :: string

record associationRequest =
  ar_index :: nat
  ar_ownerID :: int
  ar_responseOwnerID :: int
  ar_ownerType :: string
  ar_memberID :: int
  ar_memberType :: string

text \<open>The result has the fields of the request and the outcome.\<close>

record associationResult = associationRequest +
  ar_outcome :: string

definition associationOutcomeOK :: string where "associationOutcomeOK = ''0''"
definition associationOutcomeRefused :: string where "associationOutcomeRefused = ''1''"

definition associationType :: "params \<Rightarrow> string" where
  "associationType p = withDefault (mget p ''type'') ''PlasmaFriends''"

definition normalizeAssociationOwnerID :: "Session \<Rightarrow> int \<Rightarrow> int" where
  "normalizeAssociationOwnerID s ownerID =
     (if ownerID = 0 then personaID s
      else if personaID s \<noteq> 0 \<and> accountID s \<noteq> 0 \<and> ownerID = accountID s then personaID s
      else ownerID)"

definition parseAssociationRequest :: "Session \<Rightarrow> params \<Rightarrow> string \<Rightarrow> nat \<Rightarrow> associationRequest" where
  "parseAssociationRequest s p requestPrefix i =
     (let responseOwner = atoi (mget p (indexed requestPrefix i @ ''.owner.id''));
          owner = normalizeAssociationOwnerID s responseOwner
      in \<lparr>ar_index = i,
          ar_ownerID = owner,
          ar_responseOwnerID = (if responseOwner = 0 then owner else responseOwner),
          ar_ownerType = withDefault (mget p (indexed requestPrefix i @ ''.owner.type'')) ''1'',
          ar_memberID = atoi (mget p (indexed requestPrefix i @ ''.member.id'')),
          ar_memberType = withDefault (mget p (indexed requestPrefix i @ ''.member.type'')) ''1''\<rparr>)"

text \<open>The outcome and the reason of a refusal; the checks run in the order of the code.\<close>

definition validateAssociationRequest :: "associationRequest \<Rightarrow> bool \<Rightarrow> (string \<times> string) fesl" where
  "validateAssociationRequest req rejectSelf =
     (let refused = (\<lambda>reason. gret (associationOutcomeRefused, reason)) in
      gbind (gget sess) (\<lambda>s.
      if ar_ownerID req = 0 then refused ''missing owner persona''
      else if ar_memberID req = 0 then refused ''missing member persona''
      else if rejectSelf \<and> ar_ownerID req = ar_memberID req then refused ''self association''
      else if IsHistoricalOwner (ar_ownerID req) then refused ''historical owner persona''
      else if IsHistoricalOwner (ar_memberID req) then refused ''historical member persona''
      else if personaID s \<noteq> 0 \<and> ar_ownerID req \<noteq> personaID s then
        refused ''owner does not match logged-in persona''
      else
        gbind (on_store (PersonaExists (ar_ownerID req))) (\<lambda>ownerExists.
        if \<not> ownerExists then refused ''owner persona does not exist''
        else
          gbind (on_store (PersonaExists (ar_memberID req))) (\<lambda>memberExists.
          if \<not> memberExists then refused ''member persona does not exist''
          else gret (associationOutcomeOK, [])))))"

subsection \<open>Answers\<close>

definition baseAssociationResponse :: "string \<Rightarrow> params \<Rightarrow> string \<Rightarrow> string \<Rightarrow> string \<Rightarrow> kv list" where
  "baseAssociationResponse txn p assocType ownerID ownerType = kvs [
     ''TXN'', txn,
     ''domainPartition.domain'', withDefault (mget p ''domainPartition.domain'') ''eagames'',
     ''domainPartition.subDomain'', withDefault (mget p ''domainPartition.subDomain'') ''takedown-pc'',
     ''owner.id'', ownerID,
     ''owner.type'', ownerType,
     ''type'', assocType]"

definition emitMembers :: "memberRow list \<Rightarrow> kv list" where
  "emitMembers members = KV ''members.[]'' (itoa (int (length members))) #
     concat (map (\<lambda>(i, m). kvs [
       indexed ''members'' i @ ''.id'', itoa64 (mr_id m),
       indexed ''members'' i @ ''.name'', mr_name m,
       indexed ''members'' i @ ''.type'', withDefault (mr_typ m) ''1''])
       (zip [0..<length members] members))"

definition member_rows :: "Association list \<Rightarrow> memberRow list" where
  "member_rows assocs = map (\<lambda>a. \<lparr>mr_id = as_ID a, mr_name = as_Name a, mr_typ = ''1''\<rparr>) assocs"

definition emitAssociationResult ::
  "params \<Rightarrow> string \<Rightarrow> string \<Rightarrow> nat \<times> associationResult \<Rightarrow> kv list \<Rightarrow> kv list fesl" where
  "emitAssociationResult p requestPrefix assocType = (\<lambda>(i, result) resp.
     gbind (on_store (GetAssociations (ar_ownerID result) assocType)) (\<lambda>lst.
     gbind (on_store (PersonaByID (ar_ownerID result))) (\<lambda>owner.
     gbind (on_store (PersonaByID (ar_memberID result))) (\<lambda>member.
     let ownerName = (case owner of None \<Rightarrow> [] | Some q \<Rightarrow> per_Name q);
         memberName = (case member of None \<Rightarrow> [] | Some q \<Rightarrow> per_Name q);
         memberCreated = (case member of None \<Rightarrow> [] | Some q \<Rightarrow> per_CreatedAt q);
         pre = indexed ''result'' i in
     gret (resp @ kvs [
       pre @ ''.owner.id'', itoa64 (ar_responseOwnerID result),
       pre @ ''.owner.type'', ar_ownerType result,
       pre @ ''.owner.name'', ownerName,
       pre @ ''.owner.xuid'', itoa64 (ar_responseOwnerID result),
       pre @ ''.member.id'', itoa64 (ar_memberID result),
       pre @ ''.member.type'', ar_memberType result,
       pre @ ''.member.name'', memberName,
       pre @ ''.member.xuid'', itoa64 (ar_memberID result),
       pre @ ''.member.created'', memberCreated,
       pre @ ''.member.modified'', [],
       pre @ ''.mutual'', withDefault (mget p (indexed requestPrefix (ar_index result) @ ''.mutual'')) ''0'',
       pre @ ''.outcome'', ar_outcome result,
       pre @ ''.listSize'', itoa (int (length lst))])))))"

definition associationMutationResponse ::
  "packet \<Rightarrow> string \<Rightarrow> string \<Rightarrow> params \<Rightarrow> string \<Rightarrow> int \<Rightarrow> int \<Rightarrow> string \<Rightarrow> associationResult list \<Rightarrow> string fesl" where
  "associationMutationResponse pkt txn requestPrefix p assocType ownerID0 responseOwnerID0 ownerType results =
     gbind (gget (\<lambda>s. personaID (sess s))) (\<lambda>persona.
     let ownerID = (if ownerID0 = 0 then persona else ownerID0);
         responseOwnerID = (if responseOwnerID0 = 0 then ownerID else responseOwnerID0);
         resp = baseAssociationResponse txn p assocType (itoa64 responseOwnerID) ownerType @
           [KV ''result.[]'' (itoa (int (length results)))] in
     gbind (gfold (emitAssociationResult p requestPrefix assocType) (zip [0..<length results] results) resp) (\<lambda>resp.
     gbind (if ownerID \<noteq> 0 then on_store (GetAssociations ownerID assocType) else gret []) (\<lambda>assocs.
     reply ''asso'' pkt (resp @ emitMembers (member_rows assocs)))))"

subsection \<open>Handlers\<close>

definition handleGetAssociations :: handler where
  "handleGetAssociations cfg pkt =
     (let p = ParamsMap (Params pkt);
          assocType = associationType p;
          ownerID = withDefault (mget p ''owner.id'') ''0'';
          ownerType = withDefault (mget p ''owner.type'') ''1'' in
      gbind (gget (\<lambda>s. personaID (sess s))) (\<lambda>persona.
      gbind (if persona \<noteq> 0 then on_store (GetAssociations persona assocType) else gret []) (\<lambda>assocs.
      reply ''asso'' pkt (baseAssociationResponse ''GetAssociations'' p assocType ownerID ownerType @
        emitMembers (member_rows assocs)))))"

text \<open>What the loops carry: the owner, the owner to answer, the owner type and the results so far.\<close>

type_synonym assoc_acc = "int \<times> int \<times> string \<times> associationResult list"

definition result_of :: "associationRequest \<Rightarrow> string \<Rightarrow> associationResult" where
  "result_of req outcome = \<lparr>ar_index = ar_index req, ar_ownerID = ar_ownerID req,
     ar_responseOwnerID = ar_responseOwnerID req, ar_ownerType = ar_ownerType req,
     ar_memberID = ar_memberID req, ar_memberType = ar_memberType req, ar_outcome = outcome\<rparr>"

definition add_request :: "params \<Rightarrow> string \<Rightarrow> nat \<Rightarrow> assoc_acc \<Rightarrow> assoc_acc fesl" where
  "add_request p assocType i = (\<lambda>(_, _, _, results).
     gbind (gget sess) (\<lambda>s.
     let req = parseAssociationRequest s p ''addRequests'' i in
     gbind (validateAssociationRequest req True) (\<lambda>(outcome, reason).
     gbind (if outcome = associationOutcomeOK
            then gbind (on_store (AddAssociation (ar_ownerID req) (ar_memberID req) assocType)) (\<lambda>_. gret ())
            else gret ()) (\<lambda>_.
     gret (ar_ownerID req, ar_responseOwnerID req, ar_ownerType req, results @ [result_of req outcome])))))"

definition delete_request :: "params \<Rightarrow> string \<Rightarrow> nat \<Rightarrow> assoc_acc \<Rightarrow> assoc_acc fesl" where
  "delete_request p assocType i = (\<lambda>(_, _, _, results).
     gbind (gget sess) (\<lambda>s.
     let req = parseAssociationRequest s p ''deleteRequests'' i in
     gbind (validateAssociationRequest req False) (\<lambda>(outcome, reason).
     gbind (if outcome = associationOutcomeOK
            then on_store (DeleteAssociation (ar_ownerID req) (ar_memberID req) assocType)
            else gret ()) (\<lambda>_.
     gret (ar_ownerID req, ar_responseOwnerID req, ar_ownerType req, results @ [result_of req outcome])))))"

definition handleAddAssociations :: handler where
  "handleAddAssociations cfg pkt =
     (let p = ParamsMap (Params pkt);
          assocType = associationType p;
          count = atoi (mget p ''addRequests.[]'') in
      gbind (gfold (add_request p assocType) [0..<nat count] (0, 0, ''1'', []))
        (\<lambda>(ownerID, responseOwnerID, ownerType, results).
      associationMutationResponse pkt ''AddAssociations'' ''addRequests'' p assocType ownerID
        responseOwnerID ownerType results))"

definition handleDeleteAssociations :: handler where
  "handleDeleteAssociations cfg pkt =
     (let p = ParamsMap (Params pkt);
          assocType = associationType p;
          count = atoi (mget p ''deleteRequests.[]'') in
      gbind (gfold (delete_request p assocType) [0..<nat count] (0, 0, ''1'', []))
        (\<lambda>(ownerID, responseOwnerID, ownerType, results).
      associationMutationResponse pkt ''DeleteAssociations'' ''deleteRequests'' p assocType ownerID
        responseOwnerID ownerType results))"

subsection \<open>The handlers keep the session invariant\<close>

text \<open>An accepted request names two personas that exist.\<close>

definition request_personas :: "associationRequest \<Rightarrow> string \<times> string \<Rightarrow> int set" where
  "request_personas req r = (if fst r = associationOutcomeOK then {ar_ownerID req, ar_memberID req} else {})"

lemma triple_exists:
  assumes "A0 \<subseteq> A" "P0 \<subseteq> P"
  shows "triple (session_with A P) (on_store (PersonaExists pid))
     (\<lambda>b. session_with A (P \<union> (if b then {pid} else {}))) (session_with A0 P0)"
proof -
  have "triple (session_with A P) (on_store (PersonaExists pid))
      (\<lambda>b. session_with A (P \<union> (if b then {pid} else {}))) (session_with A P)"
    using triple_on_store [of A P "PersonaExists pid" "\<lambda>_. {}" "\<lambda>b. if b then {pid} else {}"] triple_PersonaExists
    by simp
  then show ?thesis
    by (rule triple_conseq) (assumption+, erule session_with_mono [OF _ assms])
qed

lemma triple_read: "triple I (gget f) (\<lambda>_. I) I"
  by (simp add: triple_def go_run)

lemma triple_validate:
  "triple (session_with A P) (validateAssociationRequest req rejectSelf)
     (\<lambda>r. session_with A (P \<union> request_personas req r)) (session_with A P)"
proof -
  let ?Q = "\<lambda>r. session_with A (P \<union> request_personas req r)" and ?I = "session_with A P"
  have refused: "triple (session_with A (P \<union> B)) (gret (associationOutcomeRefused, reason)) ?Q ?I" for B reason
    by (rule triple_gret)
       (auto simp: request_personas_def associationOutcomeOK_def associationOutcomeRefused_def intro: session_with_mono)
  have refused0: "triple ?I (gret (associationOutcomeRefused, reason)) ?Q ?I" for reason
    using refused [of "{}"] by simp
  have ok: "triple (session_with A (P \<union> {ar_ownerID req} \<union> {ar_memberID req})) (gret (associationOutcomeOK, [])) ?Q ?I"
    by (rule triple_gret) (simp add: request_personas_def Un_ac insert_commute)
  have last: "triple (session_with A (P \<union> {ar_ownerID req} \<union> (if b then {ar_memberID req} else {})))
      (if \<not> b then gret (associationOutcomeRefused, ''member persona does not exist'')
       else gret (associationOutcomeOK, [])) ?Q ?I" for b
    using ok refused [of "{ar_ownerID req}"] by (simp add: insert_commute)
  have member: "triple (session_with A (P \<union> (if b then {ar_ownerID req} else {})))
      (if \<not> b then gret (associationOutcomeRefused, ''owner persona does not exist'')
       else gbind (on_store (PersonaExists (ar_memberID req))) (\<lambda>memberExists.
        if \<not> memberExists then gret (associationOutcomeRefused, ''member persona does not exist'')
        else gret (associationOutcomeOK, []))) ?Q ?I" for b
  proof (cases b)
    case True
    have "triple (session_with A (P \<union> {ar_ownerID req})) (gbind (on_store (PersonaExists (ar_memberID req)))
        (\<lambda>memberExists. if \<not> memberExists then gret (associationOutcomeRefused, ''member persona does not exist'')
          else gret (associationOutcomeOK, []))) ?Q ?I"
      by (rule triple_gbind [OF triple_exists last]) auto
    with True show ?thesis by simp
  qed (simp add: refused0)
  show ?thesis unfolding validateAssociationRequest_def Let_def
    by (intro triple_gbind [OF triple_read] triple_if triple_gbind [OF triple_exists] member refused0) auto
qed

lemma keeps_emitAssociationResult [keeps_intro]:
  "keeps (session_with A P) (emitAssociationResult p requestPrefix assocType ir resp)"
  by (cases ir) (auto simp: emitAssociationResult_def Let_def intro!: keeps_intro)

lemma keeps_associationMutationResponse [keeps_intro]:
  "keeps (session_with A P) (associationMutationResponse pkt txn requestPrefix p assocType o1 o2 ot results)"
  unfolding associationMutationResponse_def Let_def by (intro keeps_intro)

lemma handleGetAssociations_ok [keeps_intro]: "keeps (session_with A P) (handleGetAssociations cfg pkt)"
  unfolding handleGetAssociations_def Let_def by (intro keeps_intro)

lemma keeps_add_request [keeps_intro]: "keeps (session_with A P) (add_request p assocType i acc)"
proof -
  have add: "triple (session_with A (P \<union> request_personas req r))
      (gbind (if outcome = associationOutcomeOK
         then gbind (on_store (AddAssociation (ar_ownerID req) (ar_memberID req) assocType)) (\<lambda>_. gret ())
         else gret ()) (\<lambda>_. gret acc')) (\<lambda>_. session_with A P) (session_with A P)"
    if "r = (outcome, reason)" for req r outcome reason and acc' :: assoc_acc
    using that by (intro triple_with)
      (auto simp: request_personas_def intro!: keeps_intro keeps_on_store keeps_AddAssociation)
  show ?thesis unfolding add_request_def Let_def
    by (cases acc)
       (auto intro!: keeps_gbind_triple [OF triple_read] triple_gbind [OF triple_validate] add)
qed

lemma keeps_delete_request [keeps_intro]: "keeps (session_with A P) (delete_request p assocType i acc)"
  unfolding delete_request_def Let_def validateAssociationRequest_def
  by (cases acc) (auto intro!: keeps_intro split: prod.splits)

lemma handleAddAssociations_ok [keeps_intro]: "keeps (session_with A P) (handleAddAssociations cfg pkt)"
  unfolding handleAddAssociations_def Let_def
  by (intro keeps_intro) (auto intro!: keeps_intro split: prod.splits)

lemma handleDeleteAssociations_ok [keeps_intro]: "keeps (session_with A P) (handleDeleteAssociations cfg pkt)"
  unfolding handleDeleteAssociations_def Let_def
  by (intro keeps_intro) (auto intro!: keeps_intro split: prod.splits)

subsection \<open>Whose lists a request can change\<close>

lemma PersonaExists_run: "faults w = [] \<Longrightarrow> PersonaExists pid w = (Ret (pid \<in> persona_ids w), w)"
  by (auto simp: PersonaExists_def go_run query_row_key_None persona_ids_def)

text \<open>The conditions under which a request is accepted.\<close>

definition acceptable :: "server_state \<Rightarrow> associationRequest \<Rightarrow> bool \<Rightarrow> bool" where
  "acceptable s req rejectSelf \<longleftrightarrow>
     ar_ownerID req \<noteq> 0 \<and> ar_memberID req \<noteq> 0
     \<and> \<not> (rejectSelf \<and> ar_ownerID req = ar_memberID req)
     \<and> ar_ownerID req < HistoricalOwnerOffset \<and> ar_memberID req < HistoricalOwnerOffset
     \<and> (personaID (sess s) = 0 \<or> ar_ownerID req = personaID (sess s))
     \<and> ar_ownerID req \<in> persona_ids (db s) \<and> ar_memberID req \<in> persona_ids (db s)"

lemma validate_run:
  assumes "faults (db s) = []"
  shows "\<exists>outcome reason. validateAssociationRequest req rejectSelf s = (Ret (outcome, reason), s)
    \<and> (outcome = associationOutcomeOK \<longleftrightarrow> acceptable s req rejectSelf)"
proof -
  have ex: "on_store (PersonaExists pid) s = (Ret (pid \<in> persona_ids (db s)), s)" for pid
    by (simp add: on_store_def PersonaExists_run [OF assms])
  show ?thesis
    by (auto simp: validateAssociationRequest_def Let_def go_run ex acceptable_def IsHistoricalOwner_def
        associationOutcomeOK_def associationOutcomeRefused_def not_le)
qed

lemma validate_outcomes:
  "validateAssociationRequest req b s = (Ret (outcome, reason), s') \<Longrightarrow>
     outcome = associationOutcomeOK \<or> outcome = associationOutcomeRefused"
  by (auto simp: validateAssociationRequest_def Let_def gbind_returns gret_def split: if_splits)

lemma friends_refine:
  assumes "faults w = []"
  shows "case AddAssociation x y t w of (r, w') \<Rightarrow>
      r = Ret ((x, y, t) \<notin> friend_set w) \<and> friend_set w' = insert (x, y, t) (friend_set w)"
    "case DeleteAssociation x y t w of (r, w') \<Rightarrow> r = Ret () \<and> friend_set w' = friend_set w - {(x, y, t)}"
  using assms
  by (auto simp: AddAssociation_def DeleteAssociation_def go_run Let_def friend_set_def insert_or_ignore_def
      friend_key_def)

lemma friends_only:
  assumes "faults w = []"
  shows "snd (AddAssociation x y t w) = w\<lparr>friends := friends (snd (AddAssociation x y t w))\<rparr>"
    "snd (DeleteAssociation x y t w) = w\<lparr>friends := friends (snd (DeleteAssociation x y t w))\<rparr>"
  using assms by (simp_all add: AddAssociation_def DeleteAssociation_def go_run Let_def)

text \<open>
  C22. One request against a working database. An \<open>addRequests\<close> entry adds the friend exactly when the
  owner (after resolving the session's own ids) and the member are different existing personas, both
  ids are below the offset of imported players, and the owner is the session's persona or the session
  has none; a \<open>deleteRequests\<close> entry removes it under the same conditions, self references allowed.
  Otherwise nothing changes, and nothing but the friend table does in any case; the entry is answered
  with its outcome.
\<close>

theorem association_request_effect:
  assumes "tables_ok (db s)" "faults (db s) = []"
  shows "(let req = parseAssociationRequest (sess s) p ''addRequests'' i; ok = acceptable s req True in
      \<exists>s'. add_request p t i (o1, o2, ot, results) s = (Ret (ar_ownerID req, ar_responseOwnerID req, ar_ownerType req,
          results @ [result_of req (if ok then ''0'' else ''1'')]), s')
        \<and> sess s' = sess s \<and> db s' = (db s)\<lparr>friends := friends (db s')\<rparr>
        \<and> (if ok then friend_set (db s') = insert (ar_ownerID req, ar_memberID req, t) (friend_set (db s)) else s' = s))
    \<and> (let req = parseAssociationRequest (sess s) p ''deleteRequests'' i; ok = acceptable s req False in
      \<exists>s'. delete_request p t i (o1, o2, ot, results) s = (Ret (ar_ownerID req, ar_responseOwnerID req, ar_ownerType req,
          results @ [result_of req (if ok then ''0'' else ''1'')]), s')
        \<and> sess s' = sess s \<and> db s' = (db s)\<lparr>friends := friends (db s')\<rparr>
        \<and> (if ok then friend_set (db s') = friend_set (db s) - {(ar_ownerID req, ar_memberID req, t)} else s' = s))"
proof -
  have v: "\<exists>reason. validateAssociationRequest req b s =
      (Ret (if acceptable s req b then ''0'' else ''1'', reason), s)" for req b
    using validate_run [OF assms(2), of req b] validate_outcomes [of req b s]
    by (fastforce simp: associationOutcomeOK_def associationOutcomeRefused_def)
  have add: "\<exists>b w'. on_store (AddAssociation x y t) s = (Ret b, s\<lparr>db := w'\<rparr>)
      \<and> friend_set w' = insert (x, y, t) (friend_set (db s)) \<and> w' = (db s)\<lparr>friends := friends w'\<rparr>" for x y
    using friends_refine(1) [OF assms(2), of x y t] friends_only(1) [OF assms(2), of x y t] by (auto simp: on_store_def split: prod.splits)
  have del: "\<exists>w'. on_store (DeleteAssociation x y t) s = (Ret (), s\<lparr>db := w'\<rparr>)
      \<and> friend_set w' = friend_set (db s) - {(x, y, t)} \<and> w' = (db s)\<lparr>friends := friends w'\<rparr>" for x y
    using friends_refine(2) [OF assms(2), of x y t] friends_only(2) [OF assms(2), of x y t] by (auto simp: on_store_def split: prod.splits)
  show ?thesis
  proof (intro conjI; unfold Let_def)
    let ?r = "parseAssociationRequest (sess s) p ''addRequests'' i"
    show "\<exists>s'. add_request p t i (o1, o2, ot, results) s = (Ret (ar_ownerID ?r, ar_responseOwnerID ?r, ar_ownerType ?r,
          results @ [result_of ?r (if acceptable s ?r True then ''0'' else ''1'')]), s')
        \<and> sess s' = sess s \<and> db s' = (db s)\<lparr>friends := friends (db s')\<rparr>
        \<and> (if acceptable s ?r True then friend_set (db s') = insert (ar_ownerID ?r, ar_memberID ?r, t) (friend_set (db s)) else s' = s)"
    proof -
      obtain reason where v': "validateAssociationRequest ?r True s =
          (Ret (if acceptable s ?r True then ''0'' else ''1'', reason), s)" using v by blast
      obtain b w' where a: "on_store (AddAssociation (ar_ownerID ?r) (ar_memberID ?r) t) s = (Ret b, s\<lparr>db := w'\<rparr>)"
        "friend_set w' = insert (ar_ownerID ?r, ar_memberID ?r, t) (friend_set (db s))" "(db s)\<lparr>friends := friends w'\<rparr> = w'" using add by metis
      show ?thesis
        by (cases "acceptable s ?r True")
           (simp_all add: add_request_def Let_def go_run v' a associationOutcomeOK_def)
    qed
    let ?d = "parseAssociationRequest (sess s) p ''deleteRequests'' i"
    show "\<exists>s'. delete_request p t i (o1, o2, ot, results) s = (Ret (ar_ownerID ?d, ar_responseOwnerID ?d, ar_ownerType ?d,
          results @ [result_of ?d (if acceptable s ?d False then ''0'' else ''1'')]), s')
        \<and> sess s' = sess s \<and> db s' = (db s)\<lparr>friends := friends (db s')\<rparr>
        \<and> (if acceptable s ?d False then friend_set (db s') = friend_set (db s) - {(ar_ownerID ?d, ar_memberID ?d, t)} else s' = s)"
    proof -
      obtain reason where v': "validateAssociationRequest ?d False s =
          (Ret (if acceptable s ?d False then ''0'' else ''1'', reason), s)" using v by blast
      obtain w' where d: "on_store (DeleteAssociation (ar_ownerID ?d) (ar_memberID ?d) t) s = (Ret (), s\<lparr>db := w'\<rparr>)"
        "friend_set w' = friend_set (db s) - {(ar_ownerID ?d, ar_memberID ?d, t)}" "(db s)\<lparr>friends := friends w'\<rparr> = w'" using del by metis
      show ?thesis
        by (cases "acceptable s ?d False")
           (simp_all add: delete_request_def Let_def go_run v' d associationOutcomeOK_def)
    qed
  qed
qed

definition others_lists :: "int \<Rightarrow> world \<Rightarrow> (int \<times> int \<times> string) set" where
  "others_lists pid w = {x \<in> friend_set w. fst x \<noteq> pid}"

definition own_lists_only :: "int \<Rightarrow> (int \<times> int \<times> string) set \<Rightarrow> server_state \<Rightarrow> bool" where
  "own_lists_only pid F s \<longleftrightarrow> personaID (sess s) = pid \<and> others_lists pid (db s) = F"

lemma keeps_own_read:
  assumes "\<And>w. friends (snd (m w)) = friends w"
  shows "keeps (own_lists_only pid F) (on_store m)"
proof (rule keepsI)
  fix s
  assume "own_lists_only pid F s"
  moreover obtain r w where m: "m (db s) = (r, w)" by force
  moreover have "friends w = friends (db s)" using assms [of "db s"] m by simp
  ultimately show "own_lists_only pid F (snd (on_store m s))"
    by (simp add: own_lists_only_def others_lists_def friend_set_def on_store_def)
qed

lemma query_friends: "friends (snd (query f w)) = friends w"
  by (auto simp: query_def stmt_def split: list.splits bool.splits)

lemma keeps_own_queries [keeps_intro]:
  "keeps (own_lists_only pid F) (on_store (GetAssociations q t))"
  "keeps (own_lists_only pid F) (on_store (PersonaByID q))"
  "keeps (own_lists_only pid F) (on_store (PersonaExists q))"
  unfolding GetAssociations_def PersonaByID_def PersonaExists_def
  by (rule keeps_own_read, rule query_friends)+

lemma keeps_own_changes:
  "keeps (own_lists_only pid F) (on_store (AddAssociation pid q t))"
  "keeps (own_lists_only pid F) (on_store (DeleteAssociation pid q t))"
  by (auto simp: keeps_def own_lists_only_def others_lists_def friend_set_def on_store_def AddAssociation_def
      DeleteAssociation_def exec_sql_def stmt_def Let_def set_insert_or_ignore friend_key_def
      split: prod.splits list.splits bool.splits)

lemma triple_validate_own:
  assumes "pid \<noteq> 0"
  shows "triple (own_lists_only pid F) (validateAssociationRequest req b)
    (\<lambda>r s. own_lists_only pid F s \<and> (fst r = associationOutcomeOK \<longrightarrow> ar_ownerID req = pid)) (own_lists_only pid F)"
proof -
  have start: "triple (own_lists_only pid F) (gget sess)
      (\<lambda>x s. own_lists_only pid F s \<and> personaID x = pid) (own_lists_only pid F)"
    by (simp add: triple_def go_run own_lists_only_def)
  have exists: "triple (\<lambda>s. own_lists_only pid F s \<and> C) (on_store (PersonaExists q))
      (\<lambda>_ s. own_lists_only pid F s \<and> C) (own_lists_only pid F)" for q C
    using keeps_own_queries(3) [of pid F q] unfolding keeps_triple
    by (cases C) (auto simp: triple_def split: prod.splits outcome.splits)
  show ?thesis unfolding validateAssociationRequest_def Let_def
    using assms
    by (intro triple_gbind [OF start] triple_if triple_gbind [OF exists] triple_gret)
       (auto simp: associationOutcomeOK_def associationOutcomeRefused_def)
qed

lemma own_requests:
  assumes "pid \<noteq> 0"
  shows "keeps (own_lists_only pid F) (add_request p t i acc)"
    "keeps (own_lists_only pid F) (delete_request p t i acc)"
proof -
  let ?I = "own_lists_only pid F"
  have change: "triple (\<lambda>s. ?I s \<and> (fst r = associationOutcomeOK \<longrightarrow> ar_ownerID req = pid)) (gbind m f) (\<lambda>_. ?I) ?I"
    if "fst r = associationOutcomeOK \<Longrightarrow> ar_ownerID req = pid \<Longrightarrow> keeps ?I m"
      "fst r \<noteq> associationOutcomeOK \<Longrightarrow> keeps ?I m" "\<And>x. keeps ?I (f x)" for r req and m :: "'x fesl" and f :: "'x \<Rightarrow> 'y fesl"
  proof (cases "fst r = associationOutcomeOK \<and> ar_ownerID req \<noteq> pid")
    case True
    then show ?thesis by (simp add: triple_def)
  next
    case False
    with that have "keeps ?I (gbind m f)" by (intro keeps_gbind) auto
    then show ?thesis by (rule triple_keeps) auto
  qed
  show "keeps ?I (add_request p t i acc)"
    unfolding add_request_def Let_def
    by (cases acc)
       (auto intro!: keeps_gbind_triple [OF triple_read] triple_gbind [OF triple_validate_own [OF assms]] change
          intro: keeps_intro keeps_own_changes split: prod.splits)
  show "keeps ?I (delete_request p t i acc)"
    unfolding delete_request_def Let_def
    by (cases acc)
       (auto intro!: keeps_gbind_triple [OF triple_read] triple_gbind [OF triple_validate_own [OF assms]] change
          intro: keeps_intro keeps_own_changes split: prod.splits)
qed

lemma keeps_own_response [keeps_intro]:
  "keeps (own_lists_only pid F) (associationMutationResponse pkt txn pre p t o1 o2 ot results)"
proof -
  have "keeps (own_lists_only pid F) (emitAssociationResult p pre t ir resp)" for ir resp
    by (cases ir) (auto simp: emitAssociationResult_def Let_def intro!: keeps_intro)
  then show ?thesis unfolding associationMutationResponse_def Let_def by (intro keeps_intro)
qed

text \<open>
  C23. A session with a persona changes nobody else's friend list: whatever a packet asks for, and
  whichever statements fail, the lists of the other personas are as before. (Without a persona the
  ownership check is skipped; see \<open>anonymous_adds_friend\<close>.)
\<close>

theorem associations_own_lists_only:
  assumes "personaID (sess s) \<noteq> 0"
  shows "others_lists (personaID (sess s)) (db (snd (handleAddAssociations cfg pkt s))) =
      others_lists (personaID (sess s)) (db s)
    \<and> others_lists (personaID (sess s)) (db (snd (handleDeleteAssociations cfg pkt s))) =
      others_lists (personaID (sess s)) (db s)"
proof -
  let ?I = "own_lists_only (personaID (sess s)) (others_lists (personaID (sess s)) (db s))"
  have "keeps ?I (handleAddAssociations cfg pkt)" "keeps ?I (handleDeleteAssociations cfg pkt)"
    unfolding handleAddAssociations_def handleDeleteAssociations_def Let_def
    by (intro keeps_intro; auto intro!: keeps_intro own_requests [OF assms] split: prod.splits)+
  moreover have "?I s" by (simp add: own_lists_only_def)
  ultimately show ?thesis by (simp add: keeps_def own_lists_only_def)
qed

definition celeste :: server_state where
  "celeste = \<lparr>db = two_personas, sess = new_session\<lparr>accountID := 2, personaID := 2, personaName := ''Celeste''\<rparr>\<rparr>"

definition anonymous :: server_state where
  "anonymous = \<lparr>db = two_personas, sess = new_session\<rparr>"

definition add_packet :: packet where
  "add_packet = \<lparr>Type = ''asso'', ID = 1, Params = kvs [''TXN'', ''AddAssociations'', ''addRequests.[]'', ''1'',
     ''addRequests.0.owner.id'', ''1'', ''addRequests.0.member.id'', ''2'']\<rparr>"

theorem associations_own_lists_only_witness:
  "others_lists 2 (db (snd (handleAddAssociations defaults add_packet celeste))) = others_lists 2 two_personas"
  using associations_own_lists_only [of celeste defaults add_packet] by (simp add: celeste_def)

definition celeste_befriended :: server_state where
  "celeste_befriended = celeste\<lparr>db := two_personas\<lparr>friends := [\<lparr>fr_persona_id = 2, fr_friend_persona_id = 1, fr_type = ''T''\<rparr>]\<rparr>\<rparr>"

theorem association_request_effect_witness:
  "(\<exists>r s'. add_request (ParamsMap (kvs [''addRequests.0.member.id'', ''1''])) ''T'' 0 (0, 0, ''1'', []) celeste = (r, s')
     \<and> friend_set (db s') = {(2, 1, ''T'')})
   \<and> (\<exists>r s'. delete_request (ParamsMap (kvs [''deleteRequests.0.member.id'', ''1''])) ''T'' 0 (0, 0, ''1'', []) celeste_befriended = (r, s')
     \<and> friend_set (db s') = {})"
proof -
  let ?add = "ParamsMap (kvs [''addRequests.0.member.id'', ''1''])" and ?del = "ParamsMap (kvs [''deleteRequests.0.member.id'', ''1''])"
  let ?f = celeste_befriended
  have ok: "tables_ok (db celeste)" "faults (db celeste) = []" by (simp_all add: celeste_def two_personas_ok)
  have ok': "tables_ok (db ?f)" "faults (db ?f) = []"
    by (simp_all add: celeste_befriended_def celeste_def two_personas_def one_account_def empty_world_def tables_ok_defs)
  have sets: "friend_set (db celeste) = {}" "friend_set (db ?f) = {(2, 1, ''T'')}"
    by (simp_all add: friend_key_def friend_set_def celeste_befriended_def celeste_def two_personas_def one_account_def empty_world_def)
  have req: "acceptable celeste (parseAssociationRequest (sess celeste) ?add ''addRequests'' 0) True"
    "acceptable ?f (parseAssociationRequest (sess ?f) ?del ''deleteRequests'' 0) False"
    "ar_ownerID (parseAssociationRequest (sess celeste) ?add ''addRequests'' 0) = 2"
    "ar_memberID (parseAssociationRequest (sess celeste) ?add ''addRequests'' 0) = 1"
    "ar_ownerID (parseAssociationRequest (sess ?f) ?del ''deleteRequests'' 0) = 2"
    "ar_memberID (parseAssociationRequest (sess ?f) ?del ''deleteRequests'' 0) = 1"
    unfolding acceptable_def persona_ids_def by code_simp+
  show ?thesis
    using association_request_effect [OF ok, of ?add 0 "''T''" 0 0 "''1''" "[]"]
      association_request_effect [OF ok', of ?del 0 "''T''" 0 0 "''1''" "[]"] req sets
    by (auto simp: Let_def split: if_splits)
qed

text \<open>A connection that never logged in puts a friend on somebody's list.\<close>

lemma anonymous_adds_friend:
  "friends (db (snd (handleAddAssociations defaults add_packet anonymous))) =
     [\<lparr>fr_persona_id = 1, fr_friend_persona_id = 2, fr_type = ''PlasmaFriends''\<rparr>]
   \<and> personaID (sess anonymous) = 0 \<and> accountID (sess anonymous) = 0"
  by code_simp

end
