(* ===== verification/Rank.thy ===== *)
theory Rank
  imports Session
begin

text \<open>
  \<open>server/fesl/rank.go\<close>: stats, ranks and leaderboards over the wire. The \<open>emit\<close> functions append to
  the answer; here they return what they append.
\<close>

definition maxRankPacketBytes :: nat where "maxRankPacketBytes = 60000"
definition maxHistoricalTopRows :: nat where "maxHistoricalTopRows = 100"

subsection \<open>Helpers\<close>

definition fmtFloat :: "float64 \<Rightarrow> string" where
  "fmtFloat v = format_float6 v"

definition rankLookupPersonaID :: "Session \<Rightarrow> int \<Rightarrow> int" where
  "rankLookupPersonaID s ownerID =
     (if ownerID = 0 then personaID s
      else if personaID s \<noteq> 0 \<and> accountID s \<noteq> 0 \<and> ownerID = accountID s then personaID s
      else ownerID)"

definition zeroRanked :: "string \<Rightarrow> RankedStat" where
  "zeroRanked key = \<lparr>rs_Rank = 0, rs_Value = defaultForKey key\<rparr>"

definition primaryTimeKey :: "string list \<Rightarrow> string" where
  "primaryTimeKey keys = (case find is_time_key keys of Some key \<Rightarrow> key | None \<Rightarrow> [])"

definition owner_ranked :: "int \<Rightarrow> string \<Rightarrow> int \<Rightarrow> RankedStat fesl" where
  "owner_ranked ownerID key periodID =
     on_store (if IsHistoricalOwner ownerID then HistoricalRankedStats ownerID key periodID
               else RankedStats ownerID key periodID)"

definition owner_stats :: "int \<Rightarrow> string list \<Rightarrow> int \<Rightarrow> stat_map fesl" where
  "owner_stats ownerID keys periodID =
     on_store (if IsHistoricalOwner ownerID then HistoricalStats ownerID keys periodID
               else GetStats ownerID keys periodID)"

definition statGroupRankValue :: "int \<Rightarrow> string list \<Rightarrow> int \<Rightarrow> string fesl" where
  "statGroupRankValue ownerID keys periodID =
     (let key = primaryTimeKey keys in
      if ownerID = 0 \<or> key = [] then gret ''0''
      else gbind (owner_ranked ownerID key periodID) (\<lambda>ranked.
        if is_zero (rs_Value ranked) then gret ''0'' else gret (itoa (rs_Rank ranked))))"

definition leaderboardKeys :: "string \<Rightarrow> string list \<Rightarrow> string list" where
  "leaderboardKeys sortKey requested =
     (let keys = filter (\<lambda>k. k \<noteq> []) requested;
          hasSortKey = (sortKey = [] \<or> sortKey \<in> set keys)
      in if sortKey \<noteq> [] \<and> \<not> hasSortKey then sortKey # keys else keys)"

definition parse_period :: "string \<Rightarrow> int list" where
  "parse_period part =
     (let part = trim_space part in
      if part = [] then []
      else (case atoi_checked part of None \<Rightarrow> [] | Some period \<Rightarrow> [period]))"

definition parsePeriods :: "string \<Rightarrow> int list" where
  "parsePeriods v =
     (let v = trim_char (CHR 0x22) v in
      if v = [] then [] else concat (map parse_period (split_char (CHR '','') v)))"

subsection \<open>Emitting stat groups\<close>

definition stat_value_or_default :: "stat_map \<Rightarrow> string \<Rightarrow> float64" where
  "stat_value_or_default values key = (case values key of Some v \<Rightarrow> v | None \<Rightarrow> defaultForKey key)"

definition emitStatGroupFlat :: "string \<Rightarrow> stat_map \<Rightarrow> string list \<Rightarrow> string \<Rightarrow> kv list" where
  "emitStatGroupFlat pre values keys rankValue =
     KV (pre @ ''[]'') (itoa (int (length keys))) #
     concat (map (\<lambda>(i, key).
       let v = stat_value_or_default values key; statPrefix = pre @ itoa (int i) in
       kvs [statPrefix @ ''.key'', key,
            statPrefix @ ''.value'', fmtFloat v,
            statPrefix @ ''.text'', fmtFloat v,
            statPrefix @ ''.rank'', rankValue])
       (zip [0..<length keys] keys))"

definition emitMinimalStatGroupForEntry :: "string \<Rightarrow> TopEntry \<Rightarrow> string list \<Rightarrow> kv list" where
  "emitMinimalStatGroupForEntry pre entry keys =
     KV (pre @ ''[]'') (itoa (int (length keys))) #
     concat (map (\<lambda>(i, key).
       let v = stat_value_or_default (te_Values entry) key; statPrefix = pre @ itoa (int i) in
       kvs [statPrefix @ ''.key'', key,
            statPrefix @ ''.value'', fmtFloat v])
       (zip [0..<length keys] keys))"

definition emitSparseTimeAddStatsForEntry :: "string \<Rightarrow> TopEntry \<Rightarrow> string list \<Rightarrow> string \<Rightarrow> kv list" where
  "emitSparseTimeAddStatsForEntry pre entry keys sortKey =
     KV (pre @ ''[]'') (itoa (int (length keys))) #
     concat (map (\<lambda>(i, key).
       if key \<noteq> sortKey then []
       else let v = stat_value_or_default (te_Values entry) key; statPrefix = pre @ itoa (int i) in
       kvs [statPrefix @ ''.key'', key,
            statPrefix @ ''.value'', fmtFloat v])
       (zip [0..<length keys] keys))"

definition emitStatGroupFlatForEntry :: "string \<Rightarrow> TopEntry \<Rightarrow> string list \<Rightarrow> string \<Rightarrow> kv list" where
  "emitStatGroupFlatForEntry pre entry keys rankValue =
     KV (pre @ ''[]'') (itoa (int (length keys))) #
     concat (map (\<lambda>(i, key).
       let v = stat_value_or_default (te_Values entry) key;
           text = (if (te_Imported entry \<or> te_TimeOnly entry) \<and> te_Values entry key = None
                     \<and> \<not> is_time_key key then [] else fmtFloat v);
           statPrefix = pre @ itoa (int i) in
       kvs [statPrefix @ ''.key'', key,
            statPrefix @ ''.value'', fmtFloat v,
            statPrefix @ ''.text'', text,
            statPrefix @ ''.rank'', rankValue])
       (zip [0..<length keys] keys))"

subsection \<open>Stats of one owner\<close>

definition response_owner :: "int \<Rightarrow> int \<Rightarrow> int" where
  "response_owner owner persona = (if owner = 0 then persona else owner)"

definition handleGetStats :: handler where
  "handleGetStats cfg pkt =
     (let p = ParamsMap (Params pkt); owner = atoi (mget p ''owner''); periodID = atoi (mget p ''periodId'') in
      gbind (parseKeyList p ''keys'') (\<lambda>keys.
      gbind (gget sess) (\<lambda>s.
      let persona = rankLookupPersonaID s owner; responseOwnerID = response_owner owner persona in
      gbind (if persona \<noteq> 0 then owner_stats persona keys periodID else gret Map.empty) (\<lambda>stats.
      gbind (statGroupRankValue persona keys periodID) (\<lambda>rankValue.
      reply ''rank'' pkt (kvs [
        ''TXN'', ''GetStats'',
        ''ownerId'', itoa64 responseOwnerID,
        ''ownerType'', withDefault (mget p ''ownerType'') ''1'',
        ''owner'', itoa64 responseOwnerID,
        ''stats.[]'', itoa (int (length keys))] @
        emitStatGroupFlat ''stats.'' stats keys rankValue))))))"

definition ranked_kvs :: "string \<Rightarrow> string \<Rightarrow> RankedStat \<Rightarrow> kv list" where
  "ranked_kvs pre key ranked = kvs [
     pre @ ''.key'', key,
     pre @ ''.value'', fmtFloat (rs_Value ranked),
     pre @ ''.text'', fmtFloat (rs_Value ranked),
     pre @ ''.rank'', itoa (rs_Rank ranked)]"

definition ranked_key :: "int \<Rightarrow> int \<Rightarrow> nat \<times> string \<Rightarrow> kv list \<Rightarrow> kv list fesl" where
  "ranked_key persona periodID = (\<lambda>(i, key) resp.
     gbind (if persona \<noteq> 0 then owner_ranked persona key periodID else gret (zeroRanked key)) (\<lambda>got.
     let ranked = (if persona \<noteq> 0 \<and> \<not> is_zero (rs_Value got) then got else zeroRanked key) in
     gret (resp @ ranked_kvs (indexed ''rankedStats'' i) key ranked @
           ranked_kvs (indexed ''stats'' i) key ranked)))"

definition handleGetRankedStats :: handler where
  "handleGetRankedStats cfg pkt =
     (let p = ParamsMap (Params pkt); owner = atoi (mget p ''owner''); periodID = atoi (mget p ''periodId'') in
      gbind (parseKeyList p ''keys'') (\<lambda>keys.
      gbind (gget sess) (\<lambda>s.
      let persona = rankLookupPersonaID s owner; responseOwnerID = response_owner owner persona in
      gbind (gfold (ranked_key persona periodID) (zip [0..<length keys] keys) (kvs [
          ''TXN'', ''GetRankedStats'',
          ''ownerId'', itoa64 responseOwnerID,
          ''ownerType'', withDefault (mget p ''ownerType'') ''1'',
          ''owner'', itoa64 responseOwnerID,
          ''rankedStats.[]'', itoa (int (length keys)),
          ''stats.[]'', itoa (int (length keys))])) (\<lambda>resp.
      reply ''rank'' pkt resp))))"

subsection \<open>Stats of several owners\<close>

definition stats_owner :: "Session \<Rightarrow> string list \<Rightarrow> int \<Rightarrow> nat \<times> int \<times> string \<Rightarrow> kv list \<Rightarrow> kv list fesl" where
  "stats_owner s keys periodID = (\<lambda>(i, owner, typ) resp.
     let lookupID = rankLookupPersonaID s owner in
     gbind (owner_stats lookupID keys periodID) (\<lambda>stats.
     gbind (statGroupRankValue lookupID keys periodID) (\<lambda>rankValue.
     let pre = indexed ''stats'' i in
     gret (resp @ kvs [
       pre @ ''.ownerId'', itoa64 owner,
       pre @ ''.ownerType'', typ,
       pre @ ''.owner'', itoa64 owner,
       pre @ ''.rank'', rankValue] @
       emitStatGroupFlat (pre @ ''.stats.'') stats keys rankValue))))"

definition handleGetStatsForOwners :: handler where
  "handleGetStatsForOwners cfg pkt =
     (let p = ParamsMap (Params pkt); periodID = atoi (mget p ''periodId'') in
      gbind (parseOwnerList p) (\<lambda>owners.
      gbind (parseKeyList p ''keys'') (\<lambda>keys.
      gbind (gget sess) (\<lambda>s.
      gbind (gfold (stats_owner s keys periodID) (zip [0..<length owners] owners)
        (kvs [''TXN'', ''GetStatsForOwners'', ''stats.[]'', itoa (int (length owners))])) (\<lambda>resp.
      reply ''rank'' pkt resp)))))"

definition ranked_owner_key :: "int \<Rightarrow> int \<Rightarrow> string \<Rightarrow> nat \<times> string \<Rightarrow> kv list \<Rightarrow> kv list fesl" where
  "ranked_owner_key lookupID periodID pre = (\<lambda>(j, key) resp.
     gbind (owner_ranked lookupID key periodID) (\<lambda>got.
     let ranked = (if is_zero (rs_Value got) then zeroRanked key else got) in
     gret (resp @ ranked_kvs (indexed (pre @ ''.rankedStats'') j) key ranked)))"

definition ranked_owner :: "Session \<Rightarrow> string list \<Rightarrow> int \<Rightarrow> nat \<times> int \<times> string \<Rightarrow> kv list \<Rightarrow> kv list fesl" where
  "ranked_owner s keys periodID = (\<lambda>(i, owner, typ) resp.
     let lookupID = rankLookupPersonaID s owner; pre = indexed ''rankedStats'' i in
     gfold (ranked_owner_key lookupID periodID pre) (zip [0..<length keys] keys) (resp @ kvs [
       pre @ ''.ownerId'', itoa64 owner,
       pre @ ''.ownerType'', typ,
       pre @ ''.owner'', itoa64 owner,
       pre @ ''.rankedStats.[]'', itoa (int (length keys))]))"

definition handleGetRankedStatsForOwners :: handler where
  "handleGetRankedStatsForOwners cfg pkt =
     (let p = ParamsMap (Params pkt); periodID = atoi (mget p ''periodId'') in
      gbind (parseOwnerList p) (\<lambda>owners.
      gbind (parseKeyList p ''keys'') (\<lambda>keys.
      gbind (gget sess) (\<lambda>s.
      gbind (gfold (ranked_owner s keys periodID) (zip [0..<length owners] owners)
        (kvs [''TXN'', ''GetRankedStatsForOwners'', ''rankedStats.[]'', itoa (int (length owners))])) (\<lambda>resp.
      reply ''rank'' pkt resp)))))"

subsection \<open>Leaderboards\<close>

definition hasHistoricalRows :: "TopEntry list \<Rightarrow> bool" where
  "hasHistoricalRows entries \<longleftrightarrow> (\<exists>e \<in> set entries. te_Imported e)"

definition top_row :: "string list \<Rightarrow> string \<Rightarrow> nat \<times> TopEntry \<Rightarrow> kv list" where
  "top_row allKeys sortKey = (\<lambda>(i, entry).
     let pre = indexed ''stats'' i;
         sortValue = (case te_Values entry sortKey of Some v \<Rightarrow> v | None \<Rightarrow> Fin 0);
         ownerID = itoa64 (te_PersonaID entry);
         rank = itoa (te_Rank entry) in
     if te_Imported entry then
       kvs [pre @ ''.owner'', ownerID,
            pre @ ''.name'', te_PersonaName entry,
            pre @ ''.rank'', rank,
            pre @ ''.value'', fmtFloat sortValue] @
       emitSparseTimeAddStatsForEntry (pre @ ''.addStats.'') entry allKeys sortKey
     else
       kvs [pre @ ''.ownerId'', ownerID,
            pre @ ''.ownerType'', ''1'',
            pre @ ''.owner'', ownerID,
            pre @ ''.name'', te_PersonaName entry,
            pre @ ''.rank'', rank,
            pre @ ''.value'', fmtFloat sortValue,
            pre @ ''.text'', fmtFloat sortValue] @
       emitStatGroupFlatForEntry (pre @ ''.stats.'') entry allKeys rank @
       emitStatGroupFlatForEntry (pre @ ''.addStats.'') entry allKeys rank)"

definition buildTopNAndStatsResponse :: "TopEntry list \<Rightarrow> string list \<Rightarrow> string \<Rightarrow> kv list" where
  "buildTopNAndStatsResponse entries allKeys sortKey =
     kvs [''TXN'', ''GetTopNAndStats'', ''stats.[]'', itoa (int (length entries))] @
     concat (map (top_row allKeys sortKey) (zip [0..<length entries] entries))"

definition buildDummyTopNAndStatsResponse :: "string list \<Rightarrow> string \<Rightarrow> int \<Rightarrow> string \<Rightarrow> bool \<Rightarrow> kv list" where
  "buildDummyTopNAndStatsResponse allKeys sortKey rank reason zeroTime =
     (let v = (if zeroTime then Fin 0 else defaultForKey sortKey);
          name = (if reason = ''cutoff'' then [] else ''No Name'');
          dummy = (\<lambda>key. if key \<in> set allKeys then Some (if zeroTime then Fin 0 else defaultForKey key) else None)
      in kvs [
        ''TXN'', ''GetTopNAndStats'',
        ''stats.[]'', ''1'',
        ''stats.0.ownerId'', ''0'',
        ''stats.0.ownerType'', ''1'',
        ''stats.0.owner'', ''0'',
        ''stats.0.name'', name,
        ''stats.0.rank'', itoa rank,
        ''stats.0.value'', fmtFloat v,
        ''stats.0.text'', fmtFloat v] @
      emitStatGroupFlat ''stats.0.stats.'' dummy allKeys (itoa rank) @
      emitStatGroupFlat ''stats.0.addStats.'' dummy allKeys (itoa rank))"

text \<open>The loop that drops rows from the end until the packet fits, or one row is left.\<close>

function cap_response :: "32 word \<Rightarrow> string list \<Rightarrow> string \<Rightarrow> TopEntry list \<Rightarrow> string" where
  "cap_response pid allKeys key entries =
     (let encoded = Encode ''rank'' pid (buildTopNAndStatsResponse entries allKeys key) in
      if maxRankPacketBytes < length encoded \<and> 1 < length entries
      then cap_response pid allKeys key (butlast entries)
      else encoded)"
  by pat_completeness auto
termination by (relation "measure (\<lambda>(_, _, _, entries). length entries)") auto

declare cap_response.simps [simp del]

definition handleGetTopNAndStats :: handler where
  "handleGetTopNAndStats cfg pkt =
     (let p = ParamsMap (Params pkt);
          key = mget p ''key'';
          minRank0 = atoi (mget p ''minRank''); minRank = (if minRank0 = 0 then 1 else minRank0);
          maxRank0 = atoi (mget p ''maxRank''); maxRank = (if maxRank0 = 0 then 1 else maxRank0);
          periodID = atoi (mget p ''periodId'') in
      gbind (parseKeyList p ''keys'') (\<lambda>extraKeys.
      gbind (on_store (TopN key minRank maxRank extraKeys periodID)) (\<lambda>entries.
      let allKeys = leaderboardKeys key extraKeys in
      if entries = [] \<and> 500 \<le> minRank then
        reply ''rank'' pkt (buildDummyTopNAndStatsResponse allKeys key minRank ''cutoff'' True)
      else if entries = [] \<and> minRank = 1 \<and> maxRank = 1 then
        reply ''rank'' pkt (buildDummyTopNAndStatsResponse allKeys key minRank ''rank1'' False)
      else
        let entries = (if hasHistoricalRows entries then take maxHistoricalTopRows entries else entries) in
        gret (cap_response (ID pkt) allKeys key entries))))"

subsection \<open>Submitting stats\<close>

definition submit_periods :: "string \<Rightarrow> float64 \<Rightarrow> int \<Rightarrow> int list \<Rightarrow> unit fesl" where
  "submit_periods key v persona periods =
     gfold (\<lambda>periodID _. on_store (UpdateStats persona [(key, v)] periodID)) periods ()"

definition submit_stat :: "params \<Rightarrow> int \<Rightarrow> nat \<Rightarrow> nat \<Rightarrow> int \<Rightarrow> int fesl" where
  "submit_stat p persona oi si persisted =
     (let pre = indexed (indexed ''u'' oi @ ''.s'') si; key = mget p (pre @ ''.k'') in
      if key = [] then gret persisted
      else
        let v = atof (mget p (pre @ ''.v''));
            parsed = parsePeriods (mget p (pre @ ''.pt''));
            periods = (if parsed = [] then [0] else parsed) in
        if persona \<noteq> 0 then gbind (submit_periods key v persona periods) (\<lambda>_. gret (i64 (persisted + 1)))
        else gret persisted)"

definition submit_owner :: "params \<Rightarrow> int \<Rightarrow> nat \<Rightarrow> int \<Rightarrow> int fesl" where
  "submit_owner p persona oi persisted =
     gfold (submit_stat p persona oi) [0..<nat (atoi (mget p (indexed ''u'' oi @ ''.s.[]'')))] persisted"

definition handleUpdateStats :: handler where
  "handleUpdateStats cfg pkt =
     (let p = ParamsMap (Params pkt); ownerCount = atoi (mget p ''u.[]'') in
      gbind (gget (\<lambda>s. personaID (sess s))) (\<lambda>persona.
      gbind (gfold (submit_owner p persona) [0..<nat ownerCount] 0) (\<lambda>persisted.
      reply ''rank'' pkt (kvs [''TXN'', withDefault (mget p ''TXN'') ''UpdateStats'']))))"

subsection \<open>The handlers keep the session invariant\<close>

lemma keeps_owner_ranked [keeps_intro]: "keeps (session_with A P) (owner_ranked oid key period)"
  unfolding owner_ranked_def by (intro keeps_intro)

lemma keeps_owner_stats [keeps_intro]: "keeps (session_with A P) (owner_stats oid keys period)"
  unfolding owner_stats_def by (intro keeps_intro)

lemma keeps_statGroupRankValue [keeps_intro]: "keeps (session_with A P) (statGroupRankValue oid keys period)"
  unfolding statGroupRankValue_def by (intro keeps_intro)

lemma handleGetStats_ok [keeps_intro]: "keeps (session_with A P) (handleGetStats cfg pkt)"
  unfolding handleGetStats_def by (intro keeps_intro)

lemma keeps_ranked_key [keeps_intro]: "keeps (session_with A P) (ranked_key persona period ik resp)"
  unfolding ranked_key_def by (cases ik) (auto intro!: keeps_intro)

lemma handleGetRankedStats_ok [keeps_intro]: "keeps (session_with A P) (handleGetRankedStats cfg pkt)"
  unfolding handleGetRankedStats_def by (intro keeps_intro)

lemma keeps_stats_owner [keeps_intro]: "keeps (session_with A P) (stats_owner s keys period io resp)"
  unfolding stats_owner_def by (cases io) (auto intro!: keeps_intro)

lemma handleGetStatsForOwners_ok [keeps_intro]: "keeps (session_with A P) (handleGetStatsForOwners cfg pkt)"
  unfolding handleGetStatsForOwners_def by (intro keeps_intro)

lemma keeps_ranked_owner_key [keeps_intro]: "keeps (session_with A P) (ranked_owner_key oid period pre jk resp)"
  unfolding ranked_owner_key_def by (cases jk) (auto intro!: keeps_intro)

lemma keeps_ranked_owner [keeps_intro]: "keeps (session_with A P) (ranked_owner s keys period io resp)"
  unfolding ranked_owner_def by (cases io) (auto intro!: keeps_intro)

lemma handleGetRankedStatsForOwners_ok [keeps_intro]: "keeps (session_with A P) (handleGetRankedStatsForOwners cfg pkt)"
  unfolding handleGetRankedStatsForOwners_def by (intro keeps_intro)

lemma handleGetTopNAndStats_ok [keeps_intro]: "keeps (session_with A P) (handleGetTopNAndStats cfg pkt)"
  unfolding handleGetTopNAndStats_def by (intro keeps_intro)

lemma keeps_submit_periods:
  assumes "persona \<noteq> 0" "held persona \<subseteq> P"
  shows "keeps (session_with A P) (submit_periods key v persona periods)"
  unfolding submit_periods_def using assms
  by (intro keeps_gfold keeps_on_store keeps_UpdateStats) (auto simp: held_def)

lemma keeps_submit_owner:
  "held persona \<subseteq> P \<Longrightarrow> keeps (session_with A P) (submit_owner p persona oi persisted)"
  unfolding submit_owner_def submit_stat_def Let_def by (intro keeps_intro keeps_submit_periods)

lemma handleUpdateStats_ok [keeps_intro]: "keeps (session_with A P) (handleUpdateStats cfg pkt)"
  unfolding handleUpdateStats_def Let_def
  by (intro keeps_gbind_triple [OF triple_persona] triple_with keeps_intro keeps_submit_owner) auto

subsection \<open>The size of a leaderboard packet\<close>

definition top_packet :: "32 word \<Rightarrow> string list \<Rightarrow> string \<Rightarrow> TopEntry list \<Rightarrow> string" where
  "top_packet pid allKeys key entries = Encode ''rank'' pid (buildTopNAndStatsResponse entries allKeys key)"

definition some_entry :: TopEntry where
  "some_entry = \<lparr>te_PersonaID = 1, te_PersonaName = ''Faith'', te_Rank = 1, te_Values = Map.empty, te_Imported = False, te_TimeOnly = False\<rparr>"

text \<open>
  C31. A leaderboard answer keeps to the limit of 60000 bytes by dropping rows from the end, and drops as
  few as possible: it is the packet of the first \<open>n\<close> rows, within the limit (unless a single row alone is
  larger), and the packet of any more of the rows would have been over the limit. With no rows or one
  row nothing is dropped.
\<close>

theorem cap_response_bound:
  "\<exists>n \<le> length entries. cap_response pid allKeys key entries = top_packet pid allKeys key (take n entries)
    \<and> (length (top_packet pid allKeys key (take n entries)) \<le> 60000 \<or> n \<le> 1)
    \<and> (\<forall>m. n < m \<and> m \<le> length entries \<longrightarrow> 60000 < length (top_packet pid allKeys key (take m entries)) \<and> 1 < m)"
proof (induction entries rule: length_induct)
  case (1 entries)
  show ?case
  proof (cases "maxRankPacketBytes < length (top_packet pid allKeys key entries) \<and> 1 < length entries")
    case True
    then have "length (butlast entries) < length entries" by (simp add: length_butlast) linarith
    with "1.IH" obtain n where n: "n \<le> length (butlast entries)"
      "cap_response pid allKeys key (butlast entries) = top_packet pid allKeys key (take n (butlast entries))"
      "length (top_packet pid allKeys key (take n (butlast entries))) \<le> 60000 \<or> n \<le> 1"
      "\<forall>m. n < m \<and> m \<le> length (butlast entries) \<longrightarrow> 60000 < length (top_packet pid allKeys key (take m (butlast entries))) \<and> 1 < m"
      by blast
    have take: "take k (butlast entries) = take k entries" if "k \<le> length entries - 1" for k
      using that by (simp add: butlast_conv_take)
    have "60000 < length (top_packet pid allKeys key (take m entries)) \<and> 1 < m" if "n < m" "m \<le> length entries" for m
    proof (cases "m = length entries")
      case m: True
      then show ?thesis using True by (simp add: maxRankPacketBytes_def)
    next
      case False
      then show ?thesis using n(4) take [of m] that by auto
    qed
    moreover have "cap_response pid allKeys key entries = cap_response pid allKeys key (butlast entries)"
      using True by (subst cap_response.simps) (simp add: top_packet_def)
    ultimately show ?thesis using n take [of n] by (intro exI [of _ n]) auto
  next
    case False
    then have "cap_response pid allKeys key entries = top_packet pid allKeys key entries"
      by (subst cap_response.simps) (auto simp: top_packet_def Let_def)
    with False show ?thesis by (intro exI [of _ "length entries"]) (auto simp: maxRankPacketBytes_def)
  qed
qed

theorem cap_response_bound_witness:
  "\<exists>n \<le> length [some_entry, some_entry]. cap_response 1 [''TD_1_20''] ''TD_1_20'' [some_entry, some_entry] =
      top_packet 1 [''TD_1_20''] ''TD_1_20'' (take n [some_entry, some_entry])
    \<and> (length (top_packet 1 [''TD_1_20''] ''TD_1_20'' (take n [some_entry, some_entry])) \<le> 60000 \<or> n \<le> 1)"
  using cap_response_bound [of "[some_entry, some_entry]" 1 "[''TD_1_20'']" "''TD_1_20''"] by blast

end
