(* ===== verification/Dispatch.thy ===== *)
theory Dispatch
  imports Associations Rank
begin

text \<open>
  The dispatcher and the receive loop of \<open>server/fesl/server.go\<close> (lines 72-180): which handler answers
  which transaction, what a session writes back, and how a connection goes on.
\<close>

subsection \<open>Dispatch\<close>

definition handlers :: "(string \<times> handler) list" where
  "handlers = [
     (''Hello'', handleHello),
     (''NuLogin'', handleNuLogin),
     (''Login'', handleNuLogin),
     (''NuAddAccount'', handleNuAddAccount),
     (''NuGetPersonas'', handleNuGetPersonas),
     (''NuLoginPersona'', handleNuLoginPersona),
     (''NuAddPersona'', handleNuAddPersona),
     (''NuSuggestPersonas'', handleNuSuggestPersonas),
     (''NuGetEntitlements'', handleNuGetEntitlements),
     (''NuGetEntitlementCount'', handleNuGetEntitlementCount),
     (''GameSpyPreAuth'', handleGameSpyPreAuth),
     (''GetCountryList'', handleGetCountryList),
     (''NuGetTos'', handleNuGetTos),
     (''GetLockerURL'', handleGetLockerURL),
     (''NuLookupUserInfo'', handleNuLookupUserInfo),
     (''GetAssociations'', handleGetAssociations),
     (''AddAssociations'', handleAddAssociations),
     (''DeleteAssociations'', handleDeleteAssociations),
     (''SetPresenceStatus'', handleSetPresenceStatus),
     (''PresenceSubscribe'', handlePresenceSubscribe),
     (''ModifySettings'', handleModifySettings),
     (''GetMessages'', handleGetMessages),
     (''GetStats'', handleGetStats),
     (''GetRankedStats'', handleGetRankedStats),
     (''GetStatsForOwners'', handleGetStatsForOwners),
     (''GetRankedStatsForOwners'', handleGetRankedStatsForOwners),
     (''GetTopNAndStats'', handleGetTopNAndStats),
     (''UpdateStats'', handleUpdateStats),
     (''SubmitStats'', handleUpdateStats)]"

definition packet_txn :: "packet \<Rightarrow> string" where
  "packet_txn pkt = mget (ParamsMap (Params pkt)) ''TXN''"

definition dispatch :: handler where
  "dispatch cfg pkt =
     (case map_of handlers (packet_txn pkt) of
        None \<Rightarrow> gret (Encode (Type pkt) (ID pkt) (kvs [''TXN'', packet_txn pkt]))
      | Some h \<Rightarrow> h cfg pkt)"

subsection \<open>The receive loop\<close>

text \<open>
  A connection: its session and database, what it has written, when the last memory check was
  (in milliseconds), and whether a handler panicked. A panic is not recovered: it ends the
  process, and with it every connection.
\<close>

record connection =
  srv :: server_state
  written :: "string list"
  last_memcheck :: int
  crashed :: bool

definition challenge :: string where
  "challenge = Encode ''fsys'' 0x80000000 (kvs [
     ''TXN'', ''MemCheck'',
     ''memcheck.[]'', ''0'',
     ''type'', ''0'',
     ''salt'', ''12345678''])"

definition process :: "Config \<Rightarrow> int \<Rightarrow> packet \<Rightarrow> connection \<Rightarrow> bool \<times> connection" where
  "process cfg now pkt c =
     (if packet_txn pkt = ''MemCheck'' \<and> ID pkt = 0x80000000 then (True, c\<lparr>last_memcheck := now\<rparr>)
      else (case dispatch cfg pkt (srv c) of
          (Panic, s') \<Rightarrow> (False, c\<lparr>srv := s', crashed := True\<rparr>)
        | (Ret resp, s') \<Rightarrow>
            (True, c\<lparr>srv := s', written := written c @ (if resp \<noteq> [] then [resp] else [])\<rparr>)
        | (Fail e, s') \<Rightarrow>
            (True, c\<lparr>srv := s', written := written c @ [handlerErrorResponse pkt (packet_txn pkt)]\<rparr>)))"

text \<open>What a read can bring: bytes, the half-second timeout, or the end of the connection.\<close>

datatype event = Received int string | TimedOut int | Closed

fun run_event :: "Config \<Rightarrow> event \<Rightarrow> pump_end \<times> connection \<Rightarrow> pump_end \<times> connection" where
  "run_event cfg ev (Stopped, c) = (Stopped, c)"
| "run_event cfg (Received now bytes) (Waiting buf, c) =
     pump Decode (process cfg now) (buf @ bytes) (c\<lparr>srv := (srv c)\<lparr>db := (db (srv c))\<lparr>clock := now div 1000\<rparr>\<rparr>\<rparr>)"
| "run_event cfg (TimedOut now) (Waiting buf, c) =
     (Waiting buf,
      if MemcheckIntervalSec cfg * 1000 < now - last_memcheck c
      then c\<lparr>written := written c @ [challenge], last_memcheck := now\<rparr> else c)"
| "run_event cfg Closed (Waiting buf, c) = (Stopped, c)"

definition run :: "Config \<Rightarrow> world \<Rightarrow> int \<Rightarrow> event list \<Rightarrow> pump_end \<times> connection" where
  "run cfg w start events = foldl (\<lambda>st ev. run_event cfg ev st)
     (Waiting [], \<lparr>srv = \<lparr>db = w, sess = new_session\<rparr>, written = [challenge], last_memcheck = start,
                   crashed = False\<rparr>) events"

subsection \<open>The session invariant through the dispatcher\<close>

lemma handlers_ok: "(name, h) \<in> set handlers \<Longrightarrow> keeps (session_with A P) (h cfg pkt)"
  unfolding handlers_def by (auto intro!: keeps_intro)

lemma dispatch_ok: "keeps (session_with A P) (dispatch cfg pkt)"
  unfolding dispatch_def by (auto split: option.splits intro!: keeps_gret dest!: map_of_SomeD handlers_ok)

subsection \<open>All sessions on one database\<close>

text \<open>
  The server as a whole: one database, any number of sessions. A step is a connection that opens or
  closes, a packet that one session handles from start to end, an administrative import, or the
  environment (time, coming faults, row orders, random bytes); a panic ends all sessions and leaves
  what the statements so far have written.
\<close>

record system =
  sys_world :: world
  sys_sessions :: "nat \<rightharpoonup> Session"

inductive sys_step :: "Config \<Rightarrow> system \<Rightarrow> system \<Rightarrow> bool" for cfg where
  connect: "sys_sessions S i = None \<Longrightarrow>
    sys_step cfg S (S\<lparr>sys_sessions := (sys_sessions S)(i \<mapsto> new_session)\<rparr>)"
| disconnect: "sys_step cfg S (S\<lparr>sys_sessions := (sys_sessions S)(i := None)\<rparr>)"
| handled: "sys_sessions S i = Some ss \<Longrightarrow>
    dispatch cfg pkt \<lparr>db = sys_world S, sess = ss\<rparr> = (r, s') \<Longrightarrow> r \<noteq> Panic \<Longrightarrow>
    sys_step cfg S \<lparr>sys_world = db s', sys_sessions = (sys_sessions S)(i \<mapsto> sess s')\<rparr>"
| process_dies: "sys_sessions S i = Some ss \<Longrightarrow>
    dispatch cfg pkt \<lparr>db = sys_world S, sess = ss\<rparr> = (Panic, s') \<Longrightarrow>
    sys_step cfg S \<lparr>sys_world = db s', sys_sessions = Map.empty\<rparr>"
| import_run: "AddHistoricalRun sourceKey name stretchID key v period runID weblink updatedAt (sys_world S) = (r, w') \<Longrightarrow>
    sys_step cfg S (S\<lparr>sys_world := w'\<rparr>)"
| link: "LinkHistoricalAccount sourceKey pid (sys_world S) = (r, w') \<Longrightarrow> sys_step cfg S (S\<lparr>sys_world := w'\<rparr>)"
| unlink: "UnlinkHistoricalAccount sourceKey (sys_world S) = (r, w') \<Longrightarrow> sys_step cfg S (S\<lparr>sys_world := w'\<rparr>)"
| environment: "sys_step cfg S (S\<lparr>sys_world := (sys_world S)\<lparr>clock := t, faults := fs, row_order := rows,
    random := rnd, random_pos := n, scan_timestamp := f\<rparr>\<rparr>)"

inductive_cases sys_step_cases: "sys_step cfg S S'"

definition initial :: "system \<Rightarrow> bool" where
  "initial S \<longleftrightarrow> tables_ok (sys_world S) \<and> sys_sessions S = Map.empty"

definition sys_ok :: "system \<Rightarrow> bool" where
  "sys_ok S \<longleftrightarrow> tables_ok (sys_world S) \<and>
     (\<forall>i ss. sys_sessions S i = Some ss \<longrightarrow>
        held (accountID ss) \<subseteq> account_ids (sys_world S) \<and> held (personaID ss) \<subseteq> persona_ids (sys_world S))"

lemma sys_ok_alt:
  "sys_ok S \<longleftrightarrow> tables_ok (sys_world S) \<and> (\<forall>i ss. sys_sessions S i = Some ss \<longrightarrow>
     db_ok (held (accountID ss)) (held (personaID ss)) (sys_world S))"
  by (auto simp: sys_ok_def db_ok_def)

lemma sys_ok_world:
  assumes "sys_ok S" "\<And>A P. db_ok A P (sys_world S) \<Longrightarrow> db_ok A P w'"
  shows "sys_ok (S\<lparr>sys_world := w'\<rparr>)"
  using assms(1) assms(2) [of "{}" "{}"] assms(2) by (auto simp: sys_ok_alt db_ok_empty)

lemma dispatch_sys:
  assumes "sys_ok S" "sys_sessions S i = Some ss"
    and "dispatch cfg pkt \<lparr>db = sys_world S, sess = ss\<rparr> = (r, s')"
  shows "session_ok s'" "sys_sessions S j = Some ss' \<Longrightarrow> db_ok (held (accountID ss')) (held (personaID ss')) (db s')"
proof -
  have "session_ok \<lparr>db = sys_world S, sess = ss\<rparr>"
    using assms(1,2) by (auto simp: sys_ok_alt session_with_def)
  then show "session_ok s'" using keepsD [OF dispatch_ok _ assms(3)] by blast
  assume "sys_sessions S j = Some ss'"
  then have "session_with (held (accountID ss')) (held (personaID ss')) \<lparr>db = sys_world S, sess = ss\<rparr>"
    using assms(1,2) by (auto simp: sys_ok_def session_with_def db_ok_def)
  then have "session_with (held (accountID ss')) (held (personaID ss')) s'"
    using keepsD [OF dispatch_ok _ assms(3)] by blast
  then show "db_ok (held (accountID ss')) (held (personaID ss')) (db s')"
    by (simp add: session_with_def db_ok_def)
qed

lemma sys_step_ok:
  assumes "sys_step cfg S S'" "sys_ok S"
  shows "sys_ok S'"
  using assms(1)
proof cases
  case (connect i)
  with assms(2) show ?thesis by (auto simp: sys_ok_def new_session_def held_def)
next
  case (disconnect i)
  with assms(2) show ?thesis by (auto simp: sys_ok_def)
next
  case (handled i ss pkt r s')
  note d = dispatch_sys [OF assms(2) handled(2,3)]
  show ?thesis using d(1) d(2) handled(1)
    by (auto simp: sys_ok_alt session_with_def db_ok_def split: if_splits)
next
  case (process_dies i ss pkt s')
  then show ?thesis using dispatch_sys(1) [OF assms(2) process_dies(2,3)]
    by (auto simp: sys_ok_def session_with_def db_ok_def)
next
  case (import_run sourceKey name stretchID key v period runID weblink updatedAt r w')
  then show ?thesis using sys_ok_world [OF assms(2)] keepsD [OF keeps_AddHistoricalRun] by metis
next
  case (link sourceKey pid r w')
  then show ?thesis using sys_ok_world [OF assms(2)] keepsD [OF keeps_LinkHistoricalAccount] by metis
next
  case (unlink sourceKey r w')
  then show ?thesis using sys_ok_world [OF assms(2)] keepsD [OF keeps_UnlinkHistoricalAccount] by metis
next
  case (environment t fs rows rnd n f)
  then show ?thesis using assms(2) by (simp add: sys_ok_def tables_ok_defs)
qed

text \<open>
  In every reachable state of the server the database meets the schema's constraints (unique
  ids, names, tokens and stat rows, no dangling reference, although the code does not rely on the
  database to enforce foreign keys), and every session's account and persona exist, whatever
  packets the sessions send, in whatever order, and whichever statements fail.
\<close>

theorem reachable_states_ok:
  assumes "initial S" "(sys_step cfg)\<^sup>*\<^sup>* S S'"
  shows "tables_ok (sys_world S')
    \<and> (\<forall>i ss. sys_sessions S' i = Some ss \<longrightarrow>
        (accountID ss \<noteq> 0 \<longrightarrow> accountID ss \<in> account_ids (sys_world S'))
        \<and> (personaID ss \<noteq> 0 \<longrightarrow> personaID ss \<in> persona_ids (sys_world S')))"
proof -
  have "sys_ok S'" using assms(2)
  proof (induction rule: rtranclp_induct)
    case base
    then show ?case using assms(1) by (simp add: sys_ok_def initial_def)
  next
    case (step S1 S2)
    then show ?case by (blast intro: sys_step_ok)
  qed
  then show ?thesis by (fastforce simp: sys_ok_def held_def split: if_splits)
qed

theorem reachable_states_ok_witness:
  "tables_ok (sys_world \<lparr>sys_world = two_personas, sys_sessions = [0 \<mapsto> new_session]\<rparr>)"
proof -
  let ?S = "\<lparr>sys_world = two_personas, sys_sessions = Map.empty\<rparr>"
  have "sys_step defaults ?S (?S\<lparr>sys_sessions := (sys_sessions ?S)(0 \<mapsto> new_session)\<rparr>)"
    by (rule sys_step.connect) simp
  then show ?thesis
    using reachable_states_ok [of ?S defaults "\<lparr>sys_world = two_personas, sys_sessions = [0 \<mapsto> new_session]\<rparr>"]
    by (simp add: initial_def two_personas_ok r_into_rtranclp)
qed

end
