(* ===== verification/Safety.thy ===== *)
theory Safety
  imports Dispatch
begin

text \<open>
  What the dispatcher guarantees about identities: a session gets an account only by credentials and
  a persona only of its account, and no other transaction touches either.
\<close>

subsection \<open>Who changes the session\<close>

lemma keeps_sess_store [keeps_intro]: "keeps (\<lambda>s. Q (sess s)) (on_store m)"
  by (auto simp: keeps_def on_store_def split: prod.splits)

lemma keeps_sess_randomHex [keeps_intro]: "keeps (\<lambda>s. Q (sess s)) (randomHex n)"
  unfolding randomHex_def by (intro keeps_intro)

lemma keeps_sess_associations [keeps_intro]:
  "keeps (\<lambda>s. Q (sess s)) (handleGetAssociations cfg pkt)"
  "keeps (\<lambda>s. Q (sess s)) (handleAddAssociations cfg pkt)"
  "keeps (\<lambda>s. Q (sess s)) (handleDeleteAssociations cfg pkt)"
proof -
  have emit: "keeps (\<lambda>s. Q (sess s)) (emitAssociationResult p pre t ir resp)" for p pre t ir resp
    by (cases ir) (auto simp: emitAssociationResult_def Let_def intro!: keeps_intro)
  have mut: "keeps (\<lambda>s. Q (sess s)) (associationMutationResponse pkt txn pre p t o1 o2 ot results)"
    for txn pre p t o1 o2 ot results
    unfolding associationMutationResponse_def Let_def by (intro keeps_intro emit)
  have add: "keeps (\<lambda>s. Q (sess s)) (add_request p t i acc)" for p t i acc
    by (cases acc) (auto simp: add_request_def validateAssociationRequest_def Let_def intro!: keeps_intro split: prod.splits)
  have del: "keeps (\<lambda>s. Q (sess s)) (delete_request p t i acc)" for p t i acc
    by (cases acc) (auto simp: delete_request_def validateAssociationRequest_def Let_def intro!: keeps_intro split: prod.splits)
  show "keeps (\<lambda>s. Q (sess s)) (handleGetAssociations cfg pkt)"
    unfolding handleGetAssociations_def Let_def by (intro keeps_intro)
  show "keeps (\<lambda>s. Q (sess s)) (handleAddAssociations cfg pkt)"
    unfolding handleAddAssociations_def Let_def by (intro keeps_intro add) (auto intro!: mut split: prod.splits)
  show "keeps (\<lambda>s. Q (sess s)) (handleDeleteAssociations cfg pkt)"
    unfolding handleDeleteAssociations_def Let_def by (intro keeps_intro del) (auto intro!: mut split: prod.splits)
qed

lemma keeps_sess_rank [keeps_intro]:
  "keeps (\<lambda>s. Q (sess s)) (handleGetStats cfg pkt)" "keeps (\<lambda>s. Q (sess s)) (handleGetRankedStats cfg pkt)"
  "keeps (\<lambda>s. Q (sess s)) (handleGetStatsForOwners cfg pkt)"
  "keeps (\<lambda>s. Q (sess s)) (handleGetRankedStatsForOwners cfg pkt)"
  "keeps (\<lambda>s. Q (sess s)) (handleGetTopNAndStats cfg pkt)" "keeps (\<lambda>s. Q (sess s)) (handleUpdateStats cfg pkt)"
  unfolding handleGetStats_def handleGetRankedStats_def handleGetStatsForOwners_def handleGetRankedStatsForOwners_def
    handleGetTopNAndStats_def handleUpdateStats_def submit_owner_def submit_stat_def submit_periods_def
    statGroupRankValue_def owner_ranked_def owner_stats_def ranked_key_def ranked_owner_def
    ranked_owner_key_def stats_owner_def Let_def
  by (intro keeps_intro; auto intro!: keeps_intro split: prod.splits)+

lemma keeps_sess_accounts [keeps_intro]:
  "keeps (\<lambda>s. Q (sess s)) (handleNuAddAccount cfg pkt)" "keeps (\<lambda>s. Q (sess s)) (handleNuGetPersonas cfg pkt)"
  "keeps (\<lambda>s. Q (sess s)) (handleNuAddPersona cfg pkt)" "keeps (\<lambda>s. Q (sess s)) (handleNuLookupUserInfo cfg pkt)"
  unfolding handleNuAddAccount_def handleNuGetPersonas_def handleNuAddPersona_def handleNuLookupUserInfo_def
    lookup_user_def Let_def
  by (intro keeps_intro)+

lemma handlers_sess:
  assumes "(name, h) \<in> set handlers" "name \<notin> {''NuLogin'', ''Login'', ''NuLoginPersona''}"
  shows "keeps (\<lambda>s. Q (sess s)) (h cfg pkt)"
  using assms unfolding handlers_def by (auto intro!: keeps_intro)

lemma dispatch_sess:
  "packet_txn pkt \<notin> {''NuLogin'', ''Login'', ''NuLoginPersona''} \<Longrightarrow> keeps (\<lambda>s. Q (sess s)) (dispatch cfg pkt)"
  unfolding dispatch_def by (auto split: option.splits intro!: keeps_gret dest!: map_of_SomeD handlers_sess)

lemma dispatch_login:
  "packet_txn pkt \<in> {''NuLogin'', ''Login''} \<Longrightarrow> dispatch cfg pkt = handleNuLogin cfg pkt"
  "packet_txn pkt = ''NuLoginPersona'' \<Longrightarrow> dispatch cfg pkt = handleNuLoginPersona cfg pkt"
  by (auto simp: dispatch_def handlers_def)

subsection \<open>Accounts come from credentials\<close>

text \<open>What a login packet has to show for an account of the database it meets.\<close>

definition credentials :: "packet \<Rightarrow> world \<Rightarrow> Account \<Rightarrow> bool" where
  "credentials pkt w a \<longleftrightarrow>
     (let p = ParamsMap (Params pkt) in
      if mget p ''encryptedInfo'' \<noteq> [] then token_account (mget p ''encryptedInfo'') w = Some a
      else acc_NUID a = mget p ''nuid'' \<and> verifyPassword (mget p ''password'') (acc_Password a))"

lemma query_world:
  "query f w = (Ret x, w') \<Longrightarrow> \<exists>fs. w' = w\<lparr>faults := fs\<rparr> \<and> x = f (w\<lparr>faults := fs\<rparr>)"
  using query_returns by metis

lemma GetAccountByNUID_returns:
  assumes "GetAccountByNUID nuid w = (Ret r, w')"
  shows "accounts w' = accounts w \<and> r = query_row (\<lambda>a. acc_NUID a = nuid) (accounts w)"
  using query_world [OF assms [unfolded GetAccountByNUID_def]] by auto

lemma find_map_key:
  "(\<And>x. P (f x) = P x) \<Longrightarrow> find P (map f xs) = map_option f (find P xs)"
  by (induction xs) auto

lemma ValidateAccount_returns:
  assumes "ValidateAccount nuid pw w = (Ret (Some b), w')"
  shows "\<exists>a \<in> set (accounts w). acc_ID a = acc_ID b \<and> acc_NUID a = nuid \<and> verifyPassword pw (acc_Password a)"
proof -
  obtain found w1 where 1: "GetAccountByNUID nuid w = (Ret found, w1)"
    using assms by (auto simp: ValidateAccount_def gbind_returns)
  note acc = GetAccountByNUID_returns [OF 1]
  obtain a where a: "found = Some a" "verifyPassword pw (acc_Password a)"
    using assms 1 by (auto simp: ValidateAccount_def gbind_def gret_def split: option.splits if_splits)
  then have mem: "a \<in> set (accounts w)" "acc_NUID a = nuid"
    using acc by (auto simp: query_row_def dest: find_SomeD)
  have "acc_ID a = acc_ID b"
  proof (cases "prefix (passwordScheme @ ''$'') (acc_Password a)")
    case True
    with assms 1 a show ?thesis by (simp add: ValidateAccount_def gbind_def gret_def)
  next
    case False
    then obtain salt w2 w3 where 2: "draw 16 w1 = (Ret salt, w2)"
      "exec_sql (update_password (acc_ID a) (hashPassword salt pw)) w2 = (Ret (), w3)"
      "GetAccountByNUID nuid w3 = (Ret (Some b), w')"
      using assms 1 a by (auto simp: ValidateAccount_def gbind_returns)
    have "accounts w2 = accounts w" using 2(1) acc by (auto simp: draw_def)
    then have "accounts w3 = map (\<lambda>x. if acc_ID x = acc_ID a then x\<lparr>acc_Password := hashPassword salt pw\<rparr> else x) (accounts w)"
      using 2(2) by (auto simp: exec_sql_def stmt_def update_password_def split: list.splits bool.splits)
    then have "Some b = map_option (\<lambda>x. if acc_ID x = acc_ID a then x\<lparr>acc_Password := hashPassword salt pw\<rparr> else x) found"
      using GetAccountByNUID_returns [OF 2(3)] acc
      by (simp add: query_row_def find_map_key)
    with a show ?thesis by simp
  qed
  with a mem show ?thesis by blast
qed

lemma AccountByLoginToken_returns:
  assumes "AccountByLoginToken token w = (Ret (Some a), w')"
  shows "token_account token w = Some a"
proof -
  obtain found w1 where q: "query (token_account token) w = (Ret found, w1)"
    using assms by (auto simp: AccountByLoginToken_def gbind_returns gret_def split: if_splits)
  then have "found = token_account token w"
    using query_world [OF q] by (auto simp: token_account_def cong: option.case_cong)
  moreover have "found = Some a"
    using assms q by (auto simp: AccountByLoginToken_def gbind_def gret_def split: if_splits option.splits prod.splits outcome.splits)
  ultimately show ?thesis by simp
qed

lemma token_account_member: "token_account token w = Some a \<Longrightarrow> a \<in> set (accounts w)"
  by (auto simp: token_account_def query_row_def split: option.splits dest: find_SomeD)

lemma login_account:
  assumes "handleNuLogin cfg pkt s = (r, s')" "accountID (sess s') \<noteq> accountID (sess s)"
  shows "\<exists>a \<in> set (accounts (db s)). acc_ID a = accountID (sess s') \<and> credentials pkt (db s) a"
proof -
  define Cr where "Cr x \<longleftrightarrow> (\<exists>a \<in> set (accounts (db s)). acc_ID a = x \<and> credentials pkt (db s) a)" for x
  let ?C = "\<lambda>t. accountID (sess t) = accountID (sess s) \<or> Cr (accountID (sess t))"
  let ?found = "\<lambda>r t. ?C t \<and> (\<forall>a. r = Some a \<longrightarrow> Cr (acc_ID a))"
  let ?p = "ParamsMap (Params pkt)"
  have sess: "sess (snd (on_store m t)) = sess t" for m :: "(world, 'b) go" and t
    by (simp add: on_store_def split: prod.splits)
  have store: "triple (\<lambda>t. t = s) (on_store m) ?found ?C"
    if "\<And>a w. m (db s) = (Ret (Some a), w) \<Longrightarrow> Cr (acc_ID a)" for m
    using that by (auto simp: triple_def on_store_def split: prod.splits outcome.splits)
  have tok: "triple (\<lambda>t. t = s) (on_store (AccountByLoginToken (mget ?p ''encryptedInfo''))) ?found ?C"
    if "mget ?p ''encryptedInfo'' \<noteq> []"
    using that AccountByLoginToken_returns token_account_member
    by (intro store) (fastforce simp: Cr_def credentials_def Let_def)
  have pw: "triple (\<lambda>t. t = s) (on_store (ValidateAccount (mget ?p ''nuid'') (mget ?p ''password''))) ?found ?C"
    if "\<not> mget ?p ''encryptedInfo'' \<noteq> []"
    using that ValidateAccount_returns by (intro store) (fastforce simp: Cr_def credentials_def Let_def)
  have refused: "triple (?found r) (reply t q ps) (\<lambda>_. ?C) ?C" for r t q ps
    by (rule triple_keeps [OF keeps_reply [of ?C]]) auto
  have login: "keeps ?C (loginResponse pkt b info)" if "Cr (acc_ID b)" for b info
    unfolding loginResponse_def using that by (intro keeps_intro keeps_gmodify) auto
  have found: "triple (?found r) m (\<lambda>_. ?C) ?C" if "r = Some b" "Cr (acc_ID b) \<Longrightarrow> keeps ?C m" for r b and m :: "string fesl"
  proof (cases "Cr (acc_ID b)")
    case True
    then show ?thesis using that by (intro triple_keeps [where J = ?C]) auto
  qed (use that(1) in \<open>auto simp: triple_def\<close>)
  have "triple (\<lambda>t. t = s) (handleNuLogin cfg pkt) (\<lambda>_. ?C) ?C"
    unfolding handleNuLogin_def Let_def
    by (intro triple_if triple_gbind [OF tok] triple_gbind [OF pw] triple_case_option refused found login
          keeps_gbind keeps_if keeps_gret keeps_sess_store [of "\<lambda>x. accountID x = accountID (sess s) \<or> Cr (accountID x)"])
  then have "?C s'" using assms(1) by (auto simp: triple_def split: prod.splits outcome.splits)
  with assms(2) show ?thesis by (auto simp: Cr_def)
qed

text \<open>
  C9. A session's account changes only by a login packet that shows credentials for the new account:
  a token that the database maps to it, or its NUID with a password that its stored hash accepts.
  Every other transaction leaves the whole session (account, persona, names, key) alone, apart from
  the persona login, which leaves the account alone. No assumption on the database or on faults.
\<close>

theorem account_needs_credentials:
  "(packet_txn pkt \<notin> {''NuLogin'', ''Login'', ''NuLoginPersona''} \<longrightarrow> sess (snd (dispatch cfg pkt s)) = sess s)
   \<and> (packet_txn pkt = ''NuLoginPersona'' \<longrightarrow> accountID (sess (snd (dispatch cfg pkt s))) = accountID (sess s))
   \<and> (accountID (sess (snd (dispatch cfg pkt s))) \<noteq> accountID (sess s) \<longrightarrow>
        (\<exists>a \<in> set (accounts (db s)). acc_ID a = accountID (sess (snd (dispatch cfg pkt s))) \<and> credentials pkt (db s) a))"
proof -
  have same: "sess (snd (dispatch cfg pkt s)) = sess s"
    if "packet_txn pkt \<notin> {''NuLogin'', ''Login'', ''NuLoginPersona''}"
    using dispatch_sess [OF that, where Q = "\<lambda>x. x = sess s"] by (simp add: keeps_def)
  have persona: "accountID (sess (snd (dispatch cfg pkt s))) = accountID (sess s)"
    if "packet_txn pkt = ''NuLoginPersona''"
  proof -
    have "keeps (\<lambda>t. accountID (sess t) = accountID (sess s)) (handleNuLoginPersona cfg pkt)"
      unfolding handleNuLoginPersona_def Let_def
      using keeps_sess_store [of "\<lambda>x. accountID x = accountID (sess s)"]
        keeps_sess_randomHex [of "\<lambda>x. accountID x = accountID (sess s)"]
      by (intro keeps_intro keeps_gmodify) auto
    then show ?thesis by (simp add: dispatch_login(2) [OF that] keeps_def)
  qed
  have login: "\<exists>a \<in> set (accounts (db s)). acc_ID a = accountID (sess (snd (dispatch cfg pkt s))) \<and> credentials pkt (db s) a"
    if "accountID (sess (snd (dispatch cfg pkt s))) \<noteq> accountID (sess s)"
  proof -
    have "packet_txn pkt \<in> {''NuLogin'', ''Login''}" using that same persona by fastforce
    then show ?thesis using login_account [of cfg pkt s] that by (metis dispatch_login(1) prod.collapse)
  qed
  show ?thesis using same persona login by blast
qed

subsection \<open>Personas come from the account\<close>

lemma LookupPersonaByName_returns:
  assumes "LookupPersonaByName name w = (Ret (Some p), w')"
  shows "\<exists>q \<in> set (personas w'). per_ID q = per_ID p \<and> per_AccountID q = per_AccountID p \<and> per_Name q = name \<and> per_Name p = name"
proof -
  obtain fs where w': "w' = w\<lparr>faults := fs\<rparr>"
    "map_option (scan_persona w') (query_row (\<lambda>p. per_Name p = name) (personas w')) = Some p"
    using query_world [OF assms [unfolded LookupPersonaByName_def]] by metis
  then obtain q where "query_row (\<lambda>p. per_Name p = name) (personas w') = Some q" "p = scan_persona w' q" by auto
  then have "q \<in> set (personas w') \<and> per_Name q = name" "p = scan_persona w' q"
    by (auto simp: query_row_def dest: find_SomeD)
  then show ?thesis by auto
qed

lemma GetOrCreatePersona_returns:
  assumes "GetOrCreatePersona aid name w = (Ret p, w')"
  shows "\<exists>q \<in> set (personas w'). per_ID q = per_ID p \<and> per_AccountID q = aid \<and> per_Name q = name"
proof -
  obtain found w1 where 1: "LookupPersonaByName name w = (Ret found, w1)"
    using assms by (auto simp: GetOrCreatePersona_def gbind_returns)
  have "\<exists>w0. LookupPersonaByName name w0 = (Ret (Some p), w') \<and> per_AccountID p = aid"
  proof (cases found)
    case (Some existing)
    with assms 1 have "existing = p" "w' = w1" "per_AccountID p = aid"
      by (auto simp: GetOrCreatePersona_def gbind_def gret_def gfail_def split: if_splits)
    with 1 Some show ?thesis by auto
  next
    case None
    with assms 1 obtain w2 r where 2: "LookupPersonaByName name w2 = (Ret r, w')"
      "r \<noteq> None" "per_AccountID (the r) = aid" "p = the r"
      by (auto simp: GetOrCreatePersona_def gbind_def gret_def gfail_def split: if_splits option.splits outcome.splits prod.splits)
    then show ?thesis by auto
  qed
  then show ?thesis using LookupPersonaByName_returns by blast
qed

text \<open>
  C10. A session that logs in to a persona gets one of its own account: after \<open>NuLoginPersona\<close> has
  changed the session's persona, the database holds that persona under the requested name and the
  session's account. A session without an account gets none.
\<close>

theorem persona_of_account:
  assumes "dispatch cfg pkt s = (r, s')" "packet_txn pkt = ''NuLoginPersona''"
    "personaID (sess s') \<noteq> personaID (sess s)"
  shows "accountID (sess s) \<noteq> 0 \<and> (\<exists>p \<in> set (personas (db s')). per_ID p = personaID (sess s')
    \<and> per_AccountID p = accountID (sess s) \<and> per_Name p = mget (ParamsMap (Params pkt)) ''name'')"
proof -
  let ?acc = "accountID (sess s)" and ?name = "mget (ParamsMap (Params pkt)) ''name''"
  define Own where "Own t \<longleftrightarrow> ?acc \<noteq> 0 \<and> (\<exists>p \<in> set (personas (db t)). per_ID p = personaID (sess t)
    \<and> per_AccountID p = ?acc \<and> per_Name p = ?name)" for t :: server_state
  let ?C = "\<lambda>t. personaID (sess t) = personaID (sess s) \<or> Own t"
  have read: "triple (\<lambda>t. t = s) (gget (\<lambda>s. accountID (sess s))) (\<lambda>x t. t = s \<and> x = ?acc) ?C"
    by (simp add: triple_def go_run)
  have refused: "triple (\<lambda>t. t = s \<and> x = ?acc) (reply t q ps) (\<lambda>_. ?C) ?C" for x t q ps
    by (rule triple_keeps [OF keeps_reply [of ?C]]) auto
  have store: "triple (\<lambda>t. t = s \<and> x = ?acc) (on_store (GetOrCreatePersona x ?name))
      (\<lambda>p t. ?C t \<and> (\<exists>q \<in> set (personas (db t)). per_ID q = per_ID p \<and> per_AccountID q = ?acc \<and> per_Name q = ?name)) ?C" for x
    using GetOrCreatePersona_returns
    by (fastforce simp: triple_def on_store_def split: prod.splits outcome.splits)
  have err: "triple ?C (if b then reply t q ps else gfail e) (\<lambda>_. ?C) ?C" for b t q ps e
    by (intro triple_if triple_keeps [OF keeps_reply [of ?C]] triple_keeps [OF keeps_gfail [of ?C]])
  have set: "triple (\<lambda>t. ?C t \<and> (\<exists>q \<in> set (personas (db t)). per_ID q = per_ID p \<and> per_AccountID q = ?acc \<and> per_Name q = ?name))
      (gmodify (\<lambda>s. s\<lparr>sess := (sess s)\<lparr>personaID := per_ID p, personaName := per_Name p\<rparr>\<rparr>)) (\<lambda>_. ?C) ?C"
    if "?acc \<noteq> 0" for p
    using that by (auto simp: triple_def go_run Own_def)
  have draw: "personas (snd (draw n w)) = personas w" for n w by (simp add: draw_def)
  have hex: "keeps ?C (randomHex n)" for n
    by (auto simp: keeps_def randomHex_def gbind_def on_store_def draw_def gret_def Own_def)
  have lkey: "keeps ?C (gmodify (\<lambda>s. s\<lparr>sess := (sess s)\<lparr>lkey := k\<rparr>\<rparr>))" for k
    by (rule keeps_gmodify) (auto simp: Own_def)
  have rest: "keeps ?C (gbind (randomHex 20) (\<lambda>key. gbind (gmodify (\<lambda>s. s\<lparr>sess := (sess s)\<lparr>lkey := key\<rparr>\<rparr>)) (\<lambda>_.
      reply t q (ps key))))" for t q ps
    by (intro keeps_gbind hex lkey keeps_reply)
  have "triple (\<lambda>t. t = s) (handleNuLoginPersona cfg pkt) (\<lambda>_. ?C) ?C"
    unfolding handleNuLoginPersona_def Let_def
  proof (rule triple_gbind [OF read], intro triple_if refused)
    fix x :: int
    assume "x \<noteq> 0"
    show "triple (\<lambda>t. t = s \<and> x = ?acc) (gtry (on_store (GetOrCreatePersona x ?name))
        (\<lambda>err. if err = ErrPersonaNameTaken then reply ''acct'' pkt (kvs [''TXN'', ''NuLoginPersona'', ''errorCode'', ''122'']) else gfail err)
        (\<lambda>persona. gbind (gmodify (\<lambda>s. s\<lparr>sess := (sess s)\<lparr>personaID := per_ID persona, personaName := per_Name persona\<rparr>\<rparr>)) (\<lambda>_.
          gbind (randomHex 20) (\<lambda>key. gbind (gmodify (\<lambda>s. s\<lparr>sess := (sess s)\<lparr>lkey := key\<rparr>\<rparr>)) (\<lambda>_.
          reply ''acct'' pkt (kvs [''TXN'', ''NuLoginPersona'', ''lkey'', key, ''profileId'', itoa64 (per_ID persona),
            ''userId'', itoa64 x])))))) (\<lambda>_. ?C) ?C"
    proof (cases "x = ?acc")
      case True
      with \<open>x \<noteq> 0\<close> show ?thesis
        by (intro triple_gtry [OF store] err triple_gbind [OF set] triple_keeps [OF rest, where I = ?C]) auto
    qed (simp add: triple_def)
  qed
  then have "?C s'" using assms(1) dispatch_login(2) [OF assms(2)]
    by (auto simp: triple_def split: prod.splits outcome.splits)
  with assms(3) show ?thesis by (simp add: Own_def)
qed

definition celeste_account :: server_state where
  "celeste_account = \<lparr>db = two_personas, sess = new_session\<lparr>accountID := 2\<rparr>\<rparr>"

definition persona_packet :: "string \<Rightarrow> packet" where
  "persona_packet name = \<lparr>Type = ''acct'', ID = 3, Params = kvs [''TXN'', ''NuLoginPersona'', ''name'', name]\<rparr>"

theorem persona_of_account_witness:
  "\<exists>p \<in> set (personas (db (snd (dispatch defaults (persona_packet ''Celeste'') celeste_account)))).
     per_ID p = 2 \<and> per_AccountID p = 2 \<and> per_Name p = ''Celeste''"
proof -
  let ?d = "dispatch defaults (persona_packet ''Celeste'') celeste_account"
  have pkt: "packet_txn (persona_packet ''Celeste'') = ''NuLoginPersona''"
    "mget (ParamsMap (Params (persona_packet ''Celeste''))) ''name'' = ''Celeste''" by code_simp+
  have valid: "validatePersonaName ''Celeste'' (MaxIdentifierLength defaults) = []" by code_simp
  let ?p = "\<lparr>per_ID = 2, per_AccountID = 2, per_Name = ''Celeste'', per_CreatedAt = ''t''\<rparr>"
  have "?p \<in> set (personas two_personas)" by (simp add: two_personas_def)
  then have "GetOrCreatePersona 2 ''Celeste'' two_personas = (Ret (scan_persona two_personas ?p), two_personas)"
    using GetOrCreatePersona_taken [of two_personas ?p 2] two_personas_ok by (simp add: tables_ok_def)
  then have "personaID (sess (snd (handleNuLoginPersona defaults (persona_packet ''Celeste'') celeste_account))) = 2"
    using pkt(2) valid
    by (simp add: handleNuLoginPersona_def Let_def go_run on_store_def celeste_account_def randomHex_def
        reply_def new_session_def)
  then have "personaID (sess (snd ?d)) = 2" by (simp only: dispatch_login(2) [OF pkt(1)])
  moreover note pkt
  ultimately show ?thesis
    using persona_of_account [of defaults "persona_packet ''Celeste''" celeste_account "fst ?d" "snd ?d"]
    by (simp add: celeste_account_def new_session_def)
qed

text \<open>
  A second login on the same connection changes the account and keeps the persona: here a session
  that plays persona 2 of account 2 logs in to account 1 by a token.
\<close>

definition token_login :: packet where
  "token_login = \<lparr>Type = ''acct'', ID = 2, Params = kvs [''TXN'', ''NuLogin'', ''encryptedInfo'', ''tok'']\<rparr>"

definition celeste_with_token :: server_state where
  "celeste_with_token = celeste\<lparr>db := (db celeste)\<lparr>login_tokens :=
     [\<lparr>tk_token_hash = hashLoginToken ''tok'', tk_account_id = 1, tk_created_at = [], tk_last_used_at = []\<rparr>]\<rparr>\<rparr>"

lemma relogin_keeps_persona:
  "(let s = sess (snd (handleNuLogin defaults token_login celeste_with_token)) in accountID s = 1 \<and> personaID s = 2)
   \<and> map (\<lambda>p. (per_ID p, per_AccountID p)) (personas (db celeste_with_token)) = [(1, 1), (2, 2)]"
proof -
  let ?w = "db celeste_with_token" and ?a = "\<lparr>acc_ID = 1, acc_NUID = ''n@x'', acc_Password = ''pw''\<rparr>"
  have w: "faults ?w = []" "tables_ok ?w" "?a \<in> set (accounts ?w)" "token_owner (hashLoginToken ''tok'') ?w = Some (acc_ID ?a)"
    by (simp_all add: celeste_with_token_def celeste_def two_personas_def one_account_def empty_world_def tables_ok_defs
        token_owner_def query_row_def)
  have "ValidLoginToken ''tok''" by code_simp
  with w have "AccountByLoginToken ''tok'' ?w = (Ret (Some ?a), touch_token ''tok'' ?w)"
    by (intro AccountByLoginToken_run)
  moreover have "mget (ParamsMap (Params token_login)) ''encryptedInfo'' = ''tok''" by code_simp
  ultimately show ?thesis
    by (simp add: handleNuLogin_def loginResponse_def Let_def go_run on_store_def randomHex_def reply_def)
       (simp add: celeste_with_token_def celeste_def new_session_def two_personas_def)
qed

theorem account_needs_credentials_witness:
  "accountID (sess (snd (dispatch defaults token_login celeste_with_token))) = 1
   \<and> (\<exists>a \<in> set (accounts (db celeste_with_token)). acc_ID a = 1 \<and> credentials token_login (db celeste_with_token) a)
   \<and> sess (snd (dispatch defaults (\<lparr>Type = ''fsys'', ID = 1, Params = kvs [''TXN'', ''Hello'']\<rparr>) celeste)) = sess celeste"
proof -
  have txn: "packet_txn token_login = ''NuLogin''"
    "packet_txn (\<lparr>Type = ''fsys'', ID = 1, Params = kvs [''TXN'', ''Hello'']\<rparr>) = ''Hello''" by code_simp+
  then have "dispatch defaults token_login = handleNuLogin defaults token_login" by (simp add: dispatch_login(1))
  with relogin_keeps_persona have "accountID (sess (snd (dispatch defaults token_login celeste_with_token))) = 1"
    by (simp add: Let_def)
  moreover have "accountID (sess celeste_with_token) \<noteq> 1"
    by (simp add: celeste_with_token_def celeste_def new_session_def)
  ultimately show ?thesis
    using account_needs_credentials [of token_login defaults celeste_with_token]
      account_needs_credentials [of "\<lparr>Type = ''fsys'', ID = 1, Params = kvs [''TXN'', ''Hello'']\<rparr>" defaults celeste] txn
    by simp
qed

end
