(* ===== verification/Panics.thy ===== *)
theory Panics
  imports Safety
begin

text \<open>
  Which packets make the process panic. A panic in a handler is not recovered by \<open>Session.run\<close>, so it
  ends the whole server. The only sources are the two list parsers with a count from the packet; every
  other handler returns a value or an error, whatever the database does.
\<close>

subsection \<open>The store\<close>

lemma no_panic_on_store [no_panic_intro]: "no_panic m \<Longrightarrow> no_panic (on_store m)"
  by (auto simp: no_panic_def on_store_def split: prod.splits) (metis fst_conv)

lemma no_panic_stmts [no_panic_intro]:
  "no_panic (\<lambda>w. let w' = f w in (Ret (g w w'), w'))" "no_panic (\<lambda>w. if b w then (Fail e, w) else (Ret x, h w))"
  by (simp_all add: no_panic_def Let_def)

lemma no_panic_accounts [no_panic_intro]:
  "no_panic (GetAccountByNUID nuid)" "no_panic (CreateAccount nuid pw)" "no_panic (ValidateAccount nuid pw)"
  "no_panic (RevokeLoginTokens aid)" "no_panic (insert_token h aid)" "no_panic (IssueLoginToken aid)"
  "no_panic (AccountByLoginToken token)"
  unfolding GetAccountByNUID_def CreateAccount_def ValidateAccount_def RevokeLoginTokens_def insert_token_def
    IssueLoginToken_def AccountByLoginToken_def
  by (intro no_panic_intro)+

lemma no_panic_personas [no_panic_intro]:
  "no_panic (Personas aid)" "no_panic (LookupPersonaByName name)" "no_panic (GetOrCreatePersona aid name)"
  "no_panic (PersonaByID pid)" "no_panic (PersonaExists pid)" "no_panic (GetAssociations pid t)"
  "no_panic (AddAssociation pid fid t)" "no_panic (DeleteAssociation pid fid t)"
  unfolding Personas_def LookupPersonaByName_def GetOrCreatePersona_def PersonaByID_def PersonaExists_def
    GetAssociations_def DeleteAssociation_def AddAssociation_def
  by (intro no_panic_intro; simp add: no_panic_def Let_def)+

lemma no_panic_stats [no_panic_intro]:
  "no_panic (bestPersonaIDForKey pid key period)" "no_panic (bestPersonaIDForKeys pid keys period)"
  "no_panic (linkedHistoricalStats pid keys period)" "no_panic (linkedHistoricalTime pid key period)"
  "no_panic (GetStats pid keys period)" "no_panic (rankForValue key period v)"
  "no_panic (RankedStats pid key period)" "no_panic (HistoricalStats oid keys period)"
  "no_panic (HistoricalRankedStats oid key period)" "no_panic (upsert_stat pid key v period)"
  "no_panic (UpdateStats pid vs period)"
  unfolding bestPersonaIDForKey_def bestPersonaIDForKeys_def linkedHistoricalStats_def linkedHistoricalTime_def
    GetStats_def rankForValue_def RankedStats_def HistoricalStats_def HistoricalRankedStats_def UpdateStats_def
    upsert_stat_def
  by (intro no_panic_intro; auto intro!: no_panic_intro split: prod.splits)+

lemma no_panic_TopN [no_panic_intro]: "no_panic (TopN key minRank maxRank extraKeys period)"
proof -
  have "no_panic (top_entry key extraKeys period offset row)" for offset row
    by (cases row) (auto simp: top_entry_def intro!: no_panic_intro)
  then show ?thesis unfolding TopN_def by (intro no_panic_intro)
qed

subsection \<open>The handlers\<close>

lemma no_panic_helpers [no_panic_intro]: "no_panic (reply t pkt ps)" "no_panic (randomHex n)"
  unfolding reply_def randomHex_def by (intro no_panic_intro)+

lemma no_panic_session [no_panic_intro]:
  "no_panic (handleHello cfg pkt)" "no_panic (handleGetLockerURL cfg pkt)" "no_panic (handleNuSuggestPersonas cfg pkt)"
  "no_panic (handleNuGetEntitlements cfg pkt)" "no_panic (handleNuGetEntitlementCount cfg pkt)"
  "no_panic (handleGameSpyPreAuth cfg pkt)" "no_panic (handleGetCountryList cfg pkt)" "no_panic (handleNuGetTos cfg pkt)"
  "no_panic (handleSetPresenceStatus cfg pkt)" "no_panic (handlePresenceSubscribe cfg pkt)"
  "no_panic (handleModifySettings cfg pkt)" "no_panic (handleGetMessages cfg pkt)" "no_panic (handleNuLogin cfg pkt)"
  "no_panic (handleNuAddAccount cfg pkt)" "no_panic (handleNuGetPersonas cfg pkt)" "no_panic (handleNuLoginPersona cfg pkt)"
  "no_panic (handleNuAddPersona cfg pkt)" "no_panic (handleNuLookupUserInfo cfg pkt)"
  unfolding handleHello_def handleGetLockerURL_def handleNuSuggestPersonas_def handleNuGetEntitlements_def
    handleNuGetEntitlementCount_def handleGameSpyPreAuth_def handleGetCountryList_def handleNuGetTos_def
    handleSetPresenceStatus_def handlePresenceSubscribe_def handleModifySettings_def handleGetMessages_def
    handleNuLogin_def loginResponse_def handleNuAddAccount_def handleNuGetPersonas_def handleNuLoginPersona_def
    handleNuAddPersona_def handleNuLookupUserInfo_def lookup_user_def Let_def
  by (intro no_panic_intro)+

lemma no_panic_associations [no_panic_intro]:
  "no_panic (handleGetAssociations cfg pkt)" "no_panic (handleAddAssociations cfg pkt)"
  "no_panic (handleDeleteAssociations cfg pkt)"
  unfolding handleGetAssociations_def handleAddAssociations_def handleDeleteAssociations_def Let_def
    add_request_def delete_request_def validateAssociationRequest_def associationMutationResponse_def
    emitAssociationResult_def
  by (intro no_panic_intro; auto intro!: no_panic_intro split: prod.splits)+

lemma no_panic_ranks [no_panic_intro]:
  "no_panic (owner_ranked oid key period)" "no_panic (owner_stats oid keys period)"
  "no_panic (statGroupRankValue oid keys period)"
  unfolding owner_ranked_def owner_stats_def statGroupRankValue_def by (intro no_panic_intro)+

lemma no_panic_ranked_key [no_panic_intro]: "no_panic (ranked_key persona period ik resp)"
  by (cases ik) (auto simp: ranked_key_def intro!: no_panic_intro)

lemma no_panic_stats_owner [no_panic_intro]: "no_panic (stats_owner s keys period io resp)"
  by (cases io) (auto simp: stats_owner_def intro!: no_panic_intro)

lemma no_panic_ranked_owner [no_panic_intro]: "no_panic (ranked_owner s keys period io resp)"
proof -
  have "no_panic (ranked_owner_key lookupID period pre jk resp)" for lookupID pre jk resp
    by (cases jk) (auto simp: ranked_owner_key_def intro!: no_panic_intro)
  then show ?thesis by (cases io) (auto simp: ranked_owner_def intro!: no_panic_intro)
qed

lemma no_panic_update [no_panic_intro]: "no_panic (handleUpdateStats cfg pkt)"
  unfolding handleUpdateStats_def submit_owner_def submit_stat_def submit_periods_def by (intro no_panic_intro)

subsection \<open>The packets that end the process\<close>

text \<open>The counts of a packet's lists, as the parsers read them.\<close>

definition keys_ok :: "packet \<Rightarrow> bool" where
  "keys_ok pkt \<longleftrightarrow> make_ok 16 (atoi (mget (ParamsMap (Params pkt)) ''keys.[]''))"

definition owners_ok :: "packet \<Rightarrow> bool" where
  "owners_ok pkt \<longleftrightarrow> make_ok 24 (atoi (mget (ParamsMap (Params pkt)) ''owners.[]''))"

lemma panic_first:
  assumes "\<And>x. no_panic (f x)"
  shows "fst (gbind m f s) = Panic \<longleftrightarrow> fst (m s) = Panic"
  using assms by (auto simp: gbind_def no_panic_def split: prod.splits outcome.splits)

lemma parse_panics:
  "fst (parseKeyList (ParamsMap (Params pkt)) ''keys'' s) = Panic \<longleftrightarrow> \<not> keys_ok pkt"
  "fst (parseOwnerList (ParamsMap (Params pkt)) s) = Panic \<longleftrightarrow> \<not> owners_ok pkt"
  by (simp_all add: parseKeyList_def parseOwnerList_def keys_ok_def owners_ok_def Let_def go_run)

lemma parse_first:
  assumes "\<And>x. no_panic (f x)"
  shows "fst (gbind (parseKeyList (ParamsMap (Params pkt)) ''keys'') f s) = Panic \<longleftrightarrow> \<not> keys_ok pkt"
  by (subst panic_first) (simp_all add: assms parse_panics)

lemma parse_both:
  assumes "\<And>x y. no_panic (f x y)"
  shows "fst (gbind (parseOwnerList (ParamsMap (Params pkt)))
      (\<lambda>owners. gbind (parseKeyList (ParamsMap (Params pkt)) ''keys'') (f owners)) s) = Panic \<longleftrightarrow>
    \<not> (owners_ok pkt \<and> keys_ok pkt)"
proof (cases "owners_ok pkt")
  case True
  then obtain owners where "parseOwnerList (ParamsMap (Params pkt)) s = (Ret owners, s)"
    by (auto simp: parseOwnerList_def owners_ok_def Let_def go_run)
  with True show ?thesis using parse_first [OF assms] by (simp add: go_run)
next
  case False
  then have "parseOwnerList (ParamsMap (Params pkt)) s = (Panic, s)"
    by (auto simp: parseOwnerList_def owners_ok_def Let_def go_run)
  with False show ?thesis by (simp add: go_run)
qed

lemma rank_panics:
  "fst (handleGetStats cfg pkt s) = Panic \<longleftrightarrow> \<not> keys_ok pkt"
  "fst (handleGetRankedStats cfg pkt s) = Panic \<longleftrightarrow> \<not> keys_ok pkt"
  "fst (handleGetTopNAndStats cfg pkt s) = Panic \<longleftrightarrow> \<not> keys_ok pkt"
  "fst (handleGetStatsForOwners cfg pkt s) = Panic \<longleftrightarrow> \<not> (owners_ok pkt \<and> keys_ok pkt)"
  "fst (handleGetRankedStatsForOwners cfg pkt s) = Panic \<longleftrightarrow> \<not> (owners_ok pkt \<and> keys_ok pkt)"
  unfolding handleGetStats_def handleGetRankedStats_def handleGetTopNAndStats_def handleGetStatsForOwners_def
    handleGetRankedStatsForOwners_def Let_def
  by (intro parse_first parse_both no_panic_intro)+

text \<open>
  C20. Exactly which packets make a handler panic, and so end the server: stat requests whose count of
  keys or owners is negative, or too large for \<open>make\<close>. No other packet does, in no state of the
  database and for no failure of it.
\<close>

theorem panics_exactly:
  "fst (dispatch cfg pkt s) = Panic \<longleftrightarrow>
     (packet_txn pkt \<in> {''GetStats'', ''GetRankedStats'', ''GetTopNAndStats''} \<and> \<not> keys_ok pkt)
     \<or> (packet_txn pkt \<in> {''GetStatsForOwners'', ''GetRankedStatsForOwners''} \<and> \<not> (owners_ok pkt \<and> keys_ok pkt))"
proof (cases "map_of handlers (packet_txn pkt)")
  case None
  then show ?thesis by (auto simp: dispatch_def go_run handlers_def split: if_splits)
next
  case (Some h)
  then have h: "(packet_txn pkt, h) \<in> set handlers" by (rule map_of_SomeD)
  have other: "fst (h cfg pkt s) \<noteq> Panic" if "no_panic (h cfg pkt)" using that by (simp add: no_panic_def)
  have "dispatch cfg pkt s = h cfg pkt s" using Some by (simp add: dispatch_def)
  with h show ?thesis using other by (auto simp: handlers_def rank_panics no_panic_intro)
qed

text \<open>A single packet that any client can send without logging in.\<close>

definition fatal_packet :: packet where
  "fatal_packet = \<lparr>Type = ''rank'', ID = 9, Params = kvs [''TXN'', ''GetStats'', ''keys.[]'', ''-1'']\<rparr>"

lemma negative_count_ends_the_server:
  "crashed (snd (process cfg now fatal_packet c)) \<and> \<not> fst (process cfg now fatal_packet c)"
proof -
  have "packet_txn fatal_packet = ''GetStats''" "\<not> keys_ok fatal_packet" by code_simp+
  then have "fst (dispatch cfg fatal_packet (srv c)) = Panic"
    unfolding dispatch_def by (simp add: handlers_def rank_panics)
  moreover have "\<not> (packet_txn fatal_packet = ''MemCheck'' \<and> ID fatal_packet = 0x80000000)"
    by (simp add: \<open>packet_txn fatal_packet = ''GetStats''\<close>)
  ultimately show ?thesis by (auto simp: process_def split: prod.splits outcome.splits)
qed

end
