(* ===== verification/Go_Fs.thy ===== *)
theory Go_Fs
  imports Prelude Go_Path "HOL-Library.AList"
begin

text \<open>
  The part of package \<open>os\<close> that the locker and the log use, on a disk of files and directories named by
  clean paths (no symbolic links). Every call takes the next outcome from \<open>io\<close>: it works, it fails
  before it has changed anything, or it fails half-way (a write that was cut short); an exhausted
  list means that everything works. \<open>unix_now\<close> is the clock that new files are stamped with.
\<close>

datatype fnode = Folder | Plain string int

datatype io_outcome = IoOk | IoFail | IoPartial nat

record disk =
  nodes :: "(string \<times> fnode) list"
  io :: "io_outcome list"
  unix_now :: int

definition io_step :: "(io_outcome \<Rightarrow> (disk, 'a) go) \<Rightarrow> (disk, 'a) go" where
  "io_step f d = (case io d of [] \<Rightarrow> f IoOk d | x # xs \<Rightarrow> f x (d\<lparr>io := xs\<rparr>))"

definition node_at :: "disk \<Rightarrow> string \<Rightarrow> fnode option" where
  "node_at d path = map_of (nodes d) (Clean path)"

text \<open>\<open>/\<close>, \<open>.\<close> and the directories above it exist without being listed.\<close>

definition root_path :: "string \<Rightarrow> bool" where
  "root_path p \<longleftrightarrow> set (split_char slash p) \<subseteq> {[], ''.'', ''..''}"

definition is_folder :: "disk \<Rightarrow> string \<Rightarrow> bool" where
  "is_folder d path \<longleftrightarrow> path \<noteq> [] \<and> (root_path (Clean path) \<or> node_at d path = Some Folder)"

definition put_node :: "string \<Rightarrow> fnode \<Rightarrow> disk \<Rightarrow> disk" where
  "put_node path n d = d\<lparr>nodes := AList.update (Clean path) n (nodes d)\<rparr>"

subsection \<open>Files\<close>

definition ReadFile :: "string \<Rightarrow> (disk, string) go" where
  "ReadFile path = io_step (\<lambda>out d.
     if out \<noteq> IoOk then (Fail ErrIO, d)
     else case node_at d path of
         None \<Rightarrow> (Fail ErrNotExist, d)
       | Some Folder \<Rightarrow> (Fail ErrIO, d)
       | Some (Plain c _) \<Rightarrow> (Ret c, d))"

definition WriteFile :: "string \<Rightarrow> string \<Rightarrow> (disk, unit) go" where
  "WriteFile path data = io_step (\<lambda>out d.
     if path = [] \<or> \<not> is_folder d (Dir path) then (Fail ErrNotExist, d)
     else if is_folder d path then (Fail ErrIO, d)
     else case out of
         IoOk \<Rightarrow> (Ret (), put_node path (Plain data (unix_now d)) d)
       | IoFail \<Rightarrow> (Fail ErrIO, d)
       | IoPartial n \<Rightarrow> (Fail ErrIO, put_node path (Plain (take n data) (unix_now d)) d))"

definition RemoveFile :: "string \<Rightarrow> (disk, unit) go" where
  "RemoveFile path = io_step (\<lambda>out d.
     if out \<noteq> IoOk then (Fail ErrIO, d)
     else case node_at d path of
         Some (Plain _ _) \<Rightarrow> (Ret (), d\<lparr>nodes := AList.delete (Clean path) (nodes d)\<rparr>)
       | _ \<Rightarrow> (Fail ErrIO, d))"

text \<open>\<open>OpenFile\<close> for appending, and a write to such a file, which is lost once the file is removed.\<close>

definition OpenAppend :: "string \<Rightarrow> (disk, unit) go" where
  "OpenAppend path = io_step (\<lambda>out d.
     if path = [] \<or> \<not> is_folder d (Dir path) then (Fail ErrNotExist, d)
     else if is_folder d path \<or> out \<noteq> IoOk then (Fail ErrIO, d)
     else if node_at d path = None then (Ret (), put_node path (Plain [] (unix_now d)) d)
     else (Ret (), d))"

definition AppendOpen :: "string \<Rightarrow> string \<Rightarrow> (disk, unit) go" where
  "AppendOpen path data = io_step (\<lambda>out d. case node_at d path of
       Some (Plain c t) \<Rightarrow> (case out of
           IoOk \<Rightarrow> (Ret (), put_node path (Plain (c @ data) (unix_now d)) d)
         | IoFail \<Rightarrow> (Fail ErrIO, d)
         | IoPartial n \<Rightarrow> (Fail ErrIO, put_node path (Plain (c @ take n data) (unix_now d)) d))
     | _ \<Rightarrow> (Ret (), d))"

subsection \<open>Directories\<close>

text \<open>The directories on the way to a path, itself included.\<close>

definition ancestors :: "string \<Rightarrow> string list" where
  "ancestors path = (let ps = split_char slash (Clean path) in
     filter (\<lambda>p. p \<noteq> []) (map (\<lambda>k. join_slash (take (Suc k) ps)) [0..<length ps]))"

fun make_dirs :: "string list \<Rightarrow> disk \<Rightarrow> unit outcome \<times> disk" where
  "make_dirs [] d = (Ret (), d)"
| "make_dirs (p # ps) d =
     (if is_folder d p then make_dirs ps d
      else if node_at d p = None then make_dirs ps (put_node p Folder d)
      else (Fail ErrIO, d))"

definition MkdirAll :: "string \<Rightarrow> (disk, unit) go" where
  "MkdirAll path = io_step (\<lambda>out d. if path = [] then (Fail ErrNotExist, d) else case out of
       IoOk \<Rightarrow> make_dirs (ancestors path) d
     | IoFail \<Rightarrow> (Fail ErrIO, d)
     | IoPartial n \<Rightarrow> (Fail ErrIO, snd (make_dirs (take n (ancestors path)) d)))"

text \<open>A path that goes through a file: the error is then \<open>ENOTDIR\<close>, which is not \<open>os.ErrNotExist\<close>.\<close>

definition below_file :: "disk \<Rightarrow> string \<Rightarrow> bool" where
  "below_file d path \<longleftrightarrow> list_ex (\<lambda>p. case node_at d p of Some (Plain _ _) \<Rightarrow> True | _ \<Rightarrow> False) (ancestors path)"

text \<open>The entries of a directory in the order of their names.\<close>

definition dir_entries :: "disk \<Rightarrow> string \<Rightarrow> (string \<times> fnode) list" where
  "dir_entries d path = sort_key fst (concat (map (\<lambda>(k, n).
     if plain_name (Base k) \<and> Join [path, Base k] = k then [(Base k, n)] else []) (nodes d)))"

definition ReadDir :: "string \<Rightarrow> (disk, (string \<times> fnode) list) go" where
  "ReadDir path = io_step (\<lambda>out d.
     if out \<noteq> IoOk then (Fail ErrIO, d)
     else if is_folder d path then (Ret (dir_entries d path), d)
     else if node_at d path = None \<and> \<not> below_file d path then (Fail ErrNotExist, d)
     else (Fail ErrIO, d))"

text \<open>\<open>DirEntry.Info\<close>: size and modification time, of a file that may be gone by then.\<close>

definition FileInfo :: "fnode \<Rightarrow> (disk, int \<times> int) go" where
  "FileInfo n = io_step (\<lambda>out d.
     if out \<noteq> IoOk then (Fail ErrIO, d)
     else case n of Folder \<Rightarrow> (Ret (0, 0), d) | Plain c t \<Rightarrow> (Ret (int (length c), t), d))"

subsection \<open>Laws\<close>

lemma io_quiet [simp]: "io d = [] \<Longrightarrow> io_step f d = f IoOk d"
  by (simp add: io_step_def)

lemma put_node_simps [simp]:
  "io (put_node p n d) = io d" "unix_now (put_node p n d) = unix_now d"
  "node_at (put_node p n d) q = (if Clean q = Clean p then Some n else node_at d q)"
  by (auto simp: put_node_def node_at_def update_conv')

lemma node_at_io [simp]: "node_at (d\<lparr>io := xs\<rparr>) p = node_at d p" "is_folder (d\<lparr>io := xs\<rparr>) p = is_folder d p"
  by (simp_all add: node_at_def is_folder_def)

text \<open>
  What may change between two states of the disk: the files \<open>F\<close>, and directories \<open>D\<close> that were not
  there before. It is an order, so it goes through a handler as an invariant of its later states.
\<close>

definition changes_only :: "(string \<Rightarrow> bool) \<Rightarrow> (string \<Rightarrow> bool) \<Rightarrow> disk \<Rightarrow> disk \<Rightarrow> bool" where
  "changes_only F D d d' \<longleftrightarrow> (\<forall>p. node_at d' p = node_at d p \<or> F (Clean p)
     \<or> (D (Clean p) \<and> node_at d p = None \<and> node_at d' p = Some Folder))"

lemma changes_only_refl [simp]: "changes_only F D d d"
  by (simp add: changes_only_def)

lemma changes_only_trans: "changes_only F D d d1 \<Longrightarrow> changes_only F D d1 d2 \<Longrightarrow> changes_only F D d d2"
  unfolding changes_only_def by (metis option.distinct(1))

lemma changes_only_io [simp]:
  "changes_only F D d (d1\<lparr>io := xs\<rparr>) = changes_only F D d d1"
  "changes_only F D (d\<lparr>io := xs\<rparr>) d1 = changes_only F D d d1"
  by (simp_all add: changes_only_def)

lemma changes_only_file: "F (Clean p) \<Longrightarrow> changes_only F D d (put_node p n d)"
  by (simp add: changes_only_def)

lemma changes_only_folder:
  "D (Clean p) \<Longrightarrow> node_at d p = None \<Longrightarrow> changes_only F D d (put_node p Folder d)"
  unfolding changes_only_def put_node_simps by (auto simp: node_at_def)

lemma changes_only_delete:
  "F (Clean p) \<Longrightarrow> changes_only F D d (d\<lparr>nodes := AList.delete (Clean p) (nodes d)\<rparr>)"
  by (auto simp: changes_only_def node_at_def delete_conv')

lemma changes_only_make_dirs:
  "(\<And>p. p \<in> set ps \<Longrightarrow> D (Clean p)) \<Longrightarrow> changes_only F D d (snd (make_dirs ps d))"
proof (induction ps d rule: make_dirs.induct)
  case (2 p ps d)
  then show ?case by (auto intro: changes_only_trans [OF changes_only_folder])
qed simp

lemma keeps_io_step:
  assumes "\<And>out d. changes_only F D d (snd (f out d))"
  shows "keeps (changes_only F D d0) (io_step f)"
proof (rule keepsI)
  fix d
  assume d: "changes_only F D d0 d"
  show "changes_only F D d0 (snd (io_step f d))"
  proof (cases "io d")
    case Nil
    with d assms show ?thesis by (auto intro: changes_only_trans)
  next
    case (Cons x xs)
    have "changes_only F D (d\<lparr>io := xs\<rparr>) (snd (f x (d\<lparr>io := xs\<rparr>)))" by (rule assms)
    with d Cons show ?thesis by (auto simp: io_step_def intro: changes_only_trans)
  qed
qed

lemma keeps_reads [keeps_intro]:
  "keeps (changes_only F D d0) (ReadFile path)" "keeps (changes_only F D d0) (ReadDir path)"
  "keeps (changes_only F D d0) (FileInfo n)"
  unfolding ReadFile_def ReadDir_def FileInfo_def
  by (auto intro!: keeps_io_step split: option.splits fnode.splits)

lemma keeps_WriteFile: "F (Clean path) \<Longrightarrow> keeps (changes_only F D d0) (WriteFile path data)"
  unfolding WriteFile_def by (auto intro!: keeps_io_step changes_only_file split: io_outcome.splits)

lemma keeps_append:
  "F (Clean path) \<Longrightarrow> keeps (changes_only F D d0) (OpenAppend path)"
  "F (Clean path) \<Longrightarrow> keeps (changes_only F D d0) (AppendOpen path data)"
  unfolding OpenAppend_def AppendOpen_def
  by (auto intro!: keeps_io_step changes_only_file split: io_outcome.splits option.split fnode.split)

lemma keeps_RemoveFile: "F (Clean path) \<Longrightarrow> keeps (changes_only F D d0) (RemoveFile path)"
  unfolding RemoveFile_def
  by (auto intro!: keeps_io_step changes_only_delete split: option.splits fnode.splits)

lemma keeps_MkdirAll:
  assumes "\<And>p. p \<in> set (ancestors path) \<Longrightarrow> D (Clean p)"
  shows "keeps (changes_only F D d0) (MkdirAll path)"
proof -
  have "changes_only F D d (snd (make_dirs (ancestors path) d))"
    "changes_only F D d (snd (make_dirs (take n (ancestors path)) d))" for d n
    by (rule changes_only_make_dirs, meson assms in_set_takeD)+
  then show ?thesis
    unfolding MkdirAll_def by (auto intro!: keeps_io_step split: io_outcome.splits)
qed

text \<open>A directory that \<open>MkdirAll\<close> has made.\<close>

lemma make_dirs_folder: "is_folder d p \<Longrightarrow> is_folder (snd (make_dirs ps d)) p"
proof (induction ps d rule: make_dirs.induct)
  case (2 q ps d)
  have "is_folder (put_node q Folder d) p" using "2.prems" by (auto simp: is_folder_def)
  with 2 show ?case by simp
qed simp

lemma make_dirs_Ret: "make_dirs ps d = (Ret (), d') \<Longrightarrow> [] \<notin> set ps \<Longrightarrow> p \<in> set ps \<Longrightarrow> is_folder d' p"
proof (induction ps d rule: make_dirs.induct)
  case (2 q ps d)
  have "is_folder (put_node q Folder d) q" using "2.prems"(2) by (auto simp: is_folder_def)
  with 2 show ?case
    using make_dirs_folder [of d q ps] make_dirs_folder [of "put_node q Folder d" q ps]
    by (auto split: if_splits)
qed simp

lemma make_dirs_rest [simp]:
  "io (snd (make_dirs ps d)) = io d" "unix_now (snd (make_dirs ps d)) = unix_now d"
  by (induction ps d rule: make_dirs.induct) auto

lemma Clean_in_ancestors: "Clean p \<in> set (ancestors p)" "[] \<notin> set (ancestors p)"
proof -
  let ?ps = "split_char slash (Clean p)"
  have ne: "?ps \<noteq> []" by simp
  then have "Clean p = join_slash (take (Suc (length ?ps - 1)) ?ps)" by (simp add: join_split)
  moreover have "length ?ps - 1 \<in> set [0..<length ?ps]" using ne by simp
  ultimately show "Clean p \<in> set (ancestors p)"
    unfolding ancestors_def Let_def set_filter set_map using Clean_nonempty [of p] by blast
qed (simp add: ancestors_def Let_def)

lemma MkdirAll_run:
  assumes "io d = []" "MkdirAll path d = (Ret (), d')"
  shows "is_folder d' path" "io d' = []" "unix_now d' = unix_now d"
proof -
  from assms have p: "path \<noteq> []" and m: "make_dirs (ancestors path) d = (Ret (), d')"
    by (auto simp: MkdirAll_def split: if_splits)
  from make_dirs_Ret [OF m Clean_in_ancestors(2) Clean_in_ancestors(1)] p show "is_folder d' path"
    by (simp add: is_folder_def node_at_def Clean_idem)
  from make_dirs_rest [of "ancestors path" d] m assms(1) show "io d' = []" "unix_now d' = unix_now d" by simp_all
qed

lemma in_dir_not_root: "plain_name f \<Longrightarrow> \<not> root_path (in_dir g f)"
  using last_split_in_dir [of f g] last_in_set [of "split_char slash (in_dir g f)"]
  by (auto simp: root_path_def plain_name_def)

lemma dir_entries_iff: "(f, n) \<in> set (dir_entries d g) \<longleftrightarrow> plain_name f \<and> (in_dir g f, n) \<in> set (nodes d)"
  by (auto simp: dir_entries_def Join_in_dir Base_in_dir intro!: bexI [of _ "(in_dir g f, n)"] split: if_splits)

lemma nodes_put_node:
  "(Clean p, n) \<in> set (nodes (put_node p n d))"
  "(k, m) \<in> set (nodes (put_node p n d)) \<Longrightarrow> k \<noteq> Clean p \<Longrightarrow> (k, m) \<in> set (nodes d)"
proof -
  have "(a, b) \<in> set (AList.update a b xs)" "(k, m) \<in> set (AList.update a b xs) \<Longrightarrow> k \<noteq> a \<Longrightarrow> (k, m) \<in> set xs"
    for a b and xs :: "(string \<times> fnode) list"
    by (induction xs) (auto split: if_splits)
  then show "(Clean p, n) \<in> set (nodes (put_node p n d))"
    "(k, m) \<in> set (nodes (put_node p n d)) \<Longrightarrow> k \<noteq> Clean p \<Longrightarrow> (k, m) \<in> set (nodes d)"
    by (auto simp: put_node_def)
qed

lemma nodes_put_node_other:
  "(k, m) \<in> set (nodes d) \<Longrightarrow> k \<noteq> Clean p \<Longrightarrow> (k, m) \<in> set (nodes (put_node p n d))"
proof -
  have "(k, m) \<in> set xs \<Longrightarrow> k \<noteq> a \<Longrightarrow> (k, m) \<in> set (AList.update a b xs)" for a b and xs :: "(string \<times> fnode) list"
    by (induction xs) auto
  then show "(k, m) \<in> set (nodes d) \<Longrightarrow> k \<noteq> Clean p \<Longrightarrow> (k, m) \<in> set (nodes (put_node p n d))"
    by (auto simp: put_node_def)
qed

text \<open>Writing and reading back.\<close>

lemma WriteFile_run:
  assumes "io d = []" "path \<noteq> []" "is_folder d (Dir path)" "\<not> is_folder d path"
  shows "WriteFile path data d = (Ret (), put_node path (Plain data (unix_now d)) d)"
  using assms by (simp add: WriteFile_def)

lemma ReadFile_run: "io d = [] \<Longrightarrow> node_at d path = Some (Plain c t) \<Longrightarrow> ReadFile path d = (Ret c, d)"
  by (simp add: ReadFile_def)

text \<open>An operation on files may fail, but it does not panic.\<close>

lemma no_panic_io_step: "(\<And>out. no_panic (f out)) \<Longrightarrow> no_panic (io_step f)"
  by (auto simp: no_panic_def io_step_def split: list.split)

lemma no_panic_make_dirs: "fst (make_dirs ps d) \<noteq> Panic"
  by (induction ps d rule: make_dirs.induct) auto

lemma no_panic_files [no_panic_intro]:
  "no_panic (ReadFile path)" "no_panic (WriteFile path data)" "no_panic (ReadDir path)" "no_panic (MkdirAll path)"
  "no_panic (FileInfo n)" "no_panic (RemoveFile path)" "no_panic (OpenAppend path)" "no_panic (AppendOpen path data)"
  unfolding ReadFile_def WriteFile_def ReadDir_def MkdirAll_def FileInfo_def RemoveFile_def OpenAppend_def AppendOpen_def
  by (rule no_panic_io_step; auto simp: no_panic_def no_panic_make_dirs split: option.split fnode.split io_outcome.split)+

end
