(* ===== verification/Go_Json.thy ===== *)
theory Go_Json
  imports Go_Bytes Go_Numbers Go_Utf8
begin

text \<open>
  The part of \<open>encoding/json\<close> that the ghost metadata needs: string literals as \<open>Marshal\<close> writes them,
  and a reader for arbitrary documents with Go's rules (white space, escapes, invalid UTF-8, number
  syntax, the nesting limit). Values that no field of the metadata can take are \<open>JOther\<close>.
\<close>

subsection \<open>Writing strings\<close>

abbreviation quote :: char where "quote \<equiv> CHR 0x22"
abbreviation backslash :: char where "backslash \<equiv> CHR 0x5C"

definition encode_rune :: "nat \<Rightarrow> string" where
  "encode_rune r =
     (if r < 128 then [char_of r]
      else if r < 2048 then [char_of (192 + r div 64), char_of (128 + r mod 64)]
      else if r < 65536 then [char_of (224 + r div 4096), char_of (128 + r div 64 mod 64), char_of (128 + r mod 64)]
      else [char_of (240 + r div 262144), char_of (128 + r div 4096 mod 64), char_of (128 + r div 64 mod 64),
            char_of (128 + r mod 64)])"

text \<open>\<open>\\b\<close> and its like, and \<open>\\u00XX\<close> for the other control bytes and for \<open><\<close>, \<open>>\<close>, \<open>&\<close>.\<close>

definition short_escapes :: "(nat \<times> char) list" where
  "short_escapes = [(34, quote), (92, backslash), (8, CHR ''b''), (12, CHR ''f''), (10, CHR ''n''),
     (13, CHR ''r''), (9, CHR ''t'')]"

definition short_escape :: "nat \<Rightarrow> char option" where
  "short_escape n = map_of short_escapes n"

definition json_byte :: "char \<Rightarrow> string" where
  "json_byte c = (case short_escape (ord c) of
      Some e \<Rightarrow> [backslash, e]
    | None \<Rightarrow>
        if ord c < 32 \<or> c = CHR ''<'' \<or> c = CHR ''>'' \<or> c = CHR ''&''
        then [backslash] @ ''u00'' @ [hex_char (ord c div 16), hex_char (ord c mod 16)]
        else [c])"

fun json_quote :: "string \<Rightarrow> string" where
  "json_quote [] = []"
| "json_quote (c # s) =
     (if ord c < 128 then json_byte c @ json_quote s
      else (case decode_rune (c # s) of (r, n) \<Rightarrow>
        (if r = rune_error \<and> n = 1 then [backslash] @ ''ufffd''
         else if r = 8232 then [backslash] @ ''u2028''
         else if r = 8233 then [backslash] @ ''u2029''
         else c # take (n - 1) s) @ json_quote (drop (n - 1) s)))"

subsection \<open>Tokens\<close>

definition json_space :: "char \<Rightarrow> bool" where
  "json_space c \<longleftrightarrow> c = CHR '' '' \<or> c = CHR 0x09 \<or> c = LF \<or> c = CR"

definition skip_space :: "string \<Rightarrow> string" where
  "skip_space s = dropWhile json_space s"

definition hex4 :: "string \<Rightarrow> nat option" where
  "hex4 s = (case s of
      a # b # c # d # _ \<Rightarrow> (case (from_hex_char a, from_hex_char b, from_hex_char c, from_hex_char d) of
          (Some w, Some x, Some y, Some z) \<Rightarrow> Some (((w * 16 + x) * 16 + y) * 16 + z)
        | _ \<Rightarrow> None)
    | _ \<Rightarrow> None)"

definition simple_escape :: "char \<Rightarrow> char option" where
  "simple_escape e = map_of [(quote, quote), (backslash, backslash), (CHR ''/'', CHR ''/''), (CHR ''b'', CHR 0x08),
     (CHR ''f'', CHR 0x0C), (CHR ''n'', LF), (CHR ''r'', CR), (CHR ''t'', CHR 0x09)] e"

text \<open>The raw contents of a string literal whose opening quote has been read, and what follows it.\<close>

fun scan_string :: "string \<Rightarrow> (string \<times> string) option" where
  "scan_string [] = None"
| "scan_string (c # s) =
     (if c = quote then Some ([], s)
      else if c = backslash then (case s of
          [] \<Rightarrow> None
        | e # t \<Rightarrow>
            if e = CHR ''u'' then
              (if hex4 t = None then None
               else map_option (\<lambda>(raw, rest). (c # e # take 4 t @ raw, rest)) (scan_string (drop 4 t)))
            else if simple_escape e = None then None
            else map_option (\<lambda>(raw, rest). (c # e # raw, rest)) (scan_string t))
      else if ord c < 32 then None
      else map_option (\<lambda>(raw, rest). (c # raw, rest)) (scan_string s))"

definition surrogate_pair :: "nat \<Rightarrow> string \<Rightarrow> nat option" where
  "surrogate_pair hi s =
     (if 55296 \<le> hi \<and> hi < 56320 \<and> take 2 s = [backslash, CHR ''u''] then (case hex4 (drop 2 s) of
          Some lo \<Rightarrow> if 56320 \<le> lo \<and> lo < 57344 then Some (65536 + (hi - 55296) * 1024 + (lo - 56320)) else None
        | None \<Rightarrow> None)
      else None)"

fun json_unquote :: "string \<Rightarrow> string" where
  "json_unquote [] = []"
| "json_unquote (c # s) =
     (if c = backslash then (case s of
          [] \<Rightarrow> []
        | e # t \<Rightarrow>
            if e = CHR ''u'' then (case hex4 t of
                None \<Rightarrow> []
              | Some r \<Rightarrow>
                  if 55296 \<le> r \<and> r < 57344 then
                    (case surrogate_pair r (drop 4 t) of
                       Some p \<Rightarrow> encode_rune p @ json_unquote (drop 10 t)
                     | None \<Rightarrow> encode_rune rune_error @ json_unquote (drop 4 t))
                  else encode_rune r @ json_unquote (drop 4 t))
            else (case simple_escape e of None \<Rightarrow> [] | Some x \<Rightarrow> x # json_unquote t))
      else if ord c < 128 then c # json_unquote s
      else (case decode_rune (c # s) of (r, n) \<Rightarrow> encode_rune r @ json_unquote (drop (n - 1) s)))"

text \<open>Number literals.\<close>

definition scan_part :: "char \<Rightarrow> (char \<Rightarrow> bool) \<Rightarrow> string \<Rightarrow> (string \<times> string) option" where
  "scan_part mark signs s = (case s of
      [] \<Rightarrow> Some ([], [])
    | c # t \<Rightarrow>
        if lower_ascii c \<noteq> mark then Some ([], s)
        else (let sg = (case t of [] \<Rightarrow> [] | x # _ \<Rightarrow> if signs x then [x] else []);
                  ds = takeWhile is_digit (drop (length sg) t) in
              if ds = [] then None else Some (c # sg @ ds, drop (length sg + length ds) t)))"

definition scan_number :: "string \<Rightarrow> (string \<times> string) option" where
  "scan_number s =
     (let sg = (if prefix ''-'' s then ''-'' else []);
          ds = takeWhile is_digit (drop (length sg) s);
          ip = (if prefix ''0'' ds then ''0'' else ds);
          s2 = drop (length sg + length ip) s in
      if ds = [] then None
      else (case scan_part (CHR ''.'') (\<lambda>_. False) s2 of
          None \<Rightarrow> None
        | Some (frac, s3) \<Rightarrow> (case scan_part (CHR ''e'') (\<lambda>x. x = CHR ''+'' \<or> x = CHR ''-'') s3 of
              None \<Rightarrow> None
            | Some (expo, s4) \<Rightarrow> Some (sg @ ip @ frac @ expo, s4))))"

subsection \<open>Values\<close>

datatype json = JNull | JString string | JNumber string | JObject "(string \<times> json) list" | JOther

text \<open>The key of a member with its colon; elements of arrays have none.\<close>

definition item_key :: "bool \<Rightarrow> string \<Rightarrow> (string \<times> string) option" where
  "item_key is_object s =
     (if \<not> is_object then Some ([], s)
      else (case s of
          [] \<Rightarrow> None
        | c # t \<Rightarrow>
            if c \<noteq> quote then None
            else (case scan_string t of
                None \<Rightarrow> None
              | Some (raw, t1) \<Rightarrow> (case skip_space t1 of
                    [] \<Rightarrow> None
                  | d # t2 \<Rightarrow> if d = CHR '':'' then Some (json_unquote raw, t2) else None))))"

lemma scan_string_shorter: "scan_string s = Some (raw, rest) \<Longrightarrow> length rest < length s"
  by (induction s arbitrary: raw rule: scan_string.induct)
     (fastforce split: if_splits list.splits)+

lemma length_skip_space: "length (skip_space s) \<le> length s"
  by (simp add: skip_space_def length_dropWhile_le)

lemma item_key_shorter: "item_key ob s = Some (k, rest) \<Longrightarrow> length rest \<le> length s"
proof (cases s)
  case (Cons c t)
  assume item: "item_key ob s = Some (k, rest)"
  show ?thesis
  proof (cases ob)
    case True
    with item Cons obtain raw t1 where 1: "scan_string t = Some (raw, t1)" "skip_space t1 = CHR '':'' # rest"
      by (auto simp: item_key_def split: if_splits option.splits list.splits)
    from scan_string_shorter [OF 1(1)] length_skip_space [of t1] 1(2) Cons show ?thesis by simp
  qed (use item in \<open>simp add: item_key_def\<close>)
qed (auto simp: item_key_def split: if_splits)

definition keyword :: "string \<Rightarrow> json \<Rightarrow> string \<Rightarrow> (json \<times> string) option" where
  "keyword w v s = (if prefix w s then Some (v, drop (length w) s) else None)"

text \<open>\<open>d\<close> is how many more levels of nesting are allowed.\<close>

function (sequential) json_value :: "nat \<Rightarrow> string \<Rightarrow> (json \<times> string) option"
  and json_items :: "bool \<Rightarrow> nat \<Rightarrow> string \<Rightarrow> ((string \<times> json) list \<times> string) option" where
  "json_value d s = (case skip_space s of
      [] \<Rightarrow> None
    | c # t \<Rightarrow>
        if c = quote then map_option (\<lambda>(raw, rest). (JString (json_unquote raw), rest)) (scan_string t)
        else if c = CHR ''{'' \<or> c = CHR ''['' then
          (if d = 0 then None
           else if prefix (if c = CHR ''{'' then ''}'' else '']'') (skip_space t)
           then Some (if c = CHR ''{'' then JObject [] else JOther, tl (skip_space t))
           else (case json_items (c = CHR ''{'') (d - 1) (skip_space t) of
               None \<Rightarrow> None
             | Some (xs, rest) \<Rightarrow> Some (if c = CHR ''{'' then JObject xs else JOther, rest)))
        else if c = CHR ''n'' then keyword ''null'' JNull (c # t)
        else if c = CHR ''t'' then keyword ''true'' JOther (c # t)
        else if c = CHR ''f'' then keyword ''false'' JOther (c # t)
        else map_option (\<lambda>(lit, rest). (JNumber lit, rest)) (scan_number (c # t)))"
| "json_items ob d s = (case item_key ob s of
      None \<Rightarrow> None
    | Some (k, s1) \<Rightarrow> (case json_value d s1 of
          None \<Rightarrow> None
        | Some (v, s2) \<Rightarrow> (case skip_space s2 of
              [] \<Rightarrow> None
            | c # s3 \<Rightarrow>
                if c = CHR '','' then
                  (if length s3 < length s
                   then map_option (\<lambda>(xs, rest). ((k, v) # xs, rest)) (json_items ob d (skip_space s3))
                   else None)
                else if c = (if ob then CHR ''}'' else CHR '']'') then Some ([(k, v)], s3)
                else None)))"
  by pat_completeness auto
termination
proof (relation "measures [\<lambda>x. case x of Inl (d, s) \<Rightarrow> d | Inr (ob, d, s) \<Rightarrow> d,
    \<lambda>x. case x of Inl (d, s) \<Rightarrow> length s | Inr (ob, d, s) \<Rightarrow> length s,
    \<lambda>x. case x of Inl _ \<Rightarrow> 0 | Inr _ \<Rightarrow> 1]", goal_cases)
  case (3 ob d s a k s1)
  then show ?case using item_key_shorter by fastforce
next
  case (4 ob d s a k s1 b v s2 c s3)
  then show ?case using length_skip_space [of s3] by simp
qed auto

declare json_value.simps [simp del] json_items.simps [simp del]

definition json_document :: "string \<Rightarrow> json option" where
  "json_document s = (case json_value 10000 s of
      None \<Rightarrow> None
    | Some (v, rest) \<Rightarrow> if skip_space rest = [] then Some v else None)"

end
