(* ===== verification/Go_Url.thy ===== *)
theory Go_Url
  imports Go_Bytes
begin

text \<open>
  What the server uses of Go's \<open>net/url\<close>: \<open>url.Parse\<close>, of whose result only the path and the query are
  read, and \<open>URL.Query().Get\<close>. Whether the authority of a target that starts with \<open>//\<close> is accepted
  is an argument (\<open>authority_ok\<close>): its rules differ between Go releases, and only error or no error
  matters here.
\<close>

subsection \<open>Percent-encoding\<close>

fun url_unescape :: "bool \<Rightarrow> string \<Rightarrow> string option" where
  "url_unescape form [] = Some []"
| "url_unescape form (c # s) =
     (if c = CHR ''%'' then (case s of
          a # b # t \<Rightarrow> (case (from_hex_char a, from_hex_char b) of
              (Some x, Some y) \<Rightarrow> map_option ((#) (char_of (16 * x + y))) (url_unescape form t)
            | _ \<Rightarrow> None)
        | _ \<Rightarrow> None)
      else map_option ((#) (if form \<and> c = CHR ''+'' then CHR '' '' else c)) (url_unescape form s))"

subsection \<open>url.Parse\<close>

definition letter :: "char \<Rightarrow> bool" where
  "letter c \<longleftrightarrow> (65 \<le> ord c \<and> ord c \<le> 90) \<or> (97 \<le> ord c \<and> ord c \<le> 122)"

text \<open>\<open>getScheme\<close>: \<open>None\<close> is the error of a missing scheme; the bytes seen so far are in \<open>seen\<close>.\<close>

fun get_scheme :: "string \<Rightarrow> string \<Rightarrow> string \<Rightarrow> (string \<times> string) option" where
  "get_scheme raw seen [] = Some ([], raw)"
| "get_scheme raw seen (c # s) =
     (if letter c then get_scheme raw (seen @ [c]) s
      else if is_digit c \<or> c = CHR ''+'' \<or> c = CHR ''-'' \<or> c = CHR ''.'' then
        (if seen = [] then Some ([], raw) else get_scheme raw (seen @ [c]) s)
      else if c = CHR '':'' then (if seen = [] then None else Some (seen, s))
      else Some ([], raw))"

definition control_byte :: "char \<Rightarrow> bool" where
  "control_byte c \<longleftrightarrow> ord c < 32 \<or> ord c = 127"

definition before_char :: "char \<Rightarrow> string \<Rightarrow> string" where
  "before_char d s = (case cut_char d s of None \<Rightarrow> s | Some (w, _) \<Rightarrow> w)"

definition after_char :: "char \<Rightarrow> string \<Rightarrow> string" where
  "after_char d s = (case cut_char d s of None \<Rightarrow> [] | Some (_, r) \<Rightarrow> r)"

definition url_no_fragment :: "(string \<Rightarrow> bool) \<Rightarrow> string \<Rightarrow> (string \<times> string) option" where
  "url_no_fragment authority_ok u =
     (if \<exists>c \<in> set u. control_byte c then None
      else if u = ''*'' then Some (u, [])
      else case get_scheme u [] u of
          None \<Rightarrow> None
        | Some (scheme, rest0) \<Rightarrow>
            let rest = before_char (CHR ''?'') rest0; q = after_char (CHR ''?'') rest0 in
            if \<not> prefix ''/'' rest \<and> scheme \<noteq> [] then Some ([], q)
            else if \<not> prefix ''/'' rest \<and> CHR '':'' \<in> set (before_char (CHR ''/'') rest) then None
            else if (scheme \<noteq> [] \<or> \<not> prefix ''///'' rest) \<and> prefix ''//'' rest then
              (let authority = takeWhile (\<lambda>c. c \<noteq> CHR ''/'') (drop 2 rest);
                   path = dropWhile (\<lambda>c. c \<noteq> CHR ''/'') (drop 2 rest) in
               if \<not> authority_ok authority then None
               else map_option (\<lambda>p. (p, q)) (url_unescape False path))
            else map_option (\<lambda>p. (p, q)) (url_unescape False rest))"

text \<open>The path and the raw query of a target.\<close>

definition url_parse :: "(string \<Rightarrow> bool) \<Rightarrow> string \<Rightarrow> (string \<times> string) option" where
  "url_parse authority_ok raw =
     (case url_no_fragment authority_ok (before_char (CHR ''#'') raw) of
        None \<Rightarrow> None
      | Some r \<Rightarrow>
          if after_char (CHR ''#'') raw \<noteq> [] \<and> url_unescape False (after_char (CHR ''#'') raw) = None
          then None else Some r)"

subsection \<open>Query parameters\<close>

definition query_pair :: "string \<Rightarrow> (string \<times> string) list" where
  "query_pair seg =
     (if seg = [] \<or> CHR '';'' \<in> set seg then []
      else case (url_unescape True (before_char (CHR ''='') seg), url_unescape True (after_char (CHR ''='') seg)) of
          (Some k, Some v) \<Rightarrow> [(k, v)]
        | _ \<Rightarrow> [])"

definition parse_query :: "string \<Rightarrow> (string \<times> string) list" where
  "parse_query q = concat (map query_pair (split_char (CHR ''&'') q))"

definition query_get :: "(string \<times> string) list \<Rightarrow> string \<Rightarrow> string" where
  "query_get kvs k = (case map_of kvs k of None \<Rightarrow> [] | Some v \<Rightarrow> v)"

subsection \<open>Escaped queries\<close>

text \<open>Percent-encoding of a query (as \<open>url.QueryEscape\<close>, with lower-case digits), for what clients send.\<close>

definition unreserved :: "char \<Rightarrow> bool" where
  "unreserved c \<longleftrightarrow> letter c \<or> is_digit c \<or> c = CHR ''-'' \<or> c = CHR ''_'' \<or> c = CHR ''.'' \<or> c = CHR ''~''"

definition escape_char :: "char \<Rightarrow> string" where
  "escape_char c = (if c = CHR '' '' then ''+'' else if unreserved c then [c]
     else [CHR ''%'', hex_char (ord c div 16), hex_char (ord c mod 16)])"

definition query_escape :: "string \<Rightarrow> string" where
  "query_escape s = concat (map escape_char s)"

definition encode_pair :: "string \<times> string \<Rightarrow> string" where
  "encode_pair kv = query_escape (fst kv) @ CHR ''='' # query_escape (snd kv)"

fun encode_query :: "(string \<times> string) list \<Rightarrow> string" where
  "encode_query [] = []"
| "encode_query [kv] = encode_pair kv"
| "encode_query (kv # kvs) = encode_pair kv @ CHR ''&'' # encode_query kvs"

lemma escape_char_safe:
  assumes "x \<in> set (escape_char c)"
  shows "unreserved x \<or> x = CHR ''%'' \<or> x = CHR ''+''"
proof -
  have "unreserved (hex_char n)" if "n < 16" for n
    using is_hex_hex_char [OF that] by (auto simp: is_hex_def unreserved_def letter_def)
  then have "unreserved (hex_char (ord c div 16))" "unreserved (hex_char (ord c mod 16))"
    by (simp_all add: less_mult_imp_div_less)
  then show ?thesis using assms by (auto simp: escape_char_def split: if_splits)
qed

lemma query_escape_safe:
  assumes "x \<in> set (query_escape s)"
  shows "x \<notin> {CHR ''&'', CHR '';'', CHR ''='', CHR ''#'', CHR ''?'', CHR '' ''}" "\<not> control_byte x"
proof -
  have "unreserved x \<or> x = CHR ''%'' \<or> x = CHR ''+''"
    using assms escape_char_safe by (auto simp: query_escape_def)
  then show "x \<notin> {CHR ''&'', CHR '';'', CHR ''='', CHR ''#'', CHR ''?'', CHR '' ''}" "\<not> control_byte x"
    by (auto simp: unreserved_def letter_def is_digit_def control_byte_def ord_def)
qed

lemma url_unescape_char: "url_unescape True (escape_char c @ s) = map_option ((#) c) (url_unescape True s)"
proof -
  have "16 * (ord c div 16) + ord c mod 16 = ord c" by simp
  then have "char_of (16 * (ord c div 16) + ord c mod 16) = c" by (metis char_of_ord)
  moreover have "\<not> unreserved (CHR ''%'')" "\<not> unreserved (CHR ''+'')" by code_simp+
  ultimately show ?thesis
    by (auto simp: escape_char_def from_hex_char_hex_char less_mult_imp_div_less)
qed

lemma url_unescape_escape: "url_unescape True (query_escape s) = Some s"
  by (induction s) (simp_all add: query_escape_def url_unescape_char)

lemma query_pair_encode: "query_pair (encode_pair kv) = [kv]"
proof -
  have no: "CHR ''='' \<notin> set (query_escape s)" "CHR '';'' \<notin> set (query_escape s)" for s
    using query_escape_safe(1) by blast+
  then have "CHR '';'' \<notin> set (encode_pair kv)" "encode_pair kv \<noteq> []" by (auto simp: encode_pair_def)
  moreover have "cut_char (CHR ''='') (encode_pair kv) = Some (query_escape (fst kv), query_escape (snd kv))"
    using no by (simp add: encode_pair_def cut_char_append)
  ultimately show ?thesis by (simp add: query_pair_def before_char_def after_char_def url_unescape_escape)
qed

lemma encode_pair_safe: "CHR ''&'' \<notin> set (encode_pair kv)"
  using query_escape_safe(1) by (fastforce simp: encode_pair_def)

lemma parse_encode_query: "parse_query (encode_query kvs) = kvs"
proof (induction kvs rule: encode_query.induct)
  case 1
  show ?case by (simp add: parse_query_def query_pair_def)
next
  case (2 kv)
  show ?case by (simp add: parse_query_def split_char_none encode_pair_safe query_pair_encode)
next
  case (3 kv kv' kvs)
  then show ?case by (simp add: parse_query_def split_char_append encode_pair_safe query_pair_encode)
qed

lemma encode_query_safe:
  "x \<in> set (encode_query kvs) \<Longrightarrow> x \<noteq> CHR ''#'' \<and> x \<noteq> CHR '' '' \<and> \<not> control_byte x"
proof (induction kvs rule: encode_query.induct)
  case (2 kv)
  then show ?case using query_escape_safe by (force simp: encode_pair_def control_byte_def ord_def)
next
  case (3 kv kv' kvs)
  moreover have "\<not> control_byte (CHR ''&'')" "\<not> control_byte (CHR ''='')" by code_simp+
  ultimately show ?case using query_escape_safe by (force simp: encode_pair_def)
qed simp

text \<open>A plain absolute path with an encoded query is taken apart into just these.\<close>

lemma url_parse_target:
  assumes "\<forall>c \<in> set path. unreserved c \<or> c = CHR ''/''" "prefix ''/'' path" "\<not> prefix ''//'' path"
  shows "url_parse ok (path @ CHR ''?'' # encode_query kvs) = Some (path, encode_query kvs)"
proof -
  let ?t = "path @ CHR ''?'' # encode_query kvs"
  have plain: "c \<notin> {CHR ''#'', CHR ''?'', CHR ''%''} \<and> \<not> control_byte c" if "c \<in> set path" for c
    using assms(1) that by (auto simp: unreserved_def letter_def is_digit_def control_byte_def ord_def)
  have "\<not> control_byte (CHR ''?'')" by code_simp
  then have ctl: "\<not> (\<exists>c \<in> set ?t. control_byte c)" using plain encode_query_safe by auto
  have "cut_char (CHR ''#'') ?t = None"
    unfolding cut_char_None using plain encode_query_safe by auto
  then have frag: "before_char (CHR ''#'') ?t = ?t" "after_char (CHR ''#'') ?t = []"
    by (simp_all add: before_char_def after_char_def)
  have "cut_char (CHR ''?'') ?t = Some (path, encode_query kvs)"
    using plain by (intro cut_char_append) auto
  then have q: "before_char (CHR ''?'') ?t = path" "after_char (CHR ''?'') ?t = encode_query kvs"
    by (simp_all add: before_char_def after_char_def)
  have "url_unescape False w = Some w" if "set w \<subseteq> set path" for w
    using that plain by (induction w) auto
  then have un: "url_unescape False path = Some path" by simp
  obtain p where p: "path = CHR ''/'' # p" using assms(2) by (auto simp: prefix_def)
  have "\<not> letter (CHR ''/'')" "\<not> is_digit (CHR ''/'')" by code_simp+
  then have "get_scheme ?t [] ?t = Some ([], ?t)" by (simp add: p)
  then have "url_no_fragment ok ?t = Some (path, encode_query kvs)"
    using ctl assms(2,3) by (simp add: url_no_fragment_def q un Let_def) (auto simp: p)
  then show ?thesis by (simp add: url_parse_def frag)
qed

end
