(* ===== verification/Go_Quote.thy ===== *)
theory Go_Quote
  imports Go_Utf8 Go_Bytes
begin

text \<open>
  The verb \<open>%q\<close> of package \<open>fmt\<close> for strings (\<open>strconv.Quote\<close>). Which runes above U+00FF count as
  printable is a table of package \<open>strconv\<close>; it is the argument \<open>table\<close>.
\<close>

definition is_print :: "(nat \<Rightarrow> bool) \<Rightarrow> nat \<Rightarrow> bool" where
  "is_print table r = (if r \<le> 255 then 32 \<le> r \<and> r < 127 \<or> 161 \<le> r \<and> r \<noteq> 173 else table r)"

definition hex_digits :: "nat \<Rightarrow> nat \<Rightarrow> string" where
  "hex_digits k r = map (\<lambda>i. hex_char (r div 16 ^ i mod 16)) (rev [0..<k])"

definition escaped :: "char \<Rightarrow> string \<Rightarrow> string" where
  "escaped c s = CHR 0x5C # c # s"

definition short_escapes :: "(nat \<times> char) list" where
  "short_escapes = [(7, CHR ''a''), (8, CHR ''b''), (12, CHR ''f''), (10, CHR ''n''), (13, CHR ''r''), (9, CHR ''t''), (11, CHR ''v'')]"

definition quote_rune :: "(nat \<Rightarrow> bool) \<Rightarrow> nat \<Rightarrow> string \<Rightarrow> string" where
  "quote_rune table r bytes =
     (if r = 34 \<or> r = 92 then CHR 0x5C # bytes
      else if is_print table r then bytes
      else case map_of short_escapes r of
          Some c \<Rightarrow> escaped c []
        | None \<Rightarrow>
            if r < 32 \<or> r = 127 then escaped (CHR ''x'') (hex_digits 2 r)
            else if r < 65536 then escaped (CHR ''u'') (hex_digits 4 r)
            else escaped (CHR ''U'') (hex_digits 8 r))"

fun quote_runes :: "(nat \<Rightarrow> bool) \<Rightarrow> string \<Rightarrow> string" where
  "quote_runes table [] = []"
| "quote_runes table (c # cs) = (case decode_rune (c # cs) of (r, n) \<Rightarrow>
     (if n = 1 \<and> r = rune_error then escaped (CHR ''x'') (hex_digits 2 (ord c))
      else quote_rune table r (c # take (n - 1) cs)) @ quote_runes table (drop (n - 1) cs))"

definition Quote :: "(nat \<Rightarrow> bool) \<Rightarrow> string \<Rightarrow> string" where
  "Quote table s = CHR 0x22 # quote_runes table s @ [CHR 0x22]"

end
