(* ===== verification/Store_Listing.thy ===== *)
theory Store_Listing
  imports Store_Stats
begin

text \<open>
  The read-only listings of \<open>server/storage/storage.go\<close>: the search and link overviews (lines 399-494) and
  the map from ghost tags to stretches (lines 974-1003), with SQLite's \<open>LIKE\<close>, \<open>lower\<close> and \<open>NOCASE\<close>.
\<close>

subsection \<open>LIKE and NOCASE\<close>

text \<open>
  SQLite cuts text at a NUL and reads characters leniently: a lead byte takes all continuation bytes
  that follow it; surrogates, overlong forms and the like are U+FFFD.
\<close>

definition lead_bits :: "nat \<Rightarrow> nat" where
  "lead_bits b = (if b < 192 then b else if b < 224 then b - 192 else if b < 240 then b - 224
     else if b < 248 then b - 240 else if b < 252 then b - 248 else if b = 253 then 1 else 0)"

fun cont_bytes :: "nat \<Rightarrow> string \<Rightarrow> nat \<times> string" where
  "cont_bytes r [] = (r, [])"
| "cont_bytes r (c # s) =
     (if 128 \<le> ord c \<and> ord c < 192 then cont_bytes ((r * 64 + (ord c - 128)) mod 4294967296) s else (r, c # s))"

lemma cont_bytes_shorter: "cont_bytes r s = (x, t) \<Longrightarrow> length t \<le> length s"
  by (induction r s rule: cont_bytes.induct) (auto split: if_splits)

function sqlite_chars :: "string \<Rightarrow> nat list" where
  "sqlite_chars [] = []"
| "sqlite_chars (c # s) =
     (if ord c < 192 then ord c # sqlite_chars s
      else (case cont_bytes (lead_bits (ord c)) s of (r, t) \<Rightarrow>
        (if r < 128 \<or> (55296 \<le> r \<and> r < 57344) \<or> r = 65534 \<or> r = 65535 then 65533 else r) # sqlite_chars t))"
  by pat_completeness auto
termination
  by (relation "measure length") (auto dest!: cont_bytes_shorter [OF sym])

definition fold_ascii :: "nat \<Rightarrow> nat" where
  "fold_ascii r = (if 65 \<le> r \<and> r \<le> 90 then r + 32 else r)"

fun like :: "nat list \<Rightarrow> nat list \<Rightarrow> bool" where
  "like [] s = (s = [])"
| "like (p # ps) [] = (p = 37 \<and> like ps [])"
| "like (p # ps) (c # s) =
     (if p = 37 then like ps (c # s) \<or> like (p # ps) s
      else (p = 95 \<or> fold_ascii p = fold_ascii c) \<and> like ps s)"

definition sql_text :: "string \<Rightarrow> nat list" where
  "sql_text s = sqlite_chars (takeWhile (\<lambda>c. c \<noteq> NUL) s)"

definition sql_like :: "string \<Rightarrow> string \<Rightarrow> bool" where
  "sql_like pat s = like (sql_text pat) (sql_text s)"

text \<open>\<open>ORDER BY ... COLLATE NOCASE\<close> over rows in the order that the database happens to deliver.\<close>

definition order_nocase :: "world \<Rightarrow> ('r \<Rightarrow> string) \<Rightarrow> 'r list \<Rightarrow> 'r list" where
  "order_nocase w name rows = sort_key (\<lambda>r. to_lower (name r)) (permute (row_order w) rows)"

subsection \<open>Personas and imported players by name\<close>

definition SearchPersonas :: "string \<Rightarrow> (world, Persona list) go" where
  "SearchPersonas q = query (\<lambda>w. map (scan_persona w)
     (take 25 (order_nocase w per_Name
       (filter (\<lambda>p. sql_like (''%'' @ q @ ''%'') (per_Name p)) (personas w)))))"

record HistoricalPlayer =
  pl_ID :: int
  pl_SourceKey :: string
  pl_Name :: string
  pl_RunCount :: int

definition run_count :: "world \<Rightarrow> player_row \<Rightarrow> int" where
  "run_count w hp = int (length (filter (\<lambda>r. hr_player_id r = hp_id hp) (historical_runs w)))"

definition HistoricalPlayers :: "string \<Rightarrow> (world, HistoricalPlayer list) go" where
  "HistoricalPlayers q = query (\<lambda>w.
     let pat = ''%'' @ q @ ''%'' in
     map (\<lambda>hp. \<lparr>pl_ID = hp_id hp, pl_SourceKey = hp_source_key hp, pl_Name = hp_name hp, pl_RunCount = run_count w hp\<rparr>)
       (take 50 (order_nocase w hp_name
         (filter (\<lambda>hp. q = [] \<or> sql_like pat (hp_name hp) \<or> sql_like pat (hp_source_key hp)) (historical_players w)))))"

subsection \<open>Links\<close>

record HistoricalAccountLink =
  al_SourceKey :: string
  al_HistoricalName :: string
  al_PersonaID :: int
  al_PersonaName :: string
  al_RunCount :: int

definition link_entry :: "world \<Rightarrow> link_row \<Rightarrow> HistoricalAccountLink list" where
  "link_entry w l = (case persona_row w (ln_persona_id l) of
      None \<Rightarrow> []
    | Some p \<Rightarrow>
        (let hp = query_row (\<lambda>hp. hp_source_key hp = ln_source_key l) (historical_players w) in
         [\<lparr>al_SourceKey = ln_source_key l,
           al_HistoricalName = (case hp of None \<Rightarrow> [] | Some h \<Rightarrow> hp_name h),
           al_PersonaID = per_ID p, al_PersonaName = per_Name p,
           al_RunCount = (case hp of None \<Rightarrow> 0 | Some h \<Rightarrow> run_count w h)\<rparr>]))"

definition order_links :: "HistoricalAccountLink list \<Rightarrow> HistoricalAccountLink list" where
  "order_links = sort_key (\<lambda>l. (to_lower (al_PersonaName l), al_SourceKey l))"

definition HistoricalAccountLinks :: "(world, HistoricalAccountLink list) go" where
  "HistoricalAccountLinks = query (\<lambda>w.
     order_links (permute (row_order w) (concat (map (link_entry w) (historical_account_links w)))))"

definition candidate_links :: "world \<Rightarrow> player_row \<Rightarrow> HistoricalAccountLink list" where
  "candidate_links w hp =
     (if player_link w hp \<noteq> None then []
      else map (\<lambda>p. \<lparr>al_SourceKey = hp_source_key hp, al_HistoricalName = hp_name hp,
          al_PersonaID = per_ID p, al_PersonaName = per_Name p, al_RunCount = run_count w hp\<rparr>)
        (filter (\<lambda>p. to_lower (per_Name p) = to_lower (hp_name hp)) (personas w)))"

definition HistoricalLinkCandidates :: "(world, HistoricalAccountLink list) go" where
  "HistoricalLinkCandidates = query (\<lambda>w.
     order_links (permute (row_order w) (concat (map (candidate_links w) (historical_players w)))))"

subsection \<open>Ghost tags\<close>

text \<open>One row of the query: a tag with a stretch, unless the key or the value does not fit.\<close>

definition tag_stretch :: "stat_row \<Rightarrow> (int \<times> int) list" where
  "tag_stretch r = (case split_char (CHR ''_'') (st_key r) of
      [a, b, c] \<Rightarrow>
        if a \<noteq> ''TD'' \<or> c \<noteq> ''41'' then []
        else (case atoi_checked b of
            None \<Rightarrow> []
          | Some stretchID \<Rightarrow> let tag = float_to_int (st_value r) in if tag \<le> 0 then [] else [(tag, stretchID)])
    | _ \<Rightarrow> [])"

text \<open>The map from tags to lists of stretches, as the list of its pairs in the order of the rows.\<close>

definition GhostTagToStretches :: "(world, (int \<times> int) list) go" where
  "GhostTagToStretches = query (\<lambda>w.
     concat (map tag_stretch (permute (row_order w) (filter (\<lambda>r. sql_like ''TD_%_41'' (st_key r)) (stats w)))))"

definition tag_stretches :: "(int \<times> int) list \<Rightarrow> int \<Rightarrow> int list" where
  "tag_stretches m tag = map snd (filter (\<lambda>p. fst p = tag) m)"

subsection \<open>What the pattern of the query does\<close>

lemma sqlite_chars_ascii: "ascii s \<Longrightarrow> sqlite_chars s = map ord s"
  by (induction s) (auto simp: ascii_def)

lemma sql_text_ascii:
  assumes "ascii s" "NUL \<notin> set s"
  shows "sql_text s = map ord s"
proof -
  have "takeWhile (\<lambda>c. c \<noteq> NUL) s = s" using assms(2) by (auto simp: takeWhile_eq_all_conv)
  then show ?thesis unfolding sql_text_def by (simp only: sqlite_chars_ascii [OF assms(1)])
qed

lemma like_percent: "like ps t \<Longrightarrow> like (37 # ps) (s @ t)"
proof (induction s)
  case Nil
  then show ?case by (cases t) auto
qed simp

lemma parse_digits_all: "parse_digits n s = Inr m \<Longrightarrow> c \<in> set s \<Longrightarrow> is_digit c"
  by (induction n s rule: parse_digits.induct) (auto split: if_splits)

lemma atoi_checked_chars:
  assumes "atoi_checked b = Some n" "c \<in> set b"
  shows "is_digit c \<or> c = CHR ''-'' \<or> c = CHR ''+''"
proof -
  let ?body = "if b \<noteq> [] \<and> (hd b = CHR ''-'' \<or> hd b = CHR ''+'') then tl b else b"
  have "\<exists>m. parse_uint ?body = Inr m"
    using assms(1) by (auto simp: atoi_checked_def parse_int_def Let_def split: if_splits sum.splits num_error.splits)
  then obtain m where "parse_digits 0 ?body = Inr m" by (auto simp: parse_uint_def split: if_splits)
  from parse_digits_all [OF this] have digits: "\<And>c. c \<in> set ?body \<Longrightarrow> is_digit c" .
  show ?thesis
  proof (cases "b \<noteq> [] \<and> (hd b = CHR ''-'' \<or> hd b = CHR ''+'')")
    case True
    with assms(2) have "c = hd b \<or> c \<in> set (tl b)" by (cases b) auto
    with True digits show ?thesis by auto
  qed (use digits assms(2) in auto)
qed

lemma split_char_Cons:
  "split_char d s = w # ws \<Longrightarrow> ws \<noteq> [] \<Longrightarrow> \<exists>t. s = w @ d # t \<and> split_char d t = ws"
proof (induction s arbitrary: w)
  case (Cons c s)
  show ?case
  proof (cases "c = d")
    case False
    obtain v vs where v: "split_char d s = v # vs" by (cases "split_char d s") auto
    with Cons.prems False have "w = c # v" "vs = ws" by auto
    with Cons.IH [OF _ Cons.prems(2), of v] v show ?thesis by auto
  qed (use Cons.prems in auto)
qed simp

lemma split_char_single: "split_char d s = [w] \<Longrightarrow> s = w"
  by (induction s arbitrary: w) (auto split: if_splits list.splits)

text \<open>No key that the loop accepts is kept back by the pattern.\<close>

lemma tag_key_like:
  assumes "split_char (CHR ''_'') k = [''TD'', b, ''41'']" "atoi_checked b = Some n"
  shows "sql_like ''TD_%_41'' k"
proof -
  obtain t where t: "k = ''TD'' @ CHR ''_'' # t" "split_char (CHR ''_'') t = [b, ''41'']"
    using split_char_Cons [OF assms(1)] by auto
  obtain u where u: "t = b @ CHR ''_'' # u" "split_char (CHR ''_'') u = [''41'']"
    using split_char_Cons [OF t(2)] by auto
  have k: "k = ''TD_'' @ b @ ''_41''" using t(1) u split_char_single by fastforce
  have "ascii b" "NUL \<notin> set b"
    using atoi_checked_chars [OF assms(2)] by (fastforce simp: ascii_def is_digit_def ord_def)+
  then have "sql_text k = map ord ''TD_'' @ map ord b @ map ord ''_41''"
    unfolding k by (subst sql_text_ascii) (auto simp: ascii_def ord_def)
  moreover have "sql_text ''TD_%_41'' = [84, 68, 95, 37, 95, 52, 49]" "map ord ''TD_'' = [84, 68, 95]"
    "map ord ''_41'' = [95, 52, 49]" by code_simp+
  moreover have "like (37 # [95, 52, 49]) (map ord b @ [95, 52, 49])" by (rule like_percent) simp
  ultimately show ?thesis by (simp add: sql_like_def fold_ascii_def)
qed

text \<open>
  C38. The ghost tags are exactly those of the database: a tag stands for a stretch when some stat row
  has the key \<open>TD_<stretch>_41\<close> with a number in the middle and the tag as its positive value, cut to an
  integer. The pattern in the query (whose \<open>_\<close> are wildcards) holds back no such row and lets none through
  that the loop does not check.
\<close>

theorem GhostTagToStretches_exact:
  assumes "faults w = []" "row_order_ok (row_order w)"
  shows "\<exists>m. GhostTagToStretches w = (Ret m, w) \<and>
    (\<forall>tag n. n \<in> set (tag_stretches m tag) \<longleftrightarrow> (\<exists>r \<in> set (stats w). \<exists>b.
       split_char (CHR ''_'') (st_key r) = [''TD'', b, ''41''] \<and> atoi_checked b = Some n
       \<and> tag = float_to_int (st_value r) \<and> 0 < tag))"
proof -
  let ?m = "concat (map tag_stretch (permute (row_order w) (filter (\<lambda>r. sql_like ''TD_%_41'' (st_key r)) (stats w))))"
  have row: "(tag, n) \<in> set (tag_stretch r) \<longleftrightarrow> (\<exists>b. split_char (CHR ''_'') (st_key r) = [''TD'', b, ''41'']
      \<and> atoi_checked b = Some n \<and> tag = float_to_int (st_value r) \<and> 0 < tag)" for tag n r
    by (auto simp: tag_stretch_def Let_def split: list.splits option.splits) (metis option.sel)+
  have "(tag, n) \<in> set ?m \<longleftrightarrow> (\<exists>r \<in> set (stats w). sql_like ''TD_%_41'' (st_key r) \<and> (tag, n) \<in> set (tag_stretch r))" for tag n
    by (auto simp: set_permute [OF assms(2)])
  moreover have "sql_like ''TD_%_41'' (st_key r)" if "(tag, n) \<in> set (tag_stretch r)" for tag n r
    using that unfolding row by (auto intro: tag_key_like)
  ultimately have "(tag, n) \<in> set ?m \<longleftrightarrow> (\<exists>r \<in> set (stats w). (tag, n) \<in> set (tag_stretch r))" for tag n by blast
  moreover have "n \<in> set (tag_stretches ?m tag) \<longleftrightarrow> (tag, n) \<in> set ?m" for tag n
    by (force simp: tag_stretches_def image_iff)
  moreover have "GhostTagToStretches w = (Ret ?m, w)"
    using assms(1) by (simp add: GhostTagToStretches_def query_def stmt_def)
  ultimately show ?thesis unfolding row by blast
qed

definition tagged_world :: world where
  "tagged_world = empty_world\<lparr>stats := [
     \<lparr>st_persona_id = 1, st_key = ''TD_7_41'', st_value = Fin (25 / 2), st_period_id = 0, st_updated_at = []\<rparr>,
     \<lparr>st_persona_id = 1, st_key = ''TD_x_41'', st_value = Fin 12, st_period_id = 0, st_updated_at = []\<rparr>,
     \<lparr>st_persona_id = 2, st_key = ''TD_8_41'', st_value = Fin (- 1), st_period_id = 0, st_updated_at = []\<rparr>],
     row_order := (\<lambda>n. rev [0..<n])\<rparr>"

theorem GhostTagToStretches_exact_witness:
  "\<exists>m. GhostTagToStretches tagged_world = (Ret m, tagged_world) \<and> 7 \<in> set (tag_stretches m 12)"
proof -
  have "faults tagged_world = []" "row_order_ok (row_order tagged_world)"
    by (auto simp: tagged_world_def empty_world_def row_order_ok_def)
  then obtain m where m: "GhostTagToStretches tagged_world = (Ret m, tagged_world)"
    "\<And>tag n. n \<in> set (tag_stretches m tag) \<longleftrightarrow> (\<exists>r \<in> set (stats tagged_world). \<exists>b.
       split_char (CHR ''_'') (st_key r) = [''TD'', b, ''41''] \<and> atoi_checked b = Some n
       \<and> tag = float_to_int (st_value r) \<and> 0 < tag)"
    using GhostTagToStretches_exact by blast
  have "split_char (CHR ''_'') ''TD_7_41'' = [''TD'', ''7'', ''41'']" "atoi_checked ''7'' = Some 7" by code_simp+
  moreover have "float_to_int (Fin (25 / 2)) = 12"
    by code_simp
  ultimately have "7 \<in> set (tag_stretches m 12)"
    by (subst m(2)) (auto simp: tagged_world_def)
  with m(1) show ?thesis by blast
qed

end
