(* ===== verification/Xml_Chars.thy ===== *)
theory Xml_Chars
  imports Go_Utf8 Go_Numbers
begin

text \<open>
  The characters of an XML 1.0 document, for the reader that \<open>server/locker/xml.go\<close> is compared with: a
  document without a declaration is UTF-8, and only some code points may occur in it at all, written out
  or escaped.
\<close>

definition xml_char :: "nat \<Rightarrow> bool" where
  "xml_char r \<longleftrightarrow> r \<in> {9, 10, 13} \<or> 32 \<le> r \<and> r \<le> 55295 \<or> 57344 \<le> r \<and> r \<le> 65533 \<or> 65536 \<le> r \<and> r \<le> 1114111"

fun legible :: "string \<Rightarrow> bool" where
  "legible [] = True"
| "legible (c # cs) = (case decode_rune (c # cs) of (r, n) \<Rightarrow>
     (r \<noteq> rune_error \<or> n \<noteq> 1) \<and> xml_char r \<and> legible (drop (n - 1) cs))"

text \<open>An ASCII character ends whatever comes before it, so legibility splits there.\<close>

lemma legible_ascii: "ord c < 128 \<Longrightarrow> legible (c # s) \<longleftrightarrow> xml_char (ord c) \<and> legible s"
  by (simp add: decode_rune_ascii rune_error_def)

lemma not_cont: "ord c < 128 \<Longrightarrow> \<not> cont c" "ord c < 128 \<Longrightarrow> \<not> second_ok b (ord c)"
  by (auto simp: cont_def second_ok_def)

lemma decode_rune_before:
  assumes "ord c < 128"
  shows "decode_rune (x # a @ c # s) = decode_rune (x # a)"
proof -
  consider "a = []" | y where "a = [y]" | y z where "a = [y, z]" | y z u v where "a = y # z # u # v"
    by (cases a; cases "tl a"; cases "tl (tl a)") auto
  then show ?thesis
    by cases (auto simp: decode_rune_def Let_def not_cont [OF assms] split: list.split)
qed

lemma decode_rune_size: "decode_rune (c # cs) = (r, n) \<Longrightarrow> n - 1 \<le> length cs"
  by (auto simp: decode_rune_def Let_def split: if_splits list.splits)

lemma legible_split: "ord c < 128 \<Longrightarrow> legible (a @ c # s) \<longleftrightarrow> legible a \<and> legible (c # s)"
proof (induction a rule: legible.induct)
  case (2 x a)
  obtain r n where d: "decode_rune (x # a) = (r, n)" by force
  with decode_rune_before [OF "2.prems", of x a s] have "decode_rune ((x # a) @ c # s) = (r, n)" by simp
  with d decode_rune_size [OF d] "2.IH" [OF d [symmetric] "2.prems"] show ?case
    by (simp del: legible.simps(2) add: legible.simps(2) [of x])
qed simp

text \<open>Text that the writer itself puts into the document.\<close>

definition markup :: "string \<Rightarrow> bool" where
  "markup s \<longleftrightarrow> list_all (\<lambda>c. c = CHR 0x0A \<or> 32 \<le> ord c \<and> ord c < 127) s"

lemma legible_markup_append: "markup a \<Longrightarrow> legible (a @ s) \<longleftrightarrow> legible s"
  by (induction a) (auto simp: markup_def legible_ascii xml_char_def ord_def simp del: legible.simps(2))

lemma legible_markup: "markup s \<Longrightarrow> legible s"
  using legible_markup_append [of s "[]"] by simp

lemma legible_around: "markup m \<Longrightarrow> m \<noteq> [] \<Longrightarrow> legible (a @ m @ s) \<longleftrightarrow> legible a \<and> legible s"
proof (cases m)
  case (Cons c m')
  assume "markup m"
  with Cons have "ord c < 128" by (auto simp: markup_def ord_def)
  with legible_split [of c a "m' @ s"] legible_markup_append [OF \<open>markup m\<close>, of s] show ?thesis by (simp add: Cons del: legible.simps(2))
qed simp

lemma markup_itoa: "markup (itoa i)"
  by (auto simp: markup_def list_all_iff is_digit_def ord_def dest!: itoa_chars)

end
