(* ===== verification/Locker_Xml.thy ===== *)
theory Locker_Xml
  imports Xml_Chars
begin

text \<open>
  \<open>server/locker/xml.go\<close>: the listing of ghost files that the game reads. The writer is the code's;
  the reader at the end is the reference it is compared with: what a conforming XML 1.0 processor makes
  of documents of this shape (one element with attributes, and empty elements inside).
\<close>

subsection \<open>Entries\<close>

definition lockerMaxFiles :: int where "lockerMaxFiles = 10000"
definition lockerMaxBytes :: int where "lockerMaxBytes = 1073741824"

record Entry =
  en_Name :: string
  en_Desc :: string
  en_Game :: string
  en_Type :: string
  en_IDNT :: string
  en_Date :: int
  en_FileID :: int
  en_Attr :: int
  en_Size :: int
  en_Locs :: int
  en_Perm :: int
  en_Vers :: int
  en_path :: string

subsection \<open>The writer\<close>

definition attr :: "string \<Rightarrow> string" where
  "attr s0 =
     (let s1 = replace_char (CHR ''&'') ''&amp;'' s0;
          s2 = replace_char (CHR 0x22) ''&quot;'' s1;
          s3 = replace_char (CHR ''<'') ''&lt;'' s2
      in replace_char (CHR ''>'') ''&gt;'' s3)"

text \<open>One \<open> name="value"\<close> of a format string.\<close>

definition put_attr :: "string \<Rightarrow> string \<Rightarrow> string" where
  "put_attr n v = CHR '' '' # n @ CHR ''='' # CHR 0x22 # v @ [CHR 0x22]"

definition file_line :: "Entry \<Rightarrow> string" where
  "file_line e = ''<FILE'' @ put_attr ''name'' (attr (en_Name e)) @ put_attr ''desc'' (attr (en_Desc e)) @
     put_attr ''game'' (attr (en_Game e)) @ put_attr ''type'' (attr (en_Type e)) @
     put_attr ''idnt'' (attr (en_IDNT e)) @ put_attr ''date'' (itoa (en_Date e)) @
     put_attr ''FileId'' (itoa (en_FileID e)) @ put_attr ''attr'' (itoa (en_Attr e)) @
     put_attr ''size'' (itoa (en_Size e)) @ put_attr ''locs'' (itoa (en_Locs e)) @
     put_attr ''perm'' (itoa (en_Perm e)) @ put_attr ''vers'' (itoa (en_Vers e)) @ ''/>'' @ [LF]"

definition total_bytes :: "Entry list \<Rightarrow> int" where
  "total_bytes entries = foldl (\<lambda>n e. i64 (n + en_Size e)) 0 entries"

definition BuildXML :: "Entry list \<Rightarrow> string \<Rightarrow> string \<Rightarrow> string" where
  "BuildXML entries game pers =
     (let head = ''<LOCKER'' @ put_attr ''error'' ''0'' @ put_attr ''numFiles'' (itoa (int (length entries))) @
            put_attr ''maxFiles'' (itoa lockerMaxFiles) @ put_attr ''numBytes'' (itoa (total_bytes entries)) @
            put_attr ''maxBytes'' (itoa lockerMaxBytes) @
            (if game \<noteq> [] then put_attr ''game'' (attr game) else []) @
            (if pers \<noteq> [] then put_attr ''pers'' (attr pers) else [])
      in if entries = [] then head @ ''/>''
         else head @ ''>'' @ [LF] @ concat (map file_line entries) @ ''</LOCKER>'')"

subsection \<open>Escaping, character by character\<close>

definition esc_char :: "char \<Rightarrow> string" where
  "esc_char c = (if c = CHR ''&'' then ''&amp;'' else if c = CHR 0x22 then ''&quot;''
     else if c = CHR ''<'' then ''&lt;'' else if c = CHR ''>'' then ''&gt;'' else [c])"

lemma attr_concat: "attr s = concat (map esc_char s)"
  by (induction s) (auto simp: attr_def esc_char_def Let_def)

lemma attr_simps [simp]: "attr [] = []" "attr (c # s) = esc_char c @ attr s"
  by (simp_all add: attr_concat)

lemma attr_safe: "c \<in> set (attr s) \<Longrightarrow> c \<noteq> CHR 0x22 \<and> c \<noteq> CHR ''<'' \<and> c \<noteq> CHR ''>''"
  by (induction s) (auto simp: esc_char_def split: if_splits)

subsection \<open>A reader\<close>

text \<open>
  The value of an attribute: a reference to a predefined entity stands for its character, every other
  \<open>&\<close> and every \<open><\<close> is an error, and each line end (CR LF, CR or LF) and each tab is read as a space.
\<close>

definition entity :: "string \<Rightarrow> (char \<times> string) option" where
  "entity s = (if prefix ''amp;'' s then Some (CHR ''&'', drop 4 s)
     else if prefix ''quot;'' s then Some (CHR 0x22, drop 5 s)
     else if prefix ''apos;'' s then Some (CHR 0x27, drop 5 s)
     else if prefix ''lt;'' s then Some (CHR ''<'', drop 3 s)
     else if prefix ''gt;'' s then Some (CHR ''>'', drop 3 s) else None)"

lemma entity_shorter: "entity s = Some (c, rest) \<Longrightarrow> length rest \<le> length s"
  by (auto simp: entity_def split: if_splits)

definition blank :: "char \<Rightarrow> bool" where
  "blank c \<longleftrightarrow> c \<in> {CHR 0x09, CHR 0x0A, CHR 0x0D}"

definition cr_of_crlf :: "char \<Rightarrow> string \<Rightarrow> bool" where
  "cr_of_crlf c s \<longleftrightarrow> c = CHR 0x0D \<and> prefix [CHR 0x0A] s"

function xml_text :: "string \<Rightarrow> string option" where
  "xml_text [] = Some []"
| "xml_text (c # s) =
     (if c = CHR ''&'' then (case entity s of None \<Rightarrow> None | Some (d, rest) \<Rightarrow> map_option ((#) d) (xml_text rest))
      else if c = CHR ''<'' then None
      else if cr_of_crlf c s then xml_text s
      else map_option ((#) (if blank c then CHR '' '' else c)) (xml_text s))"
  by pat_completeness auto
termination
  by (relation "measure length") (auto dest: entity_shorter)

text \<open>Attributes up to the end of a tag.\<close>

definition letter :: "char \<Rightarrow> bool" where
  "letter c \<longleftrightarrow> 65 \<le> ord c \<and> ord c \<le> 90 \<or> 97 \<le> ord c \<and> ord c \<le> 122"

definition attr_name :: "string \<Rightarrow> bool" where
  "attr_name n \<longleftrightarrow> n \<noteq> [] \<and> list_all letter n"

definition read_attr :: "string \<Rightarrow> ((string \<times> string) \<times> string) option" where
  "read_attr s = (case cut_char (CHR ''='') s of
      None \<Rightarrow> None
    | Some (n, s2) \<Rightarrow>
        if \<not> attr_name n \<or> \<not> prefix [CHR 0x22] s2 then None
        else (case cut_char (CHR 0x22) (tl s2) of
            None \<Rightarrow> None
          | Some (v, rest) \<Rightarrow> map_option (\<lambda>w. ((n, w), rest)) (xml_text v)))"

lemma read_attr_shorter: "read_attr s = Some (a, rest) \<Longrightarrow> length rest < length s"
  by (auto simp: read_attr_def split: option.splits if_splits dest!: cut_char_SomeD) (auto simp: prefix_def)

function read_attrs :: "string \<Rightarrow> ((string \<times> string) list \<times> string) option" where
  "read_attrs s =
     (if \<not> prefix '' '' s then Some ([], s)
      else (case read_attr (tl s) of
          None \<Rightarrow> None
        | Some (a, rest) \<Rightarrow> map_option (\<lambda>(as, t). (a # as, t)) (read_attrs rest)))"
  by pat_completeness auto
termination
  by (relation "measure length") (auto simp: prefix_def dest!: read_attr_shorter)

declare read_attrs.simps [simp del]

definition unique_names :: "(string \<times> string) list \<Rightarrow> bool" where
  "unique_names as \<longleftrightarrow> distinct (map fst as)"

function read_files :: "string \<Rightarrow> (string \<times> string) list list option" where
  "read_files s =
     (if s = ''</LOCKER>'' then Some []
      else if prefix ''<FILE'' s then
        (case read_attrs (drop 5 s) of
          None \<Rightarrow> None
        | Some (as, rest) \<Rightarrow>
          if unique_names as \<and> prefix (''/>'' @ [LF]) rest \<and> length rest < length s
          then map_option ((#) as) (read_files (drop 3 rest)) else None)
      else None)"
  by pat_completeness auto
termination
  by (relation "measure length") auto

declare read_files.simps [simp del]

definition read_locker :: "string \<Rightarrow> ((string \<times> string) list \<times> (string \<times> string) list list) option" where
  "read_locker s =
     (if \<not> legible s \<or> \<not> prefix ''<LOCKER'' s then None
      else (case read_attrs (drop 7 s) of
          None \<Rightarrow> None
        | Some (as, rest) \<Rightarrow>
            if \<not> unique_names as then None
            else if rest = ''/>'' then Some (as, [])
            else if prefix (''>'' @ [LF]) rest then map_option (Pair as) (read_files (drop 2 rest))
            else None))"

text \<open>What is left of a text.\<close>

fun xml_norm :: "string \<Rightarrow> string" where
  "xml_norm [] = []"
| "xml_norm (c # s) = (if cr_of_crlf c s then xml_norm s else (if blank c then CHR '' '' else c) # xml_norm s)"

lemma entity_esc:
  "c \<in> {CHR ''&'', CHR 0x22, CHR ''<'', CHR ''>''} \<Longrightarrow>
   \<exists>e. esc_char c = CHR ''&'' # e \<and> entity (e @ s) = Some (c, s)"
  by (auto simp: esc_char_def entity_def)

lemma attr_starts_LF: "prefix [CHR 0x0A] (attr s) \<longleftrightarrow> prefix [CHR 0x0A] s"
  by (cases s) (auto simp: esc_char_def)

lemma xml_text_attr: "xml_text (attr s) = Some (xml_norm s)"
proof (induction s)
  case (Cons c s)
  show ?case
  proof (cases "c \<in> {CHR ''&'', CHR 0x22, CHR ''<'', CHR ''>''}")
    case True
    with entity_esc [of c "attr s"] Cons show ?thesis by (auto simp: blank_def cr_of_crlf_def)
  qed (use Cons in \<open>auto simp: esc_char_def cr_of_crlf_def attr_starts_LF\<close>)
qed simp

lemma xml_norm_Nil [simp]: "xml_norm s = [] \<longleftrightarrow> s = []"
proof (induction s)
  case (Cons c s)
  then show ?case by (cases s) (auto simp: cr_of_crlf_def)
qed simp

lemma xml_text_plain: "CHR ''&'' \<notin> set s \<Longrightarrow> CHR ''<'' \<notin> set s \<Longrightarrow> list_all (\<lambda>c. \<not> blank c) s \<Longrightarrow> xml_text s = Some s"
  by (induction s) (auto simp: cr_of_crlf_def blank_def)

lemma read_attrs_put:
  assumes "attr_name n" "CHR 0x22 \<notin> set v" "xml_text v = Some w"
  shows "read_attrs (put_attr n v @ s) = map_option (\<lambda>(as, t). ((n, w) # as, t)) (read_attrs s)"
proof -
  have "CHR ''='' \<notin> set n" using assms(1) by (auto simp: attr_name_def list_all_iff letter_def ord_def)
  then have "read_attr (n @ CHR ''='' # CHR 0x22 # v @ CHR 0x22 # s) = Some ((n, w), s)"
    using assms by (simp add: read_attr_def cut_char_append)
  then show ?thesis by (subst read_attrs.simps) (simp add: put_attr_def)
qed

lemma read_attrs_attr: "attr_name n \<Longrightarrow>
    read_attrs (put_attr n (attr v) @ s) = map_option (\<lambda>(as, t). ((n, xml_norm v) # as, t)) (read_attrs s)"
  using attr_safe by (intro read_attrs_put) (auto simp: xml_text_attr)

lemma read_attrs_itoa:
  assumes "attr_name n"
  shows "read_attrs (put_attr n (itoa i) @ s) = map_option (\<lambda>(as, t). ((n, itoa i) # as, t)) (read_attrs s)"
proof -
  have "\<not> is_digit c \<and> c \<noteq> CHR ''-''" if "c \<in> {CHR 0x22, CHR ''&'', CHR ''<'', CHR 0x09, CHR 0x0A, CHR 0x0D}" for c
    using that by (auto simp: is_digit_def ord_def)
  then have "c \<notin> set (itoa i)" if "c \<in> {CHR 0x22, CHR ''&'', CHR ''<'', CHR 0x09, CHR 0x0A, CHR 0x0D}" for c
    using that by (blast dest: itoa_chars)
  with assms show ?thesis
    by (intro read_attrs_put xml_text_plain) (auto simp: list_all_iff blank_def)
qed

lemma read_attrs_stop: "s = [] \<or> hd s \<noteq> CHR '' '' \<Longrightarrow> read_attrs s = Some ([], s)"
  by (cases s) (subst read_attrs.simps; simp)+

lemmas read_attrs_all = read_attrs_attr read_attrs_itoa read_attrs_stop

subsection \<open>The document as it is read\<close>

definition file_attrs :: "Entry \<Rightarrow> (string \<times> string) list" where
  "file_attrs e = [(''name'', en_Name e), (''desc'', en_Desc e), (''game'', en_Game e), (''type'', en_Type e),
     (''idnt'', en_IDNT e), (''date'', itoa (en_Date e)), (''FileId'', itoa (en_FileID e)),
     (''attr'', itoa (en_Attr e)), (''size'', itoa (en_Size e)), (''locs'', itoa (en_Locs e)),
     (''perm'', itoa (en_Perm e)), (''vers'', itoa (en_Vers e))]"

definition locker_attrs :: "Entry list \<Rightarrow> string \<Rightarrow> string \<Rightarrow> (string \<times> string) list" where
  "locker_attrs es game pers = [(''error'', ''0''), (''numFiles'', itoa (int (length es))),
     (''maxFiles'', ''10000''), (''numBytes'', itoa (i64 (sum_list (map en_Size es)))),
     (''maxBytes'', ''1073741824'')] @ (if game = [] then [] else [(''game'', game)]) @
     (if pers = [] then [] else [(''pers'', pers)])"

lemma i64_add: "i64 (i64 x + y) = i64 (x + y)"
  by (simp add: i64_def) (simp add: mod_simps algebra_simps)

lemma total_bytes_sum: "total_bytes es = i64 (sum_list (map en_Size es))"
proof -
  have "foldl (\<lambda>n e. i64 (n + en_Size e)) (i64 a) es = i64 (a + sum_list (map en_Size es))" for a
  proof (induction es arbitrary: a)
    case (Cons e es)
    from Cons [of "a + en_Size e"] show ?case by (simp add: i64_add add.assoc)
  qed simp
  from this [of 0] show ?thesis by (simp add: total_bytes_def i64_def)
qed

text \<open>An entry as it is read, and the texts that an XML document can carry.\<close>

definition norm_entry :: "Entry \<Rightarrow> Entry" where
  "norm_entry e = e\<lparr>en_Name := xml_norm (en_Name e), en_Desc := xml_norm (en_Desc e), en_Game := xml_norm (en_Game e),
     en_Type := xml_norm (en_Type e), en_IDNT := xml_norm (en_IDNT e)\<rparr>"

definition legible_entry :: "Entry \<Rightarrow> bool" where
  "legible_entry e \<longleftrightarrow> legible (en_Name e) \<and> legible (en_Desc e) \<and> legible (en_Game e) \<and> legible (en_Type e) \<and> legible (en_IDNT e)"

lemma attr_names [simp]:
  "attr_name ''name''" "attr_name ''desc''" "attr_name ''game''" "attr_name ''type''" "attr_name ''idnt''"
  "attr_name ''date''" "attr_name ''FileId''" "attr_name ''attr''" "attr_name ''size''" "attr_name ''locs''"
  "attr_name ''perm''" "attr_name ''vers''" "attr_name ''error''" "attr_name ''numFiles''" "attr_name ''maxFiles''"
  "attr_name ''numBytes''" "attr_name ''maxBytes''" "attr_name ''pers''"
  by code_simp+

lemma read_file_line:
  "read_attrs (drop 5 (file_line e @ s)) = Some (file_attrs (norm_entry e), ''/>'' @ [LF] @ s)"
  by (simp add: file_line_def read_attrs_all file_attrs_def norm_entry_def)

lemma unique_file_attrs: "unique_names (file_attrs e)"
  by (simp add: unique_names_def file_attrs_def)

lemma read_files_lines:
  "read_files (concat (map file_line es) @ ''</LOCKER>'') = Some (map (file_attrs \<circ> norm_entry) es)"
proof (induction es)
  case Nil
  show ?case by (subst read_files.simps) simp
next
  case (Cons e es)
  let ?rest = "concat (map file_line es) @ ''</LOCKER>''"
  have line: "prefix ''<FILE'' (file_line e @ ?rest)" "file_line e @ ?rest \<noteq> ''</LOCKER>''"
    by (simp_all add: file_line_def)
  have "length (''/>'' @ [LF] @ ?rest) < length (file_line e @ ?rest)"
    by (simp add: file_line_def)
  with line show ?case
    using read_file_line [of e ?rest] Cons by (subst read_files.simps) (simp add: unique_file_attrs)
qed

subsection \<open>Which documents can be read\<close>

definition special :: "char \<Rightarrow> bool" where
  "special c \<longleftrightarrow> c \<in> {CHR ''&'', CHR 0x22, CHR ''<'', CHR ''>''}"

lemma attr_plain: "\<forall>c \<in> set s. \<not> special c \<Longrightarrow> attr s = s"
  by (induction s) (auto simp: esc_char_def special_def)

lemma markup_special: "special c \<Longrightarrow> markup (esc_char c)" "special c \<Longrightarrow> markup [c]"
  unfolding special_def by (auto simp: esc_char_def markup_def ord_def)

lemma legible_attr: "legible (attr s) \<longleftrightarrow> legible s"
proof (induction "length s" arbitrary: s rule: less_induct)
  case less
  show ?case
  proof (cases "\<exists>c \<in> set s. special c")
    case True
    from split_list_first_prop [OF this] obtain a c b where s: "s = a @ c # b" "special c" "\<forall>x \<in> set a. \<not> special x"
      by blast
    have "attr (a @ c # b) = attr a @ esc_char c @ attr b" by (simp only: attr_concat map_append concat_append list.map concat.simps append_assoc)
    then have "attr s = a @ esc_char c @ attr b" by (simp only: s(1) attr_plain [OF s(3)])
    moreover have "esc_char c \<noteq> []" by (simp add: esc_char_def)
    ultimately have "legible (attr s) \<longleftrightarrow> legible a \<and> legible (attr b)"
      by (simp only: legible_around [OF markup_special(1) [OF s(2)]] simp_thms)
    also have "\<dots> \<longleftrightarrow> legible a \<and> legible b" using less [of b] by (simp add: s(1))
    also have "\<dots> \<longleftrightarrow> legible s"
      using legible_around [OF markup_special(2) [OF s(2)], of a b] by (simp add: s(1))
    finally show ?thesis .
  qed (simp add: attr_plain)
qed

lemma legible_put:
  assumes "attr_name n"
  shows "legible (put_attr n v @ s) \<longleftrightarrow> legible v \<and> legible s"
proof -
  have "list_all (\<lambda>c. 32 \<le> ord c \<and> ord c < 127) n" using assms by (auto simp: attr_name_def list_all_iff letter_def)
  then have "markup (CHR '' '' # n @ [CHR ''='', CHR 0x22])" by (auto simp: markup_def list_all_iff ord_def)
  moreover have "markup [CHR 0x22]" by (simp add: markup_def ord_def)
  ultimately show ?thesis
    using legible_markup_append [of "CHR '' '' # n @ [CHR ''='', CHR 0x22]" "v @ [CHR 0x22] @ s"] legible_around [of "[CHR 0x22]" v s]
    by (simp add: put_attr_def)
qed

lemma legible_ends: "legible (''<FILE'' @ s) = legible s" "legible (''<LOCKER'' @ s) = legible s" "legible (''/>'' @ LF # s) = legible s"
  "legible (''>'' @ LF # s) = legible s" "legible ''/>''" "legible ''</LOCKER>''"
proof -
  have m: "markup ''<FILE''" "markup ''<LOCKER''" "markup (''/>'' @ [LF])" "markup (''>'' @ [LF])" "markup ''/>''" "markup ''</LOCKER>''"
    by code_simp+
  show "legible (''<FILE'' @ s) = legible s" by (rule legible_markup_append [OF m(1)])
  show "legible (''<LOCKER'' @ s) = legible s" by (rule legible_markup_append [OF m(2)])
  show "legible (''/>'' @ LF # s) = legible s"
    using legible_markup_append [OF m(3), of s] by (simp only: append_assoc append_Cons append_Nil)
  show "legible (''>'' @ LF # s) = legible s"
    using legible_markup_append [OF m(4), of s] by (simp only: append_assoc append_Cons append_Nil)
  show "legible ''/>''" "legible ''</LOCKER>''" by (rule legible_markup, rule m)+
qed

lemmas legible_document = legible_put legible_attr legible_markup [OF markup_itoa] legible_ends

lemma legible_file_line: "legible (file_line e @ s) \<longleftrightarrow> legible_entry e \<and> legible s"
proof -
  have "file_line e @ s = ''<FILE'' @ put_attr ''name'' (attr (en_Name e)) @ put_attr ''desc'' (attr (en_Desc e)) @
     put_attr ''game'' (attr (en_Game e)) @ put_attr ''type'' (attr (en_Type e)) @
     put_attr ''idnt'' (attr (en_IDNT e)) @ put_attr ''date'' (itoa (en_Date e)) @
     put_attr ''FileId'' (itoa (en_FileID e)) @ put_attr ''attr'' (itoa (en_Attr e)) @
     put_attr ''size'' (itoa (en_Size e)) @ put_attr ''locs'' (itoa (en_Locs e)) @
     put_attr ''perm'' (itoa (en_Perm e)) @ put_attr ''vers'' (itoa (en_Vers e)) @ ''/>'' @ LF # s"
    by (simp only: file_line_def append_assoc append_Cons append_Nil)
  then show ?thesis by (simp only: legible_document attr_names simp_thms legible_entry_def conj_assoc)
qed

lemma legible_file_lines: "legible (concat (map file_line es) @ ''</LOCKER>'') \<longleftrightarrow> list_all legible_entry es"
  by (induction es) (simp_all add: legible_file_line legible_ends del: legible.simps)

text \<open>The texts of a listing.\<close>

definition legible_listing :: "Entry list \<Rightarrow> string \<Rightarrow> string \<Rightarrow> bool" where
  "legible_listing es game pers \<longleftrightarrow> list_all legible_entry es \<and> legible game \<and> legible pers"

text \<open>
  C34. What an XML reader makes of the listing that the game receives. If every text in it (the names and
  the other texts of the files, the game and the player asked for) is UTF-8 without the control characters
  that XML forbids, it recovers every attribute of every file and of the locker itself, in order, and nothing
  else, quotes, angle brackets and ampersands included; but tabs and line breaks, which are
  not escaped, come back as spaces. If one text is not, the reader has to reject the whole listing.
\<close>

theorem BuildXML_readable:
  "read_locker (BuildXML es game pers) =
     (if legible_listing es game pers
      then Some (locker_attrs (map norm_entry es) (xml_norm game) (xml_norm pers), map (file_attrs \<circ> norm_entry) es) else None)"
proof -
  have i: "itoa 0 = ''0''" "itoa 10000 = ''10000''" "itoa 1073741824 = ''1073741824''" by code_simp+
  have numerals: "locker_attrs es' g p = [(''error'', itoa 0), (''numFiles'', itoa (int (length es'))), (''maxFiles'', itoa 10000),
     (''numBytes'', itoa (i64 (sum_list (map en_Size es')))), (''maxBytes'', itoa 1073741824)] @
     (if g = [] then [] else [(''game'', g)]) @ (if p = [] then [] else [(''pers'', p)])" for es' g p
    by (simp add: locker_attrs_def i)
  have zero: "put_attr ''error'' ''0'' = put_attr ''error'' (itoa 0)" by (simp add: i)
  let ?game = "if game \<noteq> [] then put_attr ''game'' (attr game) else []"
  let ?pers = "if pers \<noteq> [] then put_attr ''pers'' (attr pers) else []"
  let ?rest = "if es = [] then ''/>'' else ''>'' @ LF # concat (map file_line es) @ ''</LOCKER>''"
  let ?tags = "put_attr ''error'' (itoa 0) @ put_attr ''numFiles'' (itoa (int (length es))) @
     put_attr ''maxFiles'' (itoa lockerMaxFiles) @ put_attr ''numBytes'' (itoa (total_bytes es)) @
     put_attr ''maxBytes'' (itoa lockerMaxBytes) @ ?game @ ?pers @ ?rest"
  have doc: "BuildXML es game pers = ''<LOCKER'' @ ?tags"
    by (simp add: BuildXML_def Let_def zero)
  have sizes: "map en_Size (map norm_entry es) = map en_Size es" by (simp add: norm_entry_def)
  have "legible (?game @ s) \<longleftrightarrow> legible game \<and> legible s" "legible (?pers @ s) \<longleftrightarrow> legible pers \<and> legible s" for s
    by (cases "game = []"; cases "pers = []"; simp only: legible_put legible_attr attr_names legible.simps(1) append_Nil simp_thms if_True if_False)+
  moreover have "legible ?rest \<longleftrightarrow> list_all legible_entry es"
    by (simp only: legible_ends legible_file_lines list.pred_inject(1) simp_thms split: if_split) auto
  ultimately have l: "legible (BuildXML es game pers) \<longleftrightarrow> legible_listing es game pers"
    unfolding doc legible_listing_def by (simp only: legible_document attr_names simp_thms) auto
  have "read_attrs ?rest = Some ([], ?rest)" by (simp add: read_attrs_stop)
  then have "read_attrs ?tags = Some (locker_attrs (map norm_entry es) (xml_norm game) (xml_norm pers), ?rest)"
    by (cases "game = []"; cases "pers = []") (simp_all only: sizes read_attrs_attr read_attrs_itoa attr_names append_Nil if_True if_False
          numerals simp_thms option.map prod.case xml_norm_Nil append_Cons length_map lockerMaxFiles_def lockerMaxBytes_def
          total_bytes_sum xml_norm.simps(1))
  moreover have "unique_names (locker_attrs es' g p)" for es' g p by (simp add: unique_names_def locker_attrs_def)
  ultimately show ?thesis
    unfolding read_locker_def l using read_files_lines [of es] by (simp add: doc)
qed

end
