(* ===== verification/Locker_Meta.thy ===== *)
theory Locker_Meta
  imports Locker_Xml Go_Json
begin

text \<open>
  The metadata file beside a ghost (\<open>loadMeta\<close>, \<open>saveMeta\<close> in \<open>server/locker/server.go\<close> and the struct
  tags of \<open>Entry\<close> in \<open>server/locker/xml.go\<close>): what \<open>json.Marshal\<close> writes for an entry and what
  \<open>json.Unmarshal\<close> makes of any bytes.
\<close>

subsection \<open>Writing\<close>

definition json_string :: "string \<Rightarrow> string" where
  "json_string s = quote # json_quote s @ [quote]"

definition json_field :: "string \<Rightarrow> string \<Rightarrow> string" where
  "json_field k v = json_string k @ CHR '':'' # v"

definition marshal_entry :: "Entry \<Rightarrow> string" where
  "marshal_entry e = ''{'' @ json_field ''name'' (json_string (en_Name e)) @
     '','' @ json_field ''desc'' (json_string (en_Desc e)) @ '','' @ json_field ''game'' (json_string (en_Game e)) @
     '','' @ json_field ''type'' (json_string (en_Type e)) @ '','' @ json_field ''idnt'' (json_string (en_IDNT e)) @
     '','' @ json_field ''date'' (itoa (en_Date e)) @ '','' @ json_field ''FileId'' (itoa (en_FileID e)) @
     '','' @ json_field ''attr'' (itoa (en_Attr e)) @ '','' @ json_field ''size'' (itoa (en_Size e)) @
     '','' @ json_field ''locs'' (itoa (en_Locs e)) @ '','' @ json_field ''perm'' (itoa (en_Perm e)) @
     '','' @ json_field ''vers'' (itoa (en_Vers e)) @ ''}''"

subsection \<open>Reading\<close>

definition zero_entry :: Entry where
  "zero_entry = \<lparr>en_Name = [], en_Desc = [], en_Game = [], en_Type = [], en_IDNT = [], en_Date = 0, en_FileID = 0,
     en_Attr = 0, en_Size = 0, en_Locs = 0, en_Perm = 0, en_Vers = 0, en_path = []\<rparr>"

text \<open>Keys match without regard to case; the long s and the Kelvin sign fold to \<open>S\<close> and \<open>K\<close>.\<close>

definition fold_rune :: "nat \<Rightarrow> nat" where
  "fold_rune r = (if 97 \<le> r \<and> r \<le> 122 then r - 32 else if r = 383 then 83 else if r = 8490 then 75 else r)"

definition fold_name :: "string \<Rightarrow> nat list" where
  "fold_name k = map fold_rune (runes k)"

datatype entry_field = StringField "string \<Rightarrow> Entry \<Rightarrow> Entry" | IntField "int \<Rightarrow> Entry \<Rightarrow> Entry"

definition entry_fields :: "(string \<times> entry_field) list" where
  "entry_fields = [
     (''name'', StringField (\<lambda>v e. e\<lparr>en_Name := v\<rparr>)), (''desc'', StringField (\<lambda>v e. e\<lparr>en_Desc := v\<rparr>)),
     (''game'', StringField (\<lambda>v e. e\<lparr>en_Game := v\<rparr>)), (''type'', StringField (\<lambda>v e. e\<lparr>en_Type := v\<rparr>)),
     (''idnt'', StringField (\<lambda>v e. e\<lparr>en_IDNT := v\<rparr>)), (''date'', IntField (\<lambda>v e. e\<lparr>en_Date := v\<rparr>)),
     (''FileId'', IntField (\<lambda>v e. e\<lparr>en_FileID := v\<rparr>)), (''attr'', IntField (\<lambda>v e. e\<lparr>en_Attr := v\<rparr>)),
     (''size'', IntField (\<lambda>v e. e\<lparr>en_Size := v\<rparr>)), (''locs'', IntField (\<lambda>v e. e\<lparr>en_Locs := v\<rparr>)),
     (''perm'', IntField (\<lambda>v e. e\<lparr>en_Perm := v\<rparr>)), (''vers'', IntField (\<lambda>v e. e\<lparr>en_Vers := v\<rparr>))]"

definition find_field :: "string \<Rightarrow> entry_field option" where
  "find_field k = map_option snd (find (\<lambda>f. fold_name (fst f) = fold_name k) entry_fields)"

text \<open>
  One member: an unknown key is skipped, \<open>null\<close> leaves the field alone, and a value of the wrong type
  (or a number that is not an \<open>int64\<close>) makes \<open>Unmarshal\<close> return an error in the end.
\<close>

definition set_member :: "string \<times> json \<Rightarrow> Entry option \<Rightarrow> Entry option" where
  "set_member = (\<lambda>(k, v) acc. case (acc, find_field k) of
      (None, _) \<Rightarrow> None
    | (Some e, None) \<Rightarrow> Some e
    | (Some e, Some (StringField f)) \<Rightarrow> (case v of JString s \<Rightarrow> Some (f s e) | JNull \<Rightarrow> Some e | _ \<Rightarrow> None)
    | (Some e, Some (IntField f)) \<Rightarrow> (case v of
          JNumber lit \<Rightarrow> map_option (\<lambda>i. f i e) (atoi_checked lit)
        | JNull \<Rightarrow> Some e
        | _ \<Rightarrow> None))"

definition unmarshal_entry :: "string \<Rightarrow> Entry option" where
  "unmarshal_entry s = (case json_document s of
      Some (JObject members) \<Rightarrow> fold set_member members (Some zero_entry)
    | Some JNull \<Rightarrow> Some zero_entry
    | _ \<Rightarrow> None)"

subsection \<open>Strings come back\<close>

lemma hex4_byte: "hex4 (''00'' @ hex_char (ord c div 16) # hex_char (ord c mod 16) # s) = Some (ord c)"
proof -
  have "from_hex_char (CHR ''0'') = Some 0" by code_simp
  moreover have "ord c div 16 * 16 + ord c mod 16 = ord c" by simp
  ultimately show ?thesis by (simp add: hex4_def from_hex_char_hex_char less_mult_imp_div_less)
qed

lemma short_escapes_ok:
  "list_all (\<lambda>(n, e). simple_escape e = Some (char_of n) \<and> e \<noteq> CHR ''u'') short_escapes"
  "short_escape 34 \<noteq> None" "short_escape 92 \<noteq> None"
  by code_simp+

lemma json_byte_cases:
  obtains e where "json_byte c = [backslash, e]" "simple_escape e = Some c" "e \<noteq> CHR ''u''"
  | "json_byte c = backslash # ''u00'' @ [hex_char (ord c div 16), hex_char (ord c mod 16)]"
  | "json_byte c = [c]" "c \<noteq> quote" "c \<noteq> backslash" "32 \<le> ord c"
proof (cases "short_escape (ord c)")
  case (Some e)
  then have "(ord c, e) \<in> set short_escapes" by (auto simp: short_escape_def dest: map_of_SomeD)
  then have "simple_escape e = Some (char_of (ord c)) \<and> e \<noteq> CHR ''u''"
    using short_escapes_ok(1) by (auto simp: list_all_iff)
  with Some that(1) show ?thesis by (simp add: json_byte_def)
next
  case None
  have "ord quote = 34" "ord backslash = 92" by code_simp+
  with None short_escapes_ok(2,3) have "c \<noteq> quote" "c \<noteq> backslash" by auto
  note plain = this
  show ?thesis
  proof (cases "ord c < 32 \<or> c = CHR ''<'' \<or> c = CHR ''>'' \<or> c = CHR ''&''")
    case True
    with None have "json_byte c = backslash # ''u00'' @ [hex_char (ord c div 16), hex_char (ord c mod 16)]"
      by (simp add: json_byte_def)
    then show ?thesis by (rule that(2))
  next
    case False
    with None have "json_byte c = [c]" "32 \<le> ord c" by (simp_all add: json_byte_def)
    with plain show ?thesis by (intro that(3))
  qed
qed

lemma scan_string_byte:
  "scan_string (json_byte c @ s) = map_option (\<lambda>(raw, rest). (json_byte c @ raw, rest)) (scan_string s)"
proof (cases rule: json_byte_cases [of c])
  case 2
  then show ?thesis using hex4_byte [of c s] by (simp add: option.map_comp comp_def split_def)
qed (simp_all add: option.map_comp comp_def split_def)

lemma json_unquote_byte:
  assumes "ord c < 128"
  shows "json_unquote (json_byte c @ s) = c # json_unquote s"
proof (cases rule: json_byte_cases [of c])
  case 2
  then show ?thesis using hex4_byte [of c s] assms by (simp add: encode_rune_def)
qed (use assms in simp_all)

lemma json_string_scan:
  assumes "ascii s"
  shows "scan_string (json_quote s @ quote # rest) = Some (json_quote s, rest)"
  using assms by (induction s) (auto simp: ascii_def scan_string_byte)

lemma json_unquote_quote:
  assumes "ascii s"
  shows "json_unquote (json_quote s) = s"
  using assms by (induction s) (auto simp: ascii_def json_unquote_byte)

subsection \<open>Entries come back\<close>

lemma skip_space_quote [simp]: "skip_space (quote # s) = quote # s"
  by (simp add: skip_space_def json_space_def)

lemma skip_space_punct [simp]:
  "c \<in> {CHR '':'', CHR '','', CHR ''}''} \<Longrightarrow> skip_space (c # s) = c # s"
  by (auto simp: skip_space_def json_space_def)

lemma json_value_string: "ascii s \<Longrightarrow> json_value d (json_string s @ rest) = Some (JString s, rest)"
  by (subst json_value.simps) (simp add: json_string_def json_string_scan json_unquote_quote)

lemma takeWhile_digits:
  assumes "\<forall>c \<in> set w. is_digit c" "\<not> is_digit c"
  shows "takeWhile is_digit (w @ c # rest) = w"
  using assms by (simp add: takeWhile_tail)

lemma digits10_zero: "prefix ''0'' (digits10 n) \<longleftrightarrow> n = 0"
proof (induction n rule: digits10.induct)
  case (1 n)
  have z: "digit_char 0 = CHR ''0''" by code_simp
  have "m < 10 \<Longrightarrow> CHR ''0'' = digit_char m \<longleftrightarrow> m = 0" for m
    using z by (metis digit_val_digit_char zero_less_numeral)
  note digit = this
  show ?case
  proof (cases "n < 10")
    case True
    then show ?thesis by (subst digits10.simps) (simp add: digit)
  next
    case False
    then have "digits10 n = digits10 (n div 10) @ [digit_char (n mod 10)]" by (subst digits10.simps) simp
    with False 1 show ?thesis by (cases "digits10 (n div 10)") auto
  qed
qed

lemma digits10_0: "digits10 0 = ''0''"
  by code_simp

lemma scan_part_stop: "lower_ascii c \<noteq> m \<Longrightarrow> scan_part m signs (c # s) = Some ([], c # s)"
  by (simp add: scan_part_def)

lemma scan_number_literal:
  assumes "(if prefix ''-'' (sg @ ds @ c # rest) then ''-'' else []) = sg" "takeWhile is_digit (ds @ c # rest) = ds"
    "(if prefix ''0'' ds then ''0'' else ds) = ds" "ds \<noteq> []" "c \<in> {CHR '','', CHR ''}''}"
  shows "scan_number (sg @ ds @ c # rest) = Some (sg @ ds, c # rest)"
proof -
  have "lower_ascii c \<noteq> CHR ''.''" "lower_ascii c \<noteq> CHR ''e''" using assms(5) by (auto simp: lower_ascii_def ord_def)
  then have parts: "scan_part (CHR ''.'') (\<lambda>_. False) (c # rest) = Some ([], c # rest)"
    "scan_part (CHR ''e'') (\<lambda>x. x = CHR ''+'' \<or> x = CHR ''-'') (c # rest) = Some ([], c # rest)"
    by (simp_all add: scan_part_stop)
  have "drop (length sg) (sg @ ds @ c # rest) = ds @ c # rest"
    "drop (length sg + length ds) (sg @ ds @ c # rest) = c # rest" by simp_all
  then show ?thesis
    using assms(4) by (simp only: scan_number_def Let_def assms(1) assms(2) assms(3) parts) (simp add: parts)
qed

lemma scan_number_itoa:
  assumes "c \<in> {CHR '','', CHR ''}''}"
  shows "scan_number (itoa i @ c # rest) = Some (itoa i, c # rest)"
proof -
  define ds where "ds = digits10 (nat \<bar>i\<bar>)"
  define sg where "sg = (if i < 0 then ''-'' else [])"
  have i: "itoa i = sg @ ds" by (simp add: itoa_def ds_def sg_def)
  have digits: "ds \<noteq> []" "\<And>x. x \<in> set ds \<Longrightarrow> is_digit x" by (auto simp: ds_def dest: digits10_digits)
  have "\<not> is_digit c" "\<not> is_digit (CHR ''-'')" using assms by (auto simp: is_digit_def ord_def)
  then have "takeWhile is_digit (ds @ c # rest) = ds" "\<not> prefix ''-'' (ds @ c # rest)"
    using digits by (auto intro!: takeWhile_digits, cases ds) auto
  moreover from this(2) have "(if prefix ''-'' (sg @ ds @ c # rest) then ''-'' else []) = sg" by (auto simp: sg_def)
  moreover have "(if prefix ''0'' ds then ''0'' else ds) = ds"
    using digits10_0 by (auto simp: ds_def digits10_zero)
  ultimately show ?thesis using scan_number_literal [of sg ds c rest] digits(1) assms by (simp add: i)
qed

lemma json_value_int:
  assumes "c \<in> {CHR '','', CHR ''}''}"
  shows "json_value d (itoa i @ c # rest) = Some (JNumber (itoa i), c # rest)"
proof -
  obtain x w where x: "itoa i = x # w" by (cases "itoa i") auto
  then have "is_digit x \<or> x = CHR ''-''" using itoa_chars [of x i] by simp
  then have "\<not> json_space x" "x \<notin> {quote, CHR ''{'', CHR ''['', CHR ''n'', CHR ''t'', CHR ''f''}"
    by (auto simp: is_digit_def json_space_def ord_def)
  then show ?thesis using scan_number_itoa [OF assms, of i rest] x
    by (subst json_value.simps) (simp add: skip_space_def)
qed

lemma item_key_field:
  "ascii k \<Longrightarrow> item_key True (json_field k v @ rest) = Some (k, v @ rest)"
  by (simp add: item_key_def json_field_def json_string_def json_string_scan json_unquote_quote)

lemma json_items_more:
  assumes "ascii k" "json_value d (vt @ CHR '','' # json_field k' x) = Some (v, CHR '','' # json_field k' x)"
  shows "json_items True d (json_field k vt @ CHR '','' # json_field k' x) =
    map_option (\<lambda>(xs, rest). ((k, v) # xs, rest)) (json_items True d (json_field k' x))"
proof -
  have "skip_space (json_field k' x) = json_field k' x" by (simp add: json_field_def json_string_def)
  then show ?thesis using assms
    by (subst json_items.simps) (simp add: item_key_field)
qed

lemma json_items_last:
  assumes "ascii k" "json_value d (vt @ ''}'') = Some (v, ''}'')"
  shows "json_items True d (json_field k vt @ ''}'') = Some ([(k, v)], [])"
  using assms by (subst json_items.simps) (simp add: item_key_field)

text \<open>What a field's text is read as, whatever field or end of object follows.\<close>

definition reads_as :: "string \<Rightarrow> json \<Rightarrow> bool" where
  "reads_as vt v \<longleftrightarrow> (\<forall>d c rest. c \<in> {CHR '','', CHR ''}''} \<longrightarrow> json_value d (vt @ c # rest) = Some (v, c # rest))"

lemma reads_as_intros: "ascii s \<Longrightarrow> reads_as (json_string s) (JString s)" "reads_as (itoa i) (JNumber (itoa i))"
  by (auto simp: reads_as_def json_value_string intro!: json_value_int)

fun json_fields :: "(string \<times> string) list \<Rightarrow> string" where
  "json_fields [] = []"
| "json_fields [(k, vt)] = json_field k vt @ ''}''"
| "json_fields ((k, vt) # fs) = json_field k vt @ CHR '','' # json_fields fs"

lemma json_items_fields:
  assumes "fs \<noteq> []" "list_all2 (\<lambda>(k, vt) (k', v). k = k' \<and> ascii k \<and> reads_as vt v) fs members"
  shows "json_items True d (json_fields fs) = Some (members, [])"
  using assms
proof (induction fs arbitrary: members rule: json_fields.induct)
  case (2 k vt)
  then show ?case by (auto simp: list_all2_Cons1 reads_as_def intro: json_items_last)
next
  case (3 k vt f fs)
  obtain k' vt' where f: "f = (k', vt')" by (cases f)
  obtain x where x: "json_fields (f # fs) = json_field k' x"
    by (cases fs) (auto simp: f json_field_def)
  from 3(3) obtain v ms where m: "members = (k, v) # ms" "ascii k" "reads_as vt v"
    "list_all2 (\<lambda>(k, vt) (k', v). k = k' \<and> ascii k \<and> reads_as vt v) (f # fs) ms"
    by (cases members) auto
  have "json_items True d (json_field k' x) = Some (ms, [])" using 3(1) [OF _ m(4)] by (simp add: x)
  moreover have "json_value d (vt @ CHR '','' # json_field k' x) = Some (v, CHR '','' # json_field k' x)"
    using m(3) by (simp add: reads_as_def)
  ultimately show ?case using json_items_more [OF m(2)] by (simp add: x m(1))
qed simp

definition entry_texts :: "Entry \<Rightarrow> (string \<times> string) list" where
  "entry_texts e = [(''name'', json_string (en_Name e)), (''desc'', json_string (en_Desc e)),
     (''game'', json_string (en_Game e)), (''type'', json_string (en_Type e)), (''idnt'', json_string (en_IDNT e)),
     (''date'', itoa (en_Date e)), (''FileId'', itoa (en_FileID e)), (''attr'', itoa (en_Attr e)),
     (''size'', itoa (en_Size e)), (''locs'', itoa (en_Locs e)), (''perm'', itoa (en_Perm e)), (''vers'', itoa (en_Vers e))]"

definition entry_members :: "Entry \<Rightarrow> (string \<times> json) list" where
  "entry_members e = [(''name'', JString (en_Name e)), (''desc'', JString (en_Desc e)),
     (''game'', JString (en_Game e)), (''type'', JString (en_Type e)), (''idnt'', JString (en_IDNT e)),
     (''date'', JNumber (itoa (en_Date e))), (''FileId'', JNumber (itoa (en_FileID e))), (''attr'', JNumber (itoa (en_Attr e))),
     (''size'', JNumber (itoa (en_Size e))), (''locs'', JNumber (itoa (en_Locs e))), (''perm'', JNumber (itoa (en_Perm e))),
     (''vers'', JNumber (itoa (en_Vers e)))]"

definition ascii_entry :: "Entry \<Rightarrow> bool" where
  "ascii_entry e \<longleftrightarrow> list_all ascii [en_Name e, en_Desc e, en_Game e, en_Type e, en_IDNT e] \<and>
     list_all int64_range [en_Date e, en_FileID e, en_Attr e, en_Size e, en_Locs e, en_Perm e, en_Vers e]"

lemma field_names_fold:
  "fold_name ''name'' = [78, 65, 77, 69]" "fold_name ''desc'' = [68, 69, 83, 67]" "fold_name ''game'' = [71, 65, 77, 69]"
  "fold_name ''type'' = [84, 89, 80, 69]" "fold_name ''idnt'' = [73, 68, 78, 84]" "fold_name ''date'' = [68, 65, 84, 69]"
  "fold_name ''FileId'' = [70, 73, 76, 69, 73, 68]" "fold_name ''attr'' = [65, 84, 84, 82]" "fold_name ''size'' = [83, 73, 90, 69]"
  "fold_name ''locs'' = [76, 79, 67, 83]" "fold_name ''perm'' = [80, 69, 82, 77]" "fold_name ''vers'' = [86, 69, 82, 83]"
  by code_simp+

lemma entry_members_fold:
  "ascii_entry e \<Longrightarrow> fold set_member (entry_members e) (Some zero_entry) = Some (e\<lparr>en_path := []\<rparr>)"
  by (simp add: entry_members_def set_member_def find_field_def entry_fields_def field_names_fold zero_entry_def
      ascii_entry_def atoi_checked_itoa)

lemma json_value_object:
  "d \<noteq> 0 \<Longrightarrow> json_items True (d - 1) (quote # x) = Some (ms, rest) \<Longrightarrow>
   json_value d (CHR ''{'' # quote # x) = Some (JObject ms, rest)"
  by (subst json_value.simps) (simp add: skip_space_def json_space_def)

lemma unmarshal_marshal:
  assumes "ascii_entry e"
  shows "unmarshal_entry (marshal_entry e) = Some (e\<lparr>en_path := []\<rparr>)"
proof -
  have m: "marshal_entry e = CHR ''{'' # json_fields (entry_texts e)"
    by (simp add: marshal_entry_def entry_texts_def)
  have "ascii k" if "k \<in> {''name'', ''desc'', ''game'', ''type'', ''idnt'', ''date'', ''FileId'', ''attr'', ''size'', ''locs'',
      ''perm'', ''vers''}" for k
    using that by (auto simp: ascii_def ord_def)
  then have "json_items True 9999 (json_fields (entry_texts e)) = Some (entry_members e, [])"
    using assms by (intro json_items_fields)
      (auto simp: entry_texts_def entry_members_def ascii_entry_def intro!: reads_as_intros)
  moreover obtain x where "json_fields (entry_texts e) = quote # x"
    by (simp add: entry_texts_def json_field_def json_string_def)
  ultimately have "json_value 10000 (marshal_entry e) = Some (JObject (entry_members e), [])"
    using json_value_object [of 10000 x] by (simp add: m)
  then have "json_document (marshal_entry e) = Some (JObject (entry_members e))"
    by (simp add: json_document_def skip_space_def)
  then show ?thesis using entry_members_fold [OF assms] by (simp add: unmarshal_entry_def)
qed

end
