(* ===== verification/Locker_Http.thy ===== *)
theory Locker_Http
  imports Stream Go_Utf8 Prelude Config
begin

text \<open>
  The HTTP side of \<open>server/locker/server.go\<close>: cutting requests out of the byte stream, writing
  responses, and the check on identifiers. Only the header \<open>content-length\<close> is ever looked up; header
  names are lowered on their ASCII letters here, which decides the same about it as \<open>strings.ToLower\<close>.
\<close>

subsection \<open>Requests\<close>

record http_request =
  rq_method :: string
  rq_path :: string
  rq_headers :: params
  rq_body :: string

definition CRLF :: string where "CRLF = [CR, LF]"

definition header_line :: "params \<Rightarrow> string \<Rightarrow> params" where
  "header_line m line = (case cut_char (CHR '':'') line of
      None \<Rightarrow> m
    | Some (k, v) \<Rightarrow> m(to_lower (trim_space k) \<mapsto> trim_space v))"

text \<open>
  \<open>Inr None\<close> is \<open>ok == false\<close> (more bytes are needed). A negative or wrapped length makes the bounds of
  \<open>data[headerEnd:total]\<close> run backwards: a panic, \<open>Inl ()\<close>.
\<close>

definition cut_request :: "string list \<Rightarrow> params \<Rightarrow> nat \<Rightarrow> string \<Rightarrow> http_request parse_result" where
  "cut_request parts headers headerEnd data =
     (let contentLen = atoi_value (mget headers ''content-length'');
          total = i64 (int headerEnd + contentLen) in
      if int (length data) < total then Inr None
      else if total < int headerEnd then Inl ()
      else Inr (Some
        (\<lparr>rq_method = parts ! 0, rq_path = parts ! 1, rq_headers = headers,
          rq_body = drop headerEnd (take (nat total) data)\<rparr>,
         drop (nat total) data)))"

definition parseHTTPRequest :: "string \<Rightarrow> http_request parse_result" where
  "parseHTTPRequest data = (case index_of (CRLF @ CRLF) data of
      None \<Rightarrow> Inr None
    | Some idx \<Rightarrow>
        (let lines = split_str CRLF (take idx data);
             parts = split_n 3 (CHR '' '') (hd lines) in
         if length parts < 2 then Inr None
         else cut_request parts (foldl header_line Map.empty (tl lines)) (idx + 4) data))"

subsection \<open>Responses\<close>

definition status_reason :: "int \<Rightarrow> string" where
  "status_reason code = (if code = 200 then ''OK'' else if code = 404 then ''Not Found'' else ''OK'')"

definition buildHTTPResponse :: "int \<Rightarrow> string \<Rightarrow> string \<Rightarrow> string" where
  "buildHTTPResponse code body contentType =
     ''HTTP/1.1 '' @ itoa code @ CHR '' '' # status_reason code @ CRLF @
     ''Content-Type: '' @ contentType @ CRLF @
     ''Connection: keep-alive'' @ CRLF @
     ''Content-Length: '' @ itoa (int (length body)) @ CRLF @ CRLF @ body"

subsection \<open>Identifiers\<close>

text \<open>\<open>^[A-Za-z0-9_. -]+$\<close>\<close>

definition safe_char :: "char \<Rightarrow> bool" where
  "safe_char c \<longleftrightarrow> (65 \<le> ord c \<and> ord c \<le> 90) \<or> (97 \<le> ord c \<and> ord c \<le> 122) \<or> is_digit c
     \<or> c = CHR ''_'' \<or> c = CHR ''.'' \<or> c = CHR '' '' \<or> c = CHR ''-''"

definition safeIdentifier :: "Config \<Rightarrow> string \<Rightarrow> bool" where
  "safeIdentifier cfg v =
     (if v = [] \<or> MaxIdentifierLength cfg < int (length v) then False
      else if contains v ''/'' \<or> contains v [CHR 0x5C] \<or> contains v [NUL] \<or> contains v ''..'' then False
      else list_all safe_char v)"

subsection \<open>Framing\<close>

lemma cut_request_SomeD:
  assumes "cut_request parts headers h data = Inr (Some (req, rest))"
  obtains total where "h \<le> total" "total \<le> length data" "rest = drop total data"
proof -
  define total where "total = i64 (int h + atoi_value (mget headers ''content-length''))"
  from assms have "int h \<le> total" "total \<le> int (length data)" "rest = drop (nat total) data"
    unfolding total_def by (simp_all add: cut_request_def Let_def split: if_splits)
  then show thesis by (intro that [of "nat total"]) auto
qed

lemma cut_request_append:
  assumes "cut_request parts headers h data = r" "r \<noteq> Inr None"
  shows "cut_request parts headers h (data @ extra) = (case r of Inl u \<Rightarrow> Inl u
    | Inr None \<Rightarrow> Inr None | Inr (Some (req, rest)) \<Rightarrow> Inr (Some (req, rest @ extra)))"
proof -
  define total where "total = i64 (int h + atoi_value (mget headers ''content-length''))"
  have def: "cut_request parts headers h d = (if int (length d) < total then Inr None
      else if total < int h then Inl ()
      else Inr (Some (\<lparr>rq_method = parts ! 0, rq_path = parts ! 1, rq_headers = headers,
          rq_body = drop h (take (nat total) d)\<rparr>, drop (nat total) d)))" for d
    by (simp add: cut_request_def Let_def total_def)
  show ?thesis using assms unfolding def by (auto split: if_splits)
qed

lemma parse_SomeD:
  assumes "parseHTTPRequest data = Inr (Some (req, rest))"
  obtains total where "4 \<le> total" "total \<le> length data" "rest = drop total data"
proof -
  from assms obtain idx where "index_of (CRLF @ CRLF) data = Some idx"
    by (auto simp: parseHTTPRequest_def split: option.splits)
  with assms have "cut_request (split_n 3 (CHR '' '') (hd (split_str CRLF (take idx data))))
      (foldl header_line Map.empty (tl (split_str CRLF (take idx data)))) (idx + 4) data = Inr (Some (req, rest))"
    by (simp add: parseHTTPRequest_def Let_def split: if_splits)
  then obtain total where "idx + 4 \<le> total" "total \<le> length data" "rest = drop total data"
    by (rule cut_request_SomeD)
  then show thesis by (intro that [of total]) simp_all
qed

lemma parse_append:
  assumes "parseHTTPRequest data = r" "r \<noteq> Inr None"
  shows "parseHTTPRequest (data @ extra) = (case r of Inl u \<Rightarrow> Inl u
    | Inr None \<Rightarrow> Inr None | Inr (Some (req, rest)) \<Rightarrow> Inr (Some (req, rest @ extra)))"
proof -
  from assms obtain idx where idx: "index_of (CRLF @ CRLF) data = Some idx"
    by (auto simp: parseHTTPRequest_def split: option.splits)
  then have "index_of (CRLF @ CRLF) (data @ extra) = Some idx" "take idx (data @ extra) = take idx data"
    using index_of_append [OF idx] index_of_SomeD [OF idx] by auto
  with assms idx show ?thesis
    using cut_request_append [where data = data and extra = extra and r = r]
    by (auto simp: parseHTTPRequest_def Let_def split: if_splits)
qed

interpretation http_stream: incremental_parser parseHTTPRequest
proof
  fix b m rest extra
  assume p: "parseHTTPRequest b = Inr (Some (m, rest))"
  from p show "\<exists>used. used \<noteq> [] \<and> b = used @ rest"
  proof (rule parse_SomeD)
    fix total
    assume "4 \<le> total" "total \<le> length b" "rest = drop total b"
    then show ?thesis by (intro exI [of _ "take total b"]) auto
  qed
  from parse_append [OF p] show "parseHTTPRequest (b @ extra) = Inr (Some (m, rest @ extra))" by simp
next
  fix b extra
  assume "parseHTTPRequest b = Inl ()"
  from parse_append [OF this] show "parseHTTPRequest (b @ extra) = Inl ()" by simp
qed

subsection \<open>Messages\<close>

text \<open>A start line and headers, each ended by CRLF, an empty line and the rest.\<close>

definition message :: "string list \<Rightarrow> string \<Rightarrow> string" where
  "message lines rest = concat (map (\<lambda>l. l @ CRLF) lines) @ CRLF @ rest"

definition message_lines :: "string list \<Rightarrow> bool" where
  "message_lines lines \<longleftrightarrow> (\<forall>l \<in> set lines. l \<noteq> [] \<and> CR \<notin> set l)"

lemma message_Cons: "message (l # ls) rest = l @ CRLF @ message ls rest"
  by (simp add: message_def)

lemma message_index:
  assumes "message_lines (l # ls)"
  shows "index_of (CRLF @ CRLF) (message (l # ls) rest) = Some (length (concat (map (\<lambda>l. l @ CRLF) (l # ls))) - 2)"
  using assms
proof (induction ls arbitrary: l)
  case Nil
  then show ?case by (simp add: message_def message_lines_def CRLF_def index_of_skip index_of_prefix)
next
  case (Cons h ls)
  then obtain c h' where h: "h = c # h'" "c \<noteq> CR" by (cases h) (auto simp: message_lines_def)
  have "message_lines (h # ls)" "CR \<notin> set l" using Cons.prems by (auto simp: message_lines_def)
  moreover obtain t where t: "message (h # ls) rest = c # t" by (simp add: message_def h)
  ultimately show ?case using Cons.IH [of h] h
    by (subst message_Cons) (auto simp: CRLF_def index_of_skip index_of_Cons)
qed

lemma message_split:
  "message_lines (l # ls) \<Longrightarrow>
   split_str CRLF (take (length (concat (map (\<lambda>l. l @ CRLF) (l # ls))) - 2) (message (l # ls) rest)) = l # ls"
proof (induction ls arbitrary: l)
  case Nil
  then show ?case by (simp add: message_def message_lines_def CRLF_def split_str_last)
next
  case (Cons h ls)
  then have "message_lines (h # ls)" "CR \<notin> set l" by (auto simp: message_lines_def)
  moreover have "length (concat (map (\<lambda>l. l @ CRLF) (l # h # ls))) - 2 =
      length l + 2 + (length (concat (map (\<lambda>l. l @ CRLF) (h # ls))) - 2)" by (simp add: CRLF_def)
  moreover have "take (length l + 2 + n) (l @ CRLF @ m) = l @ CR # [LF] @ take n m" for n m
    by (simp add: CRLF_def)
  ultimately show ?case using Cons.IH [of h]
    by (simp only: message_Cons [of l]) (simp add: CRLF_def split_str_first [of CR _ "[LF]", simplified])
qed

lemma parse_message:
  assumes "message_lines (l # ls)" "2 \<le> length (split_n 3 (CHR '' '') l)"
  shows "parseHTTPRequest (message (l # ls) rest) = cut_request (split_n 3 (CHR '' '') l)
    (foldl header_line Map.empty ls) (length (message (l # ls) [])) (message (l # ls) rest)"
proof -
  have "length (message (l # ls) []) = length (concat (map (\<lambda>l. l @ CRLF) (l # ls))) - 2 + 4"
    by (simp add: message_def CRLF_def)
  then show ?thesis
    unfolding parseHTTPRequest_def message_index [OF assms(1)] option.case Let_def message_split [OF assms(1)]
    using assms(2) by simp
qed

lemma cut_request_exact:
  assumes "mget headers ''content-length'' = itoa (int (length body))"
    "length H + length body < 9223372036854775808"
  shows "cut_request parts headers (length H) (H @ body @ rest) =
    Inr (Some (\<lparr>rq_method = parts ! 0, rq_path = parts ! 1, rq_headers = headers, rq_body = body\<rparr>, rest))"
proof -
  have "i64 (int (length H) + int (length body)) = int (length H) + int (length body)"
    using assms(2) by (subst i64_id) (auto simp: int64_range_def min_int64_def max_int64_def)
  moreover have "atoi_value (itoa (int (length body))) = int (length body)"
    using assms(2) by (intro atoi_value_itoa) (auto simp: int64_range_def min_int64_def max_int64_def)
  ultimately show ?thesis
    using assms(1) by (simp add: cut_request_def Let_def nat_int_add)
qed

lemma parse_message_body:
  assumes "message_lines (l # ls)" "2 \<le> length (split_n 3 (CHR '' '') l)"
    "mget (foldl header_line Map.empty ls) ''content-length'' = itoa (int (length body))"
    "length (message (l # ls) body) < 9223372036854775808"
  shows "parseHTTPRequest (message (l # ls) (body @ rest)) =
    Inr (Some (\<lparr>rq_method = split_n 3 (CHR '' '') l ! 0, rq_path = split_n 3 (CHR '' '') l ! 1,
      rq_headers = foldl header_line Map.empty ls, rq_body = body\<rparr>, rest))"
proof -
  have m: "message (l # ls) x = message (l # ls) [] @ x" for x by (simp add: message_def)
  have "length (message (l # ls) []) + length body < 9223372036854775808" using assms(4) m [of body] by simp
  from cut_request_exact [OF assms(3) this] show ?thesis
    by (subst parse_message [OF assms(1,2)], subst m) (rule trans, simp_all)
qed

subsection \<open>Reading what was written\<close>

definition content_length :: "string \<Rightarrow> string" where
  "content_length body = ''Content-Length: '' @ itoa (int (length body))"

lemma trim_itoa: "trim_space (CHR '' '' # itoa n) = itoa n"
proof -
  have c: "is_digit c \<or> c = CHR ''-''" if "c \<in> set (itoa n)" for c using itoa_chars [OF that] .
  have "ascii (itoa n)" "\<And>c. c \<in> set (itoa n) \<Longrightarrow> \<not> sp c"
    by (auto dest!: c simp: ascii_def is_digit_def is_space_def ord_def)
  then have "trim_space ([CHR '' ''] @ itoa n @ []) = itoa n"
    by (intro trim_space_surround) (auto simp: ascii_def is_space_def ord_def)
  then show ?thesis by simp
qed

lemma content_length_line: "header_line m (content_length body) = m(''content-length'' \<mapsto> itoa (int (length body)))"
proof -
  have "cut_char (CHR '':'') (content_length body) = Some (''Content-Length'', CHR '' '' # itoa (int (length body)))"
    by (simp add: content_length_def)
  moreover have "to_lower (trim_space ''Content-Length'') = ''content-length''" by code_simp
  ultimately show ?thesis by (simp add: header_line_def trim_itoa)
qed

lemma content_length_ok: "content_length body \<noteq> []" "CR \<notin> set (content_length body)"
  by (auto simp: content_length_def is_digit_def ord_def dest!: itoa_chars)

text \<open>A request with a body, as a client writes it.\<close>

definition client_request :: "string \<Rightarrow> string \<Rightarrow> string list \<Rightarrow> string \<Rightarrow> string" where
  "client_request method target headers body =
     message ((method @ CHR '' '' # target @ '' HTTP/1.1'') # headers @ [content_length body]) body"

text \<open>Read as written: method, target, header fields, a body of the announced length, and what follows.\<close>

lemma client_request_parses:
  assumes "CR \<notin> set method" "CHR '' '' \<notin> set method" "CR \<notin> set target" "CHR '' '' \<notin> set target"
    "\<forall>h \<in> set headers. h \<noteq> [] \<and> CR \<notin> set h"
    "length (client_request method target headers body) < 9223372036854775808"
  shows "parseHTTPRequest (client_request method target headers body @ rest) =
    Inr (Some (\<lparr>rq_method = method, rq_path = target,
      rq_headers = foldl header_line Map.empty (headers @ [content_length body]), rq_body = body\<rparr>, rest))"
proof -
  let ?l = "method @ CHR '' '' # target @ '' HTTP/1.1''" and ?ls = "headers @ [content_length body]"
  have l: "split_n 3 (CHR '' '') ?l = [method, target, ''HTTP/1.1'']"
    using assms(2,4) by (simp add: eval_nat_numeral cut_char_append)
  have ok: "message_lines (?l # ?ls)"
    using assms(1,3,5) content_length_ok by (auto simp: message_lines_def)
  have "mget (foldl header_line Map.empty ?ls) ''content-length'' = itoa (int (length body))"
    by (simp add: content_length_line mget_def)
  with parse_message_body [OF ok, of body rest] l assms(6) show ?thesis
    by (auto simp: client_request_def message_def)
qed

text \<open>
  A response is framed correctly: read with the rules for requests, it shows the status, the content type
  and a body of the announced length, and the bytes after it are left.
\<close>

lemma response_parses:
  assumes "0 \<le> code" "ct \<in> {''text/xml'', ''text/plain'', ''application/octet-stream''}"
    "length (buildHTTPResponse code body ct) < 9223372036854775808"
  shows "parseHTTPRequest (buildHTTPResponse code body ct @ rest) =
    Inr (Some (\<lparr>rq_method = ''HTTP/1.1'', rq_path = itoa code, rq_headers = [''content-type'' \<mapsto> ct,
      ''connection'' \<mapsto> ''keep-alive'', ''content-length'' \<mapsto> itoa (int (length body))], rq_body = body\<rparr>, rest))"
proof -
  let ?l = "''HTTP/1.1 '' @ itoa code @ CHR '' '' # status_reason code"
  let ?ls = "[''Content-Type: '' @ ct, ''Connection: keep-alive'', content_length body]"
  have digits: "c \<noteq> CR \<and> c \<noteq> CHR '' ''" if "c \<in> set (itoa code)" for c
    using itoa_chars [OF that] by (auto simp: is_digit_def ord_def)
  have l: "split_n 3 (CHR '' '') ?l = [''HTTP/1.1'', itoa code, status_reason code]"
  proof -
    have "cut_char (CHR '' '') (itoa code @ CHR '' '' # status_reason code) = Some (itoa code, status_reason code)"
      using digits by (intro cut_char_append) auto
    then show ?thesis by (simp add: eval_nat_numeral)
  qed
  have ok: "message_lines (?l # ?ls)"
    using digits content_length_ok assms(2) by (auto simp: message_lines_def status_reason_def)
  have ct: "header_line m (''Content-Type: '' @ ct) = m(''content-type'' \<mapsto> ct)"
    "header_line m ''Connection: keep-alive'' = m(''connection'' \<mapsto> ''keep-alive'')" for m
  proof -
    have low: "to_lower (trim_space ''Content-Type'') = ''content-type''" "to_lower (trim_space ''Connection'') = ''connection''"
      "trim_space '' text/xml'' = ''text/xml''" "trim_space '' text/plain'' = ''text/plain''"
      "trim_space '' application/octet-stream'' = ''application/octet-stream''"
      "trim_space '' keep-alive'' = ''keep-alive''" by code_simp+
    show "header_line m (''Content-Type: '' @ ct) = m(''content-type'' \<mapsto> ct)"
      "header_line m ''Connection: keep-alive'' = m(''connection'' \<mapsto> ''keep-alive'')"
      using assms(2) by (auto simp: header_line_def low)
  qed
  have b: "buildHTTPResponse code body ct @ r = message (?l # ?ls) (body @ r)" for r
    by (simp add: buildHTTPResponse_def message_def content_length_def)
  have "mget (foldl header_line Map.empty ?ls) ''content-length'' = itoa (int (length body))"
    by (simp add: content_length_line ct mget_def)
  moreover have "2 \<le> length (split_n 3 (CHR '' '') ?l)" by (simp only: l) simp
  moreover have "length (message (?l # ?ls) body) < 9223372036854775808"
    using assms(3) b [of "[]"] by simp
  ultimately have "parseHTTPRequest (buildHTTPResponse code body ct @ rest) = Inr (Some
      (\<lparr>rq_method = ''HTTP/1.1'', rq_path = itoa code, rq_headers = foldl header_line Map.empty ?ls, rq_body = body\<rparr>, rest))"
    using parse_message_body [OF ok, of body rest] by (simp only: b l) simp
  then show ?thesis by (simp add: ct [simplified] content_length_line)
qed

end
