(* ===== verification/Mlog.thy ===== *)
theory Mlog
  imports Go_Fs Go_Time Sql "HOL-Library.Monad_Syntax"
begin

text \<open>
  \<open>server/mlog/log.go\<close>: a log file per start of the server, named after the time, and the removal of
  old ones. A logger is a value (its open file and its path) beside the disk; the lines that also go to
  the console are not modelled.
\<close>

subsection \<open>Times\<close>

record wall_time =
  wt_year :: nat
  wt_month :: nat
  wt_day :: nat
  wt_hour :: nat
  wt_min :: nat
  wt_sec :: nat
  wt_nsec :: nat

definition two :: "nat \<Rightarrow> string" where
  "two n = pad_left 2 (digits10 n)"

text \<open>\<open>Format(logTimestampLayout)\<close> and \<open>Format("15:04:05.000")\<close>.\<close>

definition stamp :: "wall_time \<Rightarrow> string" where
  "stamp t = pad_left 4 (digits10 (wt_year t)) @ two (wt_month t) @ two (wt_day t) @ ''_'' @
     two (wt_hour t) @ two (wt_min t) @ two (wt_sec t)"

definition clock_text :: "wall_time \<Rightarrow> string" where
  "clock_text t = two (wt_hour t) @ '':'' @ two (wt_min t) @ '':'' @ two (wt_sec t) @ ''.'' @
     pad_left 3 (digits10 (wt_nsec t div 1000000))"

text \<open>\<open>time.Parse(logTimestampLayout, value)\<close>, which also takes a fraction of a second.\<close>

fun getnum :: "bool \<Rightarrow> string \<Rightarrow> (nat \<times> string) option" where
  "getnum fixed [] = None"
| "getnum fixed (c # s) =
     (if \<not> is_digit c then None
      else case s of
          d # t \<Rightarrow> if is_digit d then Some (10 * digit_val c + digit_val d, t)
                   else if fixed then None else Some (digit_val c, s)
        | [] \<Rightarrow> if fixed then None else Some (digit_val c, s))"

definition in_range :: "nat \<Rightarrow> nat \<Rightarrow> (nat \<times> string) option \<Rightarrow> (nat \<times> string) option" where
  "in_range lo hi r = Option.bind r (\<lambda>(n, s). if lo \<le> n \<and> n \<le> hi then Some (n, s) else None)"

definition number :: "string \<Rightarrow> nat" where
  "number ds = foldl (\<lambda>n c. 10 * n + digit_val c) 0 ds"

definition get_year :: "string \<Rightarrow> (nat \<times> string) option" where
  "get_year s = (if 4 \<le> length s \<and> list_all is_digit (take 4 s) then Some (number (take 4 s), drop 4 s) else None)"

definition get_fraction :: "string \<Rightarrow> nat \<times> string" where
  "get_fraction s = (case s of
      c # d # t \<Rightarrow>
        if (c = CHR ''.'' \<or> c = CHR '','') \<and> is_digit d then
          (let ds = take 9 (takeWhile is_digit (d # t)) in (number ds * 10 ^ (9 - length ds), dropWhile is_digit (d # t)))
        else (0, s)
    | _ \<Rightarrow> (0, s))"

definition leap :: "nat \<Rightarrow> bool" where
  "leap y \<longleftrightarrow> y mod 4 = 0 \<and> (y mod 100 \<noteq> 0 \<or> y mod 400 = 0)"

definition days_in :: "nat \<Rightarrow> nat \<Rightarrow> nat" where
  "days_in y m = (if m = 2 then (if leap y then 29 else 28) else if m \<in> {4, 6, 9, 11} then 30 else 31)"

text \<open>The result orders as the instants do: year, month, day, hour, minute, second, nanosecond.\<close>

definition parse_stamp :: "string \<Rightarrow> nat list option" where
  "parse_stamp s = do {
     (y, s) \<leftarrow> get_year s;
     (m, s) \<leftarrow> in_range 1 12 (getnum True s);
     (d, s) \<leftarrow> getnum True s;
     s \<leftarrow> (if prefix ''_'' s then Some (tl s) else None);
     (h, s) \<leftarrow> in_range 0 23 (getnum False s);
     (mi, s) \<leftarrow> in_range 0 59 (getnum True s);
     (sec, s) \<leftarrow> in_range 0 59 (getnum True s);
     (let (ns, s) = get_fraction s in
      if s = [] \<and> 1 \<le> d \<and> d \<le> days_in y m then Some [y, m, d, h, mi, sec, ns] else None)
   }"

subsection \<open>Old logs\<close>

record generatedLog =
  gl_path :: string
  gl_timestamp :: "nat list"

definition maxLogFiles :: nat where "maxLogFiles = 10"

definition trim_prefix :: "string \<Rightarrow> string \<Rightarrow> string" where
  "trim_prefix p s = (if prefix p s then drop (length p) s else s)"

definition trim_suffix :: "string \<Rightarrow> string \<Rightarrow> string" where
  "trim_suffix x s = (if suffix x s then take (length s - length x) s else s)"

definition log_stamp :: "string \<Rightarrow> string \<Rightarrow> string \<Rightarrow> nat list option" where
  "log_stamp pre ext name =
     (if prefix pre name \<and> suffix ext name then parse_stamp (trim_suffix ext (trim_prefix pre name)) else None)"

definition generated_log :: "string \<Rightarrow> string \<Rightarrow> string \<Rightarrow> string \<times> fnode \<Rightarrow> generatedLog list" where
  "generated_log dir pre ext f =
     (if snd f = Folder then []
      else case log_stamp pre ext (fst f) of
          None \<Rightarrow> []
        | Some t \<Rightarrow> [\<lparr>gl_path = Join [dir, fst f], gl_timestamp = t\<rparr>])"

definition newest_first :: "(nat \<Rightarrow> nat list) \<Rightarrow> generatedLog list \<Rightarrow> generatedLog list" where
  "newest_first ties logs = rev (sort_key gl_timestamp (permute ties logs))"

definition remove_old :: "string \<Rightarrow> generatedLog \<Rightarrow> unit \<Rightarrow> (disk, unit) go" where
  "remove_old current old _ =
     (if Clean (gl_path old) = current then gret () else gtry (RemoveFile (gl_path old)) (\<lambda>_. gret ()) gret)"

text \<open>\<open>sort.Slice\<close> is not stable: \<open>ties\<close> orders the logs of one timestamp.\<close>

definition cleanupOldLogs :: "(nat \<Rightarrow> nat list) \<Rightarrow> string \<Rightarrow> string \<Rightarrow> string \<Rightarrow> int \<Rightarrow> (disk, unit) go" where
  "cleanupOldLogs ties base ext current keep =
     (if keep < 1 then gret ()
      else gtry (ReadDir (Dir base)) (\<lambda>_. gret ()) (\<lambda>entries.
        let logs = newest_first ties (concat (map (generated_log (Dir base) (Base base @ ''_'') ext) entries)) in
        if int (length logs) \<le> keep then gret ()
        else gfold (remove_old (Clean current)) (drop (nat keep) logs) ()))"

subsection \<open>The logger\<close>

record Logger =
  lg_file :: "string option"
  lg_path :: string

definition Write :: "wall_time \<Rightarrow> Logger \<Rightarrow> string \<Rightarrow> string \<Rightarrow> (disk, unit) go" where
  "Write now l tag msg =
     (let line = ''['' @ clock_text now @ ''] ['' @ tag @ ''] '' @ msg in
      case lg_file l of
        None \<Rightarrow> gret ()
      | Some f \<Rightarrow> gtry (AppendOpen f (line @ [LF])) (\<lambda>_. gret ()) gret)"

definition log_base :: "string \<Rightarrow> string" where
  "log_base path = take (length path - length (Ext path)) path"

definition log_ext :: "string \<Rightarrow> string" where
  "log_ext path = (if Ext path = [] then ''.log'' else Ext path)"

definition log_name :: "string \<Rightarrow> wall_time \<Rightarrow> string" where
  "log_name path now = log_base path @ ''_'' @ stamp now @ log_ext path"

text \<open>The current time is read twice: for the name of the file and for the first line.\<close>

definition New :: "(nat \<Rightarrow> nat list) \<Rightarrow> wall_time \<Rightarrow> wall_time \<Rightarrow> string \<Rightarrow> (disk, Logger) go" where
  "New ties now1 now2 path =
     (let dir = Dir path in
      gbind (if dir \<noteq> ''.'' then MkdirAll dir else gret ()) (\<lambda>_.
      let actual = log_name path now1 in
      gbind (OpenAppend actual) (\<lambda>_.
      let l = \<lparr>lg_file = Some actual, lg_path = actual\<rparr> in
      gbind (Write now2 l ''INIT'' (''Log file: '' @ actual)) (\<lambda>_.
      gbind (cleanupOldLogs ties (log_base path) (log_ext path) actual (int maxLogFiles)) (\<lambda>_.
      gret l)))))"

definition Path :: "Logger \<Rightarrow> string" where
  "Path l = lg_path l"

text \<open>Closing may fail; the logger counts as closed all the same.\<close>

definition Close :: "Logger \<Rightarrow> (disk, unit) go \<times> Logger" where
  "Close l = (case lg_file l of
      None \<Rightarrow> (gret (), l)
    | Some f \<Rightarrow> (io_step (\<lambda>out d. if out = IoOk then (Ret (), d) else (Fail ErrIO, d)), l\<lparr>lg_file := None\<rparr>))"

subsection \<open>Names of logs are recognised\<close>

lemma digits10_steps:
  "n < 10 \<Longrightarrow> digits10 n = [digit_char n]"
  "\<not> n < 10 \<Longrightarrow> digits10 n = digits10 (n div 10) @ [digit_char (n mod 10)]"
  by (subst digits10.simps; simp)+

lemma two_digits: "n < 100 \<Longrightarrow> two n = [digit_char (n div 10), digit_char (n mod 10)]"
  by (cases "n < 10") (simp_all add: two_def pad_left_def digits10_steps)

lemma four_digits:
  assumes "n < 10000"
  shows "pad_left 4 (digits10 n) =
    [digit_char (n div 1000), digit_char (n div 100 mod 10), digit_char (n div 10 mod 10), digit_char (n mod 10)]"
proof -
  have zeros: "replicate 3 (CHR ''0'') = ''000''" "replicate 2 (CHR ''0'') = ''00''" by (simp_all add: numeral_eq_Suc)
  consider "n < 10" | "10 \<le> n" "n < 100" | "100 \<le> n" "n < 1000" | "1000 \<le> n" by linarith
  then show ?thesis
  proof cases
    case 4
    then have "\<not> n div 10 < 10" "\<not> n div 10 div 10 < 10" "n div 10 div 10 div 10 < 10" "\<not> n < 10" using assms by auto
    then show ?thesis by (simp add: pad_left_def digits10_steps div_mult2_eq [symmetric])
  next
    case 3
    then have "\<not> n div 10 < 10" "n div 10 div 10 < 10" "\<not> n < 10" by auto
    then show ?thesis using 3 by (simp add: pad_left_def digits10_steps div_mult2_eq [symmetric])
  qed (auto simp: pad_left_def digits10_steps zeros)
qed

lemma getnum_two: "n < 100 \<Longrightarrow> getnum b (two n @ s) = Some (n, s)"
  by (simp add: two_digits)

lemma get_year_four:
  assumes "n < 10000"
  shows "get_year (pad_left 4 (digits10 n) @ s) = Some (n, s)"
proof -
  have d: "n div 1000 < 10" using assms by simp
  have n: "10 * (10 * (10 * (n div 1000) + n div 100 mod 10) + n div 10 mod 10) + n mod 10 = n"
  proof -
    have "n div 100 = 10 * (n div 100 div 10) + n div 100 mod 10" "n div 10 = 10 * (n div 10 div 10) + n div 10 mod 10"
      "n = 10 * (n div 10) + n mod 10" by simp_all
    then show ?thesis by (simp add: div_mult2_eq [symmetric])
  qed
  with d show ?thesis unfolding four_digits [OF assms] by (simp add: get_year_def number_def)
qed

definition valid_time :: "wall_time \<Rightarrow> bool" where
  "valid_time t \<longleftrightarrow> wt_year t < 10000 \<and> 1 \<le> wt_month t \<and> wt_month t \<le> 12 \<and> 1 \<le> wt_day t
     \<and> wt_day t \<le> days_in (wt_year t) (wt_month t) \<and> wt_hour t \<le> 23 \<and> wt_min t \<le> 59 \<and> wt_sec t \<le> 59"

definition to_the_second :: "wall_time \<Rightarrow> nat list" where
  "to_the_second t = [wt_year t, wt_month t, wt_day t, wt_hour t, wt_min t, wt_sec t, 0]"

lemma parse_stamp_stamp:
  assumes "valid_time t"
  shows "parse_stamp (stamp t) = Some (to_the_second t)"
proof -
  have "days_in (wt_year t) (wt_month t) \<le> 31" by (simp add: days_in_def)
  with assms have b: "wt_year t < 10000" "wt_month t < 100" "wt_day t < 100" "wt_hour t < 100" "wt_min t < 100" "wt_sec t < 100"
    by (auto simp: valid_time_def)
  have last: "getnum True (two (wt_sec t)) = Some (wt_sec t, [])" using getnum_two [OF b(6), of True "[]"] by simp
  show ?thesis
    using assms
    unfolding parse_stamp_def stamp_def
    by (simp add: get_year_four [OF b(1)] getnum_two b last in_range_def valid_time_def to_the_second_def get_fraction_def)
qed

text \<open>
  Every log that the logger creates is one that its later starts recognise: the name made from the
  base, a time and the extension is read back as just this time (to the second), so no log escapes the
  limit on their number, and logs are ordered by the time they were started.
\<close>

theorem log_stamp_stamp:
  assumes "valid_time t"
  shows "log_stamp pre ext (pre @ stamp t @ ext) = Some (to_the_second t)"
  using parse_stamp_stamp [OF assms] by (simp add: log_stamp_def trim_prefix_def trim_suffix_def suffix_def)

theorem log_stamp_stamp_witness:
  "log_stamp ''server_'' ''.log'' (''server_'' @ stamp
     \<lparr>wt_year = 2024, wt_month = 2, wt_day = 29, wt_hour = 23, wt_min = 59, wt_sec = 59, wt_nsec = 5\<rparr> @ ''.log'')
   = Some [2024, 2, 29, 23, 59, 59, 0]"
  by (subst log_stamp_stamp) (simp_all add: valid_time_def days_in_def leap_def to_the_second_def)

subsection \<open>What the logger may change\<close>

definition old_log :: "string \<Rightarrow> string \<Rightarrow> string \<Rightarrow> bool" where
  "old_log base ext p \<longleftrightarrow>
     (\<exists>f. plain_name f \<and> log_stamp (Base base @ ''_'') ext f \<noteq> None \<and> p = in_dir (Dir base) f)"

lemma generated_log_old:
  assumes "l \<in> set (generated_log (Dir base) (Base base @ ''_'') ext f)" "plain_name (fst f)"
  shows "old_log base ext (gl_path l)" "Clean (gl_path l) = gl_path l"
proof -
  from assms(1) obtain t where "log_stamp (Base base @ ''_'') ext (fst f) = Some t" "gl_path l = in_dir (Dir base) (fst f)"
    by (cases "log_stamp (Base base @ ''_'') ext (fst f)")
      (auto simp: generated_log_def Join_in_dir [OF assms(2)] split: if_splits)
  with assms(2) show "old_log base ext (gl_path l)" "Clean (gl_path l) = gl_path l"
    unfolding old_log_def by (blast, simp add: Clean_in_dir)
qed

lemma set_newest_first: "row_order_ok ties \<Longrightarrow> set (newest_first ties logs) = set logs"
  by (simp add: newest_first_def set_permute)

lemma triple_gtry_keeps:
  assumes "keeps I m" "\<And>s x s'. m s = (Ret x, s') \<Longrightarrow> Q x" "\<And>e. keeps I (h e)" "\<And>x. Q x \<Longrightarrow> keeps I (f x)"
  shows "keeps I (gtry m h f)"
  using assms by (fastforce simp: keeps_def gtry_def split: prod.splits outcome.splits)

lemma ReadDir_plain: "ReadDir g d = (Ret fs, d') \<Longrightarrow> \<forall>f \<in> set fs. plain_name (fst f)"
  by (auto simp: ReadDir_def io_step_def dir_entries_iff split: list.splits if_splits)

lemma keeps_remove_all:
  "\<forall>l \<in> set ls. F (Clean (gl_path l)) \<Longrightarrow> keeps (changes_only F D d0) (gfold (remove_old c) ls ())"
  by (induction ls) (auto intro!: keeps_gret keeps_gbind keeps_gtry keeps_RemoveFile simp: remove_old_def)

lemma keeps_cleanup:
  assumes "row_order_ok ties" "\<And>p. old_log base ext p \<Longrightarrow> F p"
  shows "keeps (changes_only F D d0) (cleanupOldLogs ties base ext current keep)"
proof -
  have "keeps (changes_only F D d0) (gfold (remove_old c)
      (drop n (newest_first ties (concat (map (generated_log (Dir base) (Base base @ ''_'') ext) fs)))) ())"
    if "\<forall>f \<in> set fs. plain_name (fst f)" for fs c n
    using that assms(2) generated_log_old
    by (intro keeps_remove_all) (fastforce dest!: in_set_dropD simp: set_newest_first [OF assms(1)])
  then show ?thesis
    unfolding cleanupOldLogs_def Let_def
    by (intro keeps_if keeps_gret triple_gtry_keeps [where Q = "\<lambda>fs. \<forall>f \<in> set fs. plain_name (fst f)"] keeps_reads)
      (auto intro: keeps_gret dest: ReadDir_plain)
qed

definition log_parent :: "string \<Rightarrow> string \<Rightarrow> bool" where
  "log_parent path p \<longleftrightarrow> p \<in> Clean ` set (ancestors (Dir path))"

text \<open>
  C33. Starting the logger touches nothing but logs: whatever fails on the way, the only files that
  change are the new log itself and files next to it that carry the logger's own prefix, a valid time
  and its extension; apart from that it can only create the missing directories on the way to the log.
\<close>

theorem New_confined:
  assumes "row_order_ok ties"
  shows "changes_only (\<lambda>p. p = Clean (log_name path now1) \<or> old_log (log_base path) (log_ext path) p) (log_parent path)
    d (snd (New ties now1 now2 path d))"
proof -
  let ?C = "changes_only (\<lambda>p. p = Clean (log_name path now1) \<or> old_log (log_base path) (log_ext path) p) (log_parent path) d"
  have "keeps ?C (MkdirAll (Dir path))" by (intro keeps_MkdirAll) (simp add: log_parent_def)
  then have "keeps ?C (New ties now1 now2 path)"
    unfolding New_def Let_def Write_def
    by (intro keeps_gbind keeps_if keeps_gret keeps_append keeps_cleanup assms) (auto intro!: keeps_gtry keeps_append keeps_gret)
  then show ?thesis by (simp add: keeps_def)
qed

definition some_time :: wall_time where
  "some_time = \<lparr>wt_year = 2024, wt_month = 2, wt_day = 29, wt_hour = 23, wt_min = 59, wt_sec = 59, wt_nsec = 5\<rparr>"

definition failing_disk :: disk where
  "failing_disk = \<lparr>nodes = [(''logs/server_20240101_000000.log'', Plain ''x'' 0)], io = [IoOk, IoOk, IoPartial 3, IoFail], unix_now = 4\<rparr>"

theorem New_confined_witness:
  "changes_only (\<lambda>p. p = Clean (log_name ''logs/server.log'' some_time) \<or> old_log (log_base ''logs/server.log'') (log_ext ''logs/server.log'') p)
    (log_parent ''logs/server.log'') failing_disk (snd (New (\<lambda>n. [0..<n]) some_time some_time ''logs/server.log'' failing_disk))"
  by (rule New_confined) (rule row_order_ok_upt)

subsection \<open>The newest logs stay\<close>

definition logs_in :: "disk \<Rightarrow> string \<Rightarrow> string \<Rightarrow> generatedLog list" where
  "logs_in d base ext = concat (map (generated_log (Dir base) (Base base @ ''_'') ext) (dir_entries d (Dir base)))"

lemma dir_entries_distinct:
  assumes "distinct (map fst (nodes d))"
  shows "distinct (map fst (dir_entries d g))"
proof -
  let ?L = "\<lambda>xs. concat (map (\<lambda>(k, n). if plain_name (Base k) \<and> Join [g, Base k] = k then [(Base k, n)] else []) xs)"
  have key: "in_dir g f \<in> fst ` set xs" if "f \<in> fst ` set (?L xs)" for f and xs :: "(string \<times> fnode) list"
    using that by (force simp: Join_in_dir split: if_splits)
  have "distinct (map fst (?L xs))" if "distinct (map fst xs)" for xs :: "(string \<times> fnode) list"
    using that
  proof (induction xs)
    case (Cons x xs)
    obtain k n where x: "x = (k, n)" by (cases x)
    have "Base k \<notin> fst ` set (?L xs)" if "plain_name (Base k)" "Join [g, Base k] = k"
      using key [of "Base k" xs] Cons.prems that by (auto simp: x Join_in_dir)
    with Cons show ?case by (auto simp: x)
  qed simp
  with assms have "distinct (map fst (?L (nodes d)))" by blast
  then show ?thesis by (simp only: dir_entries_def distinct_map set_sort distinct_sort)
qed

lemma logs_in_distinct:
  assumes "distinct (map fst (nodes d))"
  shows "distinct (map gl_path (logs_in d base ext))"
proof -
  let ?gen = "generated_log (Dir base) (Base base @ ''_'') ext"
  have "distinct (map gl_path (concat (map ?gen fs)))" if "distinct (map fst fs)" "\<forall>f \<in> set fs. plain_name (fst f)" for fs
    using that
  proof (induction fs)
    case (Cons f fs)
    have "gl_path l = Join [Dir base, fst f']" if "l \<in> set (?gen f')" for l f'
      using that by (auto simp: generated_log_def split: if_splits option.splits)
    moreover have "Join [Dir base, fst f'] \<noteq> Join [Dir base, fst f]" if "f' \<in> set fs" for f'
    proof -
      have "plain_name (fst f')" "plain_name (fst f)" "fst f' \<noteq> fst f" using Cons.prems that
        by (simp, simp, metis distinct.simps(2) list.simps(9) image_eqI list.set_map)
      then show ?thesis by (simp add: Join_in_dir in_dir_inj)
    qed
    ultimately have "gl_path x \<noteq> gl_path y" if "x \<in> set (?gen f)" "y \<in> set (?gen f')" "f' \<in> set fs" for x y f'
      using that by metis
    then have "gl_path ` set (?gen f) \<inter> gl_path ` set (concat (map ?gen fs)) = {}" by auto
    moreover have "distinct (map gl_path (?gen f))" by (simp add: generated_log_def split: option.split)
    ultimately show ?case using Cons by simp
  qed simp
  moreover have "\<forall>f \<in> set (dir_entries d (Dir base)). plain_name (fst f)" by (auto simp: dir_entries_iff)
  ultimately show ?thesis using dir_entries_distinct [OF assms] by (simp add: logs_in_def)
qed

lemma logs_in_plain:
  assumes "distinct (map fst (nodes d))" "l \<in> set (logs_in d base ext)"
  shows "\<exists>c t. node_at d (gl_path l) = Some (Plain c t)" "Clean (gl_path l) = gl_path l"
proof -
  from assms(2) obtain f n where f: "(f, n) \<in> set (dir_entries d (Dir base))" "l \<in> set (generated_log (Dir base) (Base base @ ''_'') ext (f, n))"
    by (auto simp: logs_in_def)
  then have plain: "plain_name f" and node: "(in_dir (Dir base) f, n) \<in> set (nodes d)" by (simp_all add: dir_entries_iff)
  from f(2) plain have l: "gl_path l = in_dir (Dir base) f" "n \<noteq> Folder"
    by (auto simp: generated_log_def Join_in_dir split: if_splits option.splits)
  show clean: "Clean (gl_path l) = gl_path l" using plain by (simp add: l Clean_in_dir)
  from map_of_is_SomeI [OF assms(1) node] clean l show "\<exists>c t. node_at d (gl_path l) = Some (Plain c t)"
    by (cases n) (auto simp: node_at_def)
qed

lemma remove_all_run:
  assumes "io d = []" "distinct (map gl_path ls)"
    "\<forall>l \<in> set ls. Clean (gl_path l) = gl_path l \<and> (\<exists>c t. node_at d (gl_path l) = Some (Plain c t))"
  shows "\<exists>d'. gfold (remove_old current) ls () d = (Ret (), d') \<and>
    (\<forall>p. node_at d' p = (if \<exists>l \<in> set ls. gl_path l = Clean p \<and> Clean p \<noteq> current then None else node_at d p))"
  using assms
proof (induction ls arbitrary: d)
  case (Cons l ls)
  from Cons.prems(3) have l: "Clean (gl_path l) = gl_path l" by simp
  define d1 where "d1 = (if gl_path l = current then d else d\<lparr>nodes := AList.delete (gl_path l) (nodes d)\<rparr>)"
  have run: "remove_old current l () d = (Ret (), d1)"
    using Cons.prems by (auto simp: remove_old_def l gret_def gtry_def RemoveFile_def d1_def)
  have n1: "node_at d1 p = (if gl_path l = Clean p \<and> Clean p \<noteq> current then None else node_at d p)" for p
    by (auto simp: d1_def node_at_def delete_conv')
  have "\<exists>d'. gfold (remove_old current) ls () d1 = (Ret (), d') \<and>
    (\<forall>p. node_at d' p = (if \<exists>l \<in> set ls. gl_path l = Clean p \<and> Clean p \<noteq> current then None else node_at d1 p))"
    using Cons.prems by (intro Cons.IH) (auto simp: d1_def n1 [unfolded d1_def])
  then show ?case by (auto simp: gbind_def run n1)
qed (simp add: gret_def)

lemma newest_first_facts:
  assumes "row_order_ok ties" "distinct logs"
  shows "distinct (newest_first ties logs)" "length (newest_first ties logs) = length logs"
    "\<forall>l \<in> set (take k (newest_first ties logs)). \<forall>m \<in> set (drop k (newest_first ties logs)). gl_timestamp m \<le> gl_timestamp l"
proof -
  let ?ys = "sort_key gl_timestamp (permute ties logs)"
  show "distinct (newest_first ties logs)" "length (newest_first ties logs) = length logs"
    using distinct_map_permute [of ties id logs] assms by (simp_all add: newest_first_def)
  have "sorted (map gl_timestamp (take (length ?ys - k) ?ys @ drop (length ?ys - k) ?ys))" by simp
  then show "\<forall>l \<in> set (take k (newest_first ties logs)). \<forall>m \<in> set (drop k (newest_first ties logs)). gl_timestamp m \<le> gl_timestamp l"
    unfolding map_append sorted_append by (auto simp: newest_first_def take_rev drop_rev)
qed

text \<open>
  C32. What the clean-up leaves behind. When the disk works, exactly the old logs outside some set of the
  \<open>keep\<close> newest ones are removed (all of them are kept when there are no more than \<open>keep\<close>): no log that
  goes is newer than one that stays for its age, the current log stays in any case, and every other
  file is as it was.
\<close>

theorem cleanup_keeps_newest:
  assumes "io d = []" "is_folder d (Dir base)" "distinct (map fst (nodes d))" "row_order_ok ties" "1 \<le> keep"
  shows "\<exists>newest d'. cleanupOldLogs ties base ext current keep d = (Ret (), d')
    \<and> newest \<subseteq> set (logs_in d base ext) \<and> int (card newest) = min keep (int (card (set (logs_in d base ext))))
    \<and> (\<forall>l \<in> newest. \<forall>m \<in> set (logs_in d base ext) - newest. gl_timestamp m \<le> gl_timestamp l)
    \<and> (\<forall>p. node_at d' p = (if \<exists>l \<in> set (logs_in d base ext) - newest. gl_path l = Clean p \<and> Clean p \<noteq> Clean current
        then None else node_at d p))"
proof -
  let ?logs = "logs_in d base ext" and ?k = "nat keep"
  let ?xs = "newest_first ties ?logs"
  have dp: "distinct (map gl_path ?logs)" by (rule logs_in_distinct [OF assms(3)])
  then have dl: "distinct ?logs" by (simp add: distinct_map)
  note nf = newest_first_facts [OF assms(4) dl] and set_xs = set_newest_first [OF assms(4), of ?logs]
  have split: "set ?logs - set (take ?k ?xs) = set (drop ?k ?xs)"
  proof -
    have "set ?xs = set (take ?k ?xs) \<union> set (drop ?k ?xs)" by (metis append_take_drop_id set_append)
    with set_xs set_take_disj_set_drop_if_distinct [OF nf(1), of ?k ?k] show ?thesis by blast
  qed
  have inj: "inj_on gl_path (set ?logs)" using dp by (simp add: distinct_map)
  have "distinct (map gl_path (drop ?k ?xs))"
    using nf(1) inj set_xs set_drop_subset [of ?k ?xs] by (auto simp: distinct_map intro: inj_on_subset)
  moreover have "\<forall>l \<in> set (drop ?k ?xs). Clean (gl_path l) = gl_path l \<and> (\<exists>c t. node_at d (gl_path l) = Some (Plain c t))"
    using logs_in_plain [OF assms(3)] set_xs by (auto dest!: in_set_dropD)
  ultimately obtain d' where d': "gfold (remove_old (Clean current)) (drop ?k ?xs) () d = (Ret (), d')"
    "\<forall>p. node_at d' p = (if \<exists>l \<in> set (drop ?k ?xs). gl_path l = Clean p \<and> Clean p \<noteq> Clean current then None else node_at d p)"
    using remove_all_run [OF assms(1)] by blast
  have "cleanupOldLogs ties base ext current keep d = (Ret (), d')"
  proof (cases "int (length ?xs) \<le> keep")
    case True
    then have "drop ?k ?xs = []" by simp
    with d'(1) have "d' = d" by (simp add: gret_def)
    with True assms show ?thesis by (simp add: cleanupOldLogs_def gtry_def ReadDir_def logs_in_def gret_def)
  next
    case False
    with assms d'(1) show ?thesis by (simp add: cleanupOldLogs_def gtry_def ReadDir_def logs_in_def)
  qed
  moreover have "set (take ?k ?xs) \<subseteq> set ?logs" using set_xs by (auto dest: in_set_takeD)
  moreover have "int (card (set (take ?k ?xs))) = min keep (int (card (set ?logs)))"
    using nf(1,2) assms(5) by (simp add: distinct_card dl)
  ultimately show ?thesis using nf(3) [of ?k] d'(2)
    by (intro exI [of _ "set (take ?k ?xs)"] exI [of _ d'] conjI) (simp_all only: split simp_thms)
qed

text \<open>Three logs, the oldest of which is the current one (the clock was set back), and a limit of one.\<close>

definition three_logs :: disk where
  "three_logs = \<lparr>nodes = [(''logs'', Folder), (''logs/server_20240101_000000.log'', Plain ''x'' 0),
     (''logs/server_20240101_000001.log'', Plain ''x'' 0), (''logs/server_20240101_000002.log'', Plain ''x'' 0)], io = [], unix_now = 4\<rparr>"

theorem cleanup_keeps_newest_witness:
  "\<exists>newest d'. cleanupOldLogs (\<lambda>n. [0..<n]) ''logs/server'' ''.log'' ''logs/server_20240101_000000.log'' 1 three_logs = (Ret (), d')
    \<and> int (card newest) = 1
    \<and> (\<forall>p. node_at d' p = (if \<exists>l \<in> set (logs_in three_logs ''logs/server'' ''.log'') - newest.
         gl_path l = Clean p \<and> Clean p \<noteq> Clean ''logs/server_20240101_000000.log'' then None else node_at three_logs p))"
proof -
  have len: "card (set (logs_in three_logs ''logs/server'' ''.log'')) = 3"
  proof -
    have "map gl_path (logs_in three_logs ''logs/server'' ''.log'') = [''logs/server_20240101_000000.log'',
        ''logs/server_20240101_000001.log'', ''logs/server_20240101_000002.log'']" by code_simp
    then have "distinct (map gl_path (logs_in three_logs ''logs/server'' ''.log''))"
      "length (map gl_path (logs_in three_logs ''logs/server'' ''.log'')) = 3" by (simp_all only:) simp_all
    then have "distinct (logs_in three_logs ''logs/server'' ''.log'')" "length (logs_in three_logs ''logs/server'' ''.log'') = 3"
      by (simp_all add: distinct_map)
    then show ?thesis by (simp add: distinct_card)
  qed
  have "io three_logs = []" "is_folder three_logs (Dir ''logs/server'')" "distinct (map fst (nodes three_logs))" by code_simp+
  note keep = cleanup_keeps_newest [OF this row_order_ok_upt order_refl, of "''.log''" "''logs/server_20240101_000000.log''"]
  have "min 1 (int 3) = (1 :: int)" by simp
  from keep [unfolded len this] show ?thesis
    by (elim exE conjE) (intro exI conjI, assumption+)
qed

end
