(* ===== verification/Locker.thy ===== *)
theory Locker
  imports Locker_Meta Locker_Http Store_Listing Mlog Go_Url Go_Quote
begin

unbundle bit_operations_syntax

text \<open>
  \<open>server/locker/server.go\<close>: ghost files by HTTP. A ghost of player \<open>pers\<close> called \<open>name\<close> is the file
  \<open>pers_name\<close> in the ghost directory, with its metadata in \<open>pers_name.json\<close>. Requests are handled one
  at a time, from their first file access to the last. The log is a file on the same disk; every line
  that the server writes to it is a step here.
\<close>

subsection \<open>State\<close>

text \<open>
  What the log lines need: the logger, the time of day, the texts of errors (\<open>err.Error()\<close>), and the
  printable runes of \<open>strconv\<close>.
\<close>

record log_context =
  lc_logger :: Logger
  lc_time :: wall_time
  lc_error_text :: "go_error \<Rightarrow> string"
  lc_printable :: "nat \<Rightarrow> bool"

record locker_state =
  lk_db :: world
  lk_disk :: disk
  lk_log :: log_context

type_synonym 'a locker = "(locker_state, 'a) go"

definition on_world :: "(world, 'a) go \<Rightarrow> 'a locker" where
  "on_world m s = (case m (lk_db s) of (r, w) \<Rightarrow> (r, s\<lparr>lk_db := w\<rparr>))"

definition on_disk :: "(disk, 'a) go \<Rightarrow> 'a locker" where
  "on_disk m s = (case m (lk_disk s) of (r, d) \<Rightarrow> (r, s\<lparr>lk_disk := d\<rparr>))"

text \<open>\<open>s.log.Write("HTTP", msg)\<close>.\<close>

definition log_write :: "(log_context \<Rightarrow> string) \<Rightarrow> unit locker" where
  "log_write msg = gbind (gget lk_log) (\<lambda>c. on_disk (Write (lc_time c) (lc_logger c) ''HTTP'' (msg c)))"

subsection \<open>CRC-32\<close>

definition crc_bit :: "32 word \<Rightarrow> 32 word" where
  "crc_bit c = (if bit c 0 then drop_bit 1 c XOR 3988292384 else drop_bit 1 c)"

definition crc_byte :: "32 word \<Rightarrow> char \<Rightarrow> 32 word" where
  "crc_byte c b = (crc_bit ^^ 8) (c XOR of_nat (ord b))"

definition crc32 :: "string \<Rightarrow> 32 word" where
  "crc32 s = NOT (foldl crc_byte (NOT 0) s)"

definition file_id :: "string \<Rightarrow> int" where
  "file_id s = uint (crc32 s AND 2147483647)"

subsection \<open>Metadata files\<close>

definition loadMeta :: "string \<Rightarrow> (disk, Entry) go" where
  "loadMeta path = gbind (ReadFile (path @ ''.json'')) (\<lambda>data.
     case unmarshal_entry data of None \<Rightarrow> gfail ErrIO | Some e \<Rightarrow> gret e)"

definition saveMeta :: "string \<Rightarrow> Entry \<Rightarrow> (disk, unit) go" where
  "saveMeta path entry = WriteFile (path @ ''.json'') (marshal_entry entry)"

subsection \<open>Listings\<close>

definition lockerListMaxEntries :: nat where "lockerListMaxEntries = 150"

definition with_meta :: "Entry \<Rightarrow> Entry \<Rightarrow> Entry" where
  "with_meta meta entry = entry\<lparr>
     en_Name := (if en_Name meta \<noteq> [] then en_Name meta else en_Name entry),
     en_Desc := en_Desc meta,
     en_Game := (if en_Game meta \<noteq> [] then en_Game meta else en_Game entry),
     en_Type := en_Type meta,
     en_IDNT := en_IDNT meta,
     en_Date := (if en_Date meta \<noteq> 0 then en_Date meta else en_Date entry),
     en_FileID := (if en_FileID meta \<noteq> 0 then en_FileID meta else en_FileID entry),
     en_Attr := en_Attr meta, en_Locs := en_Locs meta, en_Perm := en_Perm meta, en_Vers := en_Vers meta\<rparr>"

definition ghost_name :: "string \<Rightarrow> string \<Rightarrow> string" where
  "ghost_name pre name =
     (if pre \<noteq> [] then drop (length pre) name
      else case cut_char (CHR ''_'') name of Some (_, rest) \<Rightarrow> rest | None \<Rightarrow> name)"

definition ghost_listed :: "string \<Rightarrow> string \<times> fnode \<Rightarrow> bool" where
  "ghost_listed pre f \<longleftrightarrow> snd f \<noteq> Folder \<and> \<not> suffix ''.json'' (fst f) \<and> prefix pre (fst f)"

definition collect_file :: "string \<Rightarrow> string \<Rightarrow> string \<times> fnode \<Rightarrow> Entry list \<Rightarrow> (disk, Entry list) go" where
  "collect_file dir pre f entries =
     (if \<not> ghost_listed pre f then gret entries
      else (let name = fst f; path = Join [dir, name] in
        gbind (FileInfo (snd f)) (\<lambda>(size, mtime).
        let entry = zero_entry\<lparr>en_Name := ghost_name pre name, en_Game := ''MEPC'', en_Date := mtime,
              en_FileID := file_id name, en_Size := size, en_path := path\<rparr> in
        gtry (loadMeta path) (\<lambda>_. gret (entries @ [entry]))
          (\<lambda>meta. gret (entries @ [with_meta meta entry])))))"

definition collectGhostEntries :: "Config \<Rightarrow> string \<Rightarrow> (disk, Entry list) go" where
  "collectGhostEntries cfg pre =
     gtry (ReadDir (GhostDir cfg)) (\<lambda>e. if e = ErrNotExist then gret [] else gfail e)
       (\<lambda>files. gfold (collect_file (GhostDir cfg) pre) files [])"

text \<open>The tag in \<open>^tdttghost_(\\d+)$\<close>.\<close>

definition ghost_tag :: "string \<Rightarrow> int option" where
  "ghost_tag name =
     (let ds = drop 10 name in
      if prefix ''tdttghost_'' name \<and> ds \<noteq> [] \<and> list_all is_digit ds then Some (atoi_value ds) else None)"

definition alias_name :: "int \<Rightarrow> string" where
  "alias_name stretchID = ''tdttghost_'' @ itoa stretchID"

text \<open>The set \<open>names\<close> of the code is the set of the names in \<open>out\<close>.\<close>

definition add_alias :: "Entry \<Rightarrow> Entry list \<Rightarrow> int \<Rightarrow> Entry list" where
  "add_alias entry out stretchID =
     (if alias_name stretchID \<in> set (map en_Name out) then out
      else out @ [entry\<lparr>en_Name := alias_name stretchID\<rparr>])"

definition add_aliases :: "(int \<times> int) list \<Rightarrow> Entry list \<Rightarrow> Entry \<Rightarrow> Entry list" where
  "add_aliases m out entry = (case ghost_tag (en_Name entry) of
      None \<Rightarrow> out
    | Some tag \<Rightarrow> foldl (add_alias entry) out (tag_stretches m tag))"

definition withStretchAliases :: "Entry list \<Rightarrow> Entry list locker" where
  "withStretchAliases entries = gbind (on_world GhostTagToStretches) (\<lambda>m.
     gret (if m = [] then entries else foldl (add_aliases m) entries entries))"

definition ghostEntries :: "Config \<Rightarrow> string \<Rightarrow> Entry list locker" where
  "ghostEntries cfg pers =
     (if pers = [] then gret []
      else gbind (on_disk (collectGhostEntries cfg (pers @ ''_''))) withStretchAliases)"

definition findEntryByName :: "Entry list \<Rightarrow> string \<Rightarrow> Entry option" where
  "findEntryByName entries name = find (\<lambda>e. en_Name e = name) entries"

definition findGhostEntry :: "Config \<Rightarrow> string \<Rightarrow> string \<Rightarrow> Entry option locker" where
  "findGhostEntry cfg pers name =
     gbind (ghostEntries cfg pers) (\<lambda>entries.
     case findEntryByName entries name of
       Some entry \<Rightarrow> gret (Some entry)
     | None \<Rightarrow>
         gbind (on_disk (collectGhostEntries cfg [])) (\<lambda>found.
         gbind (withStretchAliases found) (\<lambda>found.
         gret (findEntryByName found name))))"

definition capLockerList :: "Entry list \<Rightarrow> Entry list" where
  "capLockerList entries = (if length entries \<le> lockerListMaxEntries then entries else take lockerListMaxEntries entries)"

subsection \<open>Requests\<close>

type_synonym http_result = "int \<times> string \<times> string"

definition locker_xml :: "string \<Rightarrow> string" where
  "locker_xml code = ''<LOCKER'' @ put_attr ''error'' code @ ''/>''"

definition xml_reply :: "string \<Rightarrow> http_result" where
  "xml_reply body = (200, body, ''text/xml'')"

definition locker_error :: http_result where
  "locker_error = xml_reply (locker_xml ''1'')"

definition not_found :: http_result where
  "not_found = (404, [], ''application/octet-stream'')"

definition handle_dir :: "Config \<Rightarrow> string \<Rightarrow> string \<Rightarrow> http_result locker" where
  "handle_dir cfg game pers =
     (if \<not> safeIdentifier cfg pers then
        gbind (log_write (\<lambda>c. ''FileLocker dir rejected unsafe pers='' @ Quote (lc_printable c) pers)) (\<lambda>_. gret locker_error)
      else gtry (ghostEntries cfg pers)
        (\<lambda>err. gbind (log_write (\<lambda>c. ''FileLocker dir error: '' @ lc_error_text c err)) (\<lambda>_. gret locker_error))
        (\<lambda>entries. let listEntries = capLockerList entries in
         gbind (log_write (\<lambda>c. ''FileLocker dir: returning '' @ itoa (int (length listEntries)) @ ''/'' @
             itoa (int (length entries)) @ '' file(s) for '' @ pers)) (\<lambda>_.
         gret (xml_reply (BuildXML listEntries game pers)))))"

definition handle_nfo :: "Config \<Rightarrow> string \<Rightarrow> string \<Rightarrow> string \<Rightarrow> http_result locker" where
  "handle_nfo cfg game pers name =
     (if \<not> safeIdentifier cfg pers \<or> (name \<noteq> [] \<and> \<not> safeIdentifier cfg name) then gret locker_error
      else gtry (ghostEntries cfg pers) (\<lambda>_. gret locker_error)
        (\<lambda>entries. gret (xml_reply (BuildXML
           (if name \<noteq> [] then filter (\<lambda>e. en_Name e = name) entries else capLockerList entries) game pers))))"

definition handle_get :: "Config \<Rightarrow> string \<Rightarrow> string \<Rightarrow> http_result locker" where
  "handle_get cfg pers name =
     (if \<not> safeIdentifier cfg pers \<or> \<not> safeIdentifier cfg name then gret not_found
      else gtry (findGhostEntry cfg pers name) (\<lambda>_. gret not_found)
        (\<lambda>found. case found of
            None \<Rightarrow> gret not_found
          | Some entry \<Rightarrow>
              gtry (on_disk (ReadFile (en_path entry))) (\<lambda>_. gret not_found)
                (\<lambda>data. gret (200, data, ''application/octet-stream''))))"

definition upload_entry :: "(string \<Rightarrow> string) \<Rightarrow> string \<Rightarrow> string \<Rightarrow> string \<Rightarrow> int \<Rightarrow> Entry" where
  "upload_entry get pers name body now = zero_entry\<lparr>en_Name := name, en_Desc := get ''desc'', en_Game := get ''game'',
     en_Type := get ''type'', en_IDNT := get ''idnt'', en_Date := now, en_FileID := file_id (pers @ ''_'' @ name),
     en_Attr := atoi_value (get ''attr''), en_Size := int (length body), en_Locs := atoi_value (get ''locs''),
     en_Perm := atoi_value (get ''perm''), en_Vers := atoi_value (get ''vers'')\<rparr>"

definition handle_put :: "Config \<Rightarrow> (string \<Rightarrow> string) \<Rightarrow> string \<Rightarrow> string \<Rightarrow> string \<Rightarrow> http_result locker" where
  "handle_put cfg get pers name body =
     (if MaxUploadBytes cfg < int (length body) then
        gbind (log_write (\<lambda>c. ''FileLocker put rejected oversize upload: '' @ itoa (int (length body)) @ '' bytes''))
          (\<lambda>_. gret locker_error)
      else if \<not> safeIdentifier cfg pers \<or> \<not> safeIdentifier cfg name then gret locker_error
      else gtry (on_disk (MkdirAll (GhostDir cfg))) (\<lambda>_. gret locker_error) (\<lambda>_.
        let filePath = Join [GhostDir cfg, pers @ ''_'' @ name] in
        gtry (on_disk (WriteFile filePath body)) (\<lambda>_. gret locker_error) (\<lambda>_.
        gbind (gget (\<lambda>s. unix_now (lk_disk s))) (\<lambda>now.
        let entry = upload_entry get pers name body now in
        gtry (on_disk (saveMeta filePath entry)) (\<lambda>_. gret locker_error) (\<lambda>_.
        gbind (log_write (\<lambda>c. ''Saved ghost: '' @ filePath)) (\<lambda>_.
        gret (xml_reply (BuildXML [entry] [] []))))))))"

text \<open>The method and the headers of a request play no part.\<close>

definition handleRequest :: "(string \<Rightarrow> bool) \<Rightarrow> Config \<Rightarrow> string \<Rightarrow> string \<Rightarrow> http_result locker" where
  "handleRequest authority_ok cfg target body = (case url_parse authority_ok target of
      None \<Rightarrow> gret (404, [], ''text/xml'')
    | Some (path, q) \<Rightarrow>
        (let get = query_get (parse_query q); pers = get ''pers''; cmd = get ''cmd'' in
         if path = ''/healthz'' then gret (200, ''ok'' @ [LF], ''text/plain'')
         else if contains path ''/easo/editorial'' \<or> contains path ''/version'' then gret (xml_reply (GameVersion cfg))
         else if cmd = ''dir'' then handle_dir cfg (get ''game'') pers
         else if cmd = ''nfo'' then handle_nfo cfg (get ''game'') pers (get ''name'')
         else if cmd = ''get'' then handle_get cfg pers (get ''name'')
         else if cmd = ''put'' then handle_put cfg get pers (get ''name'') body
         else gret (xml_reply (locker_xml ''0''))))"

subsection \<open>Connections\<close>

text \<open>
  The loop over the requests of a connection: the responses written so far beside the state. A panic
  of the parser is not recovered, so it ends the process: \<open>Stopped\<close>.
\<close>

definition serve_request :: "(string \<Rightarrow> bool) \<Rightarrow> Config \<Rightarrow> string \<Rightarrow> string \<Rightarrow> string \<Rightarrow> http_result locker" where
  "serve_request authority_ok cfg verb target body =
     gbind (log_write (\<lambda>c. verb @ '' '' @ hd (split_char (CHR ''?'') target))) (\<lambda>_.
     handleRequest authority_ok cfg target body)"

definition http_step :: "(string \<Rightarrow> bool) \<Rightarrow> Config \<Rightarrow> http_request \<Rightarrow> locker_state \<times> string list \<Rightarrow>
    bool \<times> locker_state \<times> string list" where
  "http_step authority_ok cfg req = (\<lambda>(s, written).
     case serve_request authority_ok cfg (rq_method req) (rq_path req) (rq_body req) s of
       (Ret (code, body, contentType), s') \<Rightarrow> (True, s', written @ [buildHTTPResponse code body contentType])
     | (_, s') \<Rightarrow> (False, s', written))"

definition handleConnection :: "(string \<Rightarrow> bool) \<Rightarrow> Config \<Rightarrow> string list \<Rightarrow> locker_state \<Rightarrow>
    pump_end \<times> locker_state \<times> string list" where
  "handleConnection authority_ok cfg reads s =
     feed parseHTTPRequest (http_step authority_ok cfg) reads (Waiting [], s, [])"

text \<open>A log of the concrete examples.\<close>

definition sample_log :: log_context where
  "sample_log = \<lparr>lc_logger = \<lparr>lg_file = Some ''logs/server.log'', lg_path = ''logs/server.log''\<rparr>,
     lc_time = some_time, lc_error_text = (\<lambda>_. ''error''), lc_printable = (\<lambda>_. False)\<rparr>"

end
