(* ===== verification/Locker_Safety.thy ===== *)
theory Locker_Safety
  imports Locker
begin

text \<open>
  What the HTTP server can do to the disk and the database: an invariant of all later states of a
  connection, for every input.
\<close>

subsection \<open>Identifiers are plain names\<close>

lemma safe_name:
  assumes "safeIdentifier cfg pers" "safeIdentifier cfg name"
  shows "plain_name (pers @ ''_'' @ name)" "plain_name (pers @ ''_'' @ name @ ''.json'')"
    "ascii pers" "ascii name"
proof -
  have chars: "safe_char c" if "c \<in> set pers \<union> set name" for c
    using assms that by (auto simp: safeIdentifier_def list_all_iff split: if_splits)
  then have "slash \<notin> set pers \<union> set name" by (fastforce simp: safe_char_def is_digit_def ord_def)
  then show "plain_name (pers @ ''_'' @ name)" "plain_name (pers @ ''_'' @ name @ ''.json'')"
    by (auto simp: plain_name_def append_eq_Cons_conv)
  have "ord c < 128" if "c \<in> set pers \<union> set name" for c
    using chars [OF that] by (auto simp: safe_char_def is_digit_def ord_def)
  then show "ascii pers" "ascii name" by (auto simp: ascii_def)
qed

subsection \<open>What a request may change\<close>

definition upload_file :: "Config \<Rightarrow> string \<Rightarrow> bool" where
  "upload_file cfg p \<longleftrightarrow> (\<exists>pers name. safeIdentifier cfg pers \<and> safeIdentifier cfg name \<and>
     (p = in_dir (GhostDir cfg) (pers @ ''_'' @ name) \<or> p = in_dir (GhostDir cfg) (pers @ ''_'' @ name @ ''.json'')))"

definition ghost_parent :: "Config \<Rightarrow> string \<Rightarrow> bool" where
  "ghost_parent cfg p \<longleftrightarrow> p \<in> Clean ` set (ancestors (GhostDir cfg))"

text \<open>The file that the log goes to.\<close>

definition log_file :: "log_context \<Rightarrow> string \<Rightarrow> bool" where
  "log_file c p \<longleftrightarrow> (\<exists>f. lg_file (lc_logger c) = Some f \<and> p = Clean f)"

definition extended :: "string \<Rightarrow> disk \<Rightarrow> disk \<Rightarrow> bool" where
  "extended p d d' \<longleftrightarrow> (\<forall>c t. node_at d p = Some (Plain c t) \<longrightarrow> (\<exists>added t'. node_at d' p = Some (Plain (c @ added) t')))"

text \<open>
  Between two states of the disk only the files \<open>F\<close>, new directories \<open>D\<close> and the log may differ, and the
  log, unless it is one of the files \<open>F\<close> itself, has at most got longer.
\<close>

definition serves :: "(string \<Rightarrow> bool) \<Rightarrow> (string \<Rightarrow> bool) \<Rightarrow> log_context \<Rightarrow> disk \<Rightarrow> disk \<Rightarrow> bool" where
  "serves F D c d d' \<longleftrightarrow> changes_only (\<lambda>p. F p \<or> log_file c p) D d d'
     \<and> (\<forall>p. log_file c p \<longrightarrow> \<not> F p \<longrightarrow> extended p d d')"

definition locker_changes :: "(disk \<Rightarrow> disk \<Rightarrow> bool) \<Rightarrow> locker_state \<Rightarrow> locker_state \<Rightarrow> bool" where
  "locker_changes R s s' \<longleftrightarrow> R (lk_disk s) (lk_disk s')
     \<and> lk_db s' = (lk_db s)\<lparr>faults := faults (lk_db s')\<rparr> \<and> lk_log s' = lk_log s"

abbreviation uploads_only :: "Config \<Rightarrow> locker_state \<Rightarrow> locker_state \<Rightarrow> bool" where
  "uploads_only cfg s \<equiv> locker_changes (serves (upload_file cfg) (ghost_parent cfg) (lk_log s)) s"

lemma extended_refl [simp]: "extended p d d"
  by (simp add: extended_def)

lemma extended_trans: "extended p d d1 \<Longrightarrow> extended p d1 d2 \<Longrightarrow> extended p d d2"
  unfolding extended_def by (metis append.assoc)

lemma extended_io [simp]: "extended p d (d1\<lparr>io := xs\<rparr>) = extended p d d1"
  by (simp add: extended_def)

lemma extended_AppendOpen: "extended p d (snd (AppendOpen f data d))"
proof -
  have put: "extended p d (put_node f (Plain (c @ added) t') d1)"
    if "node_at d f = Some (Plain c t)" "node_at d1 p = node_at d p" for c t added t' d1
    using that by (cases "Clean p = Clean f") (auto simp: extended_def node_at_def [of d])
  show ?thesis
    by (auto simp: AppendOpen_def io_step_def intro!: put split: list.split option.split fnode.split io_outcome.split)
qed

lemma extended_other:
  assumes "changes_only F D d d'" "\<not> F (Clean p)"
  shows "extended p d d'"
  using assms unfolding extended_def changes_only_def by (metis append_Nil2 option.distinct(1))

lemma serves_refl [simp]: "serves F D c d d"
  by (simp add: serves_def)

lemma serves_trans: "serves F D c d d1 \<Longrightarrow> serves F D c d1 d2 \<Longrightarrow> serves F D c d d2"
  unfolding serves_def using changes_only_trans extended_trans by blast

lemma serves_change: "changes_only F D d d' \<Longrightarrow> serves F D c d d'"
  by (auto simp: serves_def log_file_def Clean_idem intro: extended_other) (auto simp: changes_only_def)

lemma keeps_serves [keeps_intro]: "keeps (serves F D c d) m" if "\<And>d. keeps (changes_only F D d) m"
proof (rule keepsI)
  fix d1
  assume "serves F D c d d1"
  moreover have "changes_only F D d1 (snd (m d1))"
    using keepsD [OF that changes_only_refl, of d1 "fst (m d1)" "snd (m d1)"] by simp
  ultimately show "serves F D c d (snd (m d1))" by (blast intro: serves_trans serves_change)
qed

lemma Write_serves: "serves F D c d (snd (Write t (lc_logger c) tag msg d))"
proof (cases "lg_file (lc_logger c)")
  case (Some f)
  let ?line = "''['' @ clock_text t @ ''] ['' @ tag @ ''] '' @ msg @ [LF]"
  have "changes_only (\<lambda>p. F p \<or> log_file c p) D d (snd (AppendOpen f ?line d))"
    using keepsD [OF keeps_append(2) changes_only_refl, of "\<lambda>p. F p \<or> log_file c p" f ?line d "fst (AppendOpen f ?line d)"] Some
    by (simp add: log_file_def)
  then have "serves F D c d (snd (AppendOpen f ?line d))" by (simp add: serves_def extended_AppendOpen)
  with Some show ?thesis by (auto simp: Write_def gtry_def gret_def Let_def split: prod.split outcome.split)
qed (simp add: Write_def gret_def Let_def)

lemma locker_changes_refl [simp]: "R (lk_disk s) (lk_disk s) \<Longrightarrow> locker_changes R s s"
  by (simp add: locker_changes_def)

lemma keeps_on_disk [keeps_intro]:
  "keeps (R (lk_disk s)) m \<Longrightarrow> keeps (locker_changes R s) (on_disk m)"
  by (auto simp: keeps_def on_disk_def locker_changes_def split: prod.splits)

lemma keeps_on_query [keeps_intro]: "keeps (locker_changes R s) (on_world (query f))"
  unfolding keeps_def on_world_def locker_changes_def query_def stmt_def
  by (auto split: list.splits bool.splits)

lemma keeps_log_write [keeps_intro]: "keeps (locker_changes (serves F D (lk_log s)) s) (log_write msg)"
proof (rule keepsI)
  fix s1
  assume s1: "locker_changes (serves F D (lk_log s)) s s1"
  then have "serves F D (lk_log s) (lk_disk s1) (snd (Write (lc_time (lk_log s1)) (lc_logger (lk_log s1)) ''HTTP'' (msg (lk_log s1)) (lk_disk s1)))"
    using Write_serves by (simp add: locker_changes_def)
  with s1 serves_trans show "locker_changes (serves F D (lk_log s)) s (snd (log_write msg s1))"
    by (auto simp: log_write_def gbind_def gget_def on_disk_def locker_changes_def split: prod.split)
qed

lemma keeps_case_outcome [keeps_intro]:
  "keeps I (case p of (a, b) \<Rightarrow> f a b)" if "\<And>a b. keeps I (f a b)"
  using that by (cases p) simp

lemma keeps_collect [keeps_intro]: "keeps (changes_only F D d) (collectGhostEntries cfg pre)"
  unfolding collectGhostEntries_def collect_file_def loadMeta_def by (intro keeps_intro)

lemma keeps_aliases [keeps_intro]: "keeps (locker_changes R s) (withStretchAliases es)"
  unfolding withStretchAliases_def GhostTagToStretches_def by (intro keeps_intro)

lemma keeps_entries:
  assumes "\<And>pre d. keeps (R d) (collectGhostEntries cfg pre)"
  shows "keeps (locker_changes R s) (ghostEntries cfg pers)" "keeps (locker_changes R s) (findGhostEntry cfg pers name)"
  using assms unfolding findGhostEntry_def ghostEntries_def by (intro keeps_intro; simp)+

lemma keeps_listing [keeps_intro]:
  "keeps (locker_changes (serves F D c) s) (ghostEntries cfg pers)"
  "keeps (locker_changes (serves F D c) s) (findGhostEntry cfg pers name)"
  by (rule keeps_entries, intro keeps_intro)+

lemma keeps_upload:
  assumes "safeIdentifier cfg pers" "safeIdentifier cfg name"
  shows "keeps (changes_only (upload_file cfg) D d) (WriteFile (Join [GhostDir cfg, pers @ ''_'' @ name]) body)"
    "keeps (changes_only (upload_file cfg) D d) (saveMeta (Join [GhostDir cfg, pers @ ''_'' @ name]) e)"
  unfolding saveMeta_def Join_in_dir [OF safe_name(1) [OF assms]] in_dir_append
  using assms safe_name [OF assms]
  by (auto intro!: keeps_WriteFile simp: Clean_in_dir) (auto simp: upload_file_def)

lemma keeps_handle_put: "keeps (uploads_only cfg s) (handle_put cfg get pers name body)"
  unfolding handle_put_def Let_def
  by (intro keeps_intro keeps_upload keeps_MkdirAll) (auto simp: ghost_parent_def)

lemma keeps_serve_request: "keeps (uploads_only cfg s) (serve_request ok cfg verb target body)"
  unfolding serve_request_def handleRequest_def Let_def handle_dir_def handle_nfo_def handle_get_def
  by (intro keeps_intro keeps_handle_put)

text \<open>
  C12. The file server is confined to its own files. Whatever bytes a client sends and however the
  file system and the database fail in between, a connection changes no file but ghosts and their
  metadata, named \<open>pers_name\<close> and \<open>pers_name.json\<close> right inside the ghost directory for identifiers
  that were checked, and the log, to which it only appends (unless the log itself has the path of such a
  ghost); it may create the ghost directory and the directories above it where nothing existed; and
  it changes nothing in the database.
\<close>

theorem locker_confined:
  "uploads_only cfg s (fst (snd (handleConnection authority_ok cfg reads s)))"
proof -
  let ?I = "\<lambda>st. uploads_only cfg s (fst st)"
  have step: "?I (snd (http_step authority_ok cfg req st))" if "?I st" for req st
  proof -
    obtain s1 written where st: "st = (s1, written)" by (cases st)
    obtain r s2 where r: "serve_request authority_ok cfg (rq_method req) (rq_path req) (rq_body req) s1 = (r, s2)" by fastforce
    then have "uploads_only cfg s s2" using keepsD [OF keeps_serve_request] that st by fastforce
    then show ?thesis by (auto simp: st r http_step_def split: outcome.split prod.split)
  qed
  have "?I (s, [])" by simp
  with step show ?thesis
    unfolding handleConnection_def
    by (rule feed_invariant [where I = "\<lambda>st. uploads_only cfg s (fst st)"])
qed

subsection \<open>What a request may read\<close>

text \<open>An entry of a listing stands for a file right inside the ghost directory.\<close>

definition ghost_entry :: "Config \<Rightarrow> string \<Rightarrow> Entry \<Rightarrow> bool" where
  "ghost_entry cfg pre e \<longleftrightarrow> (\<exists>f. plain_name f \<and> prefix pre f \<and> \<not> suffix ''.json'' f \<and> en_path e = in_dir (GhostDir cfg) f)"

definition lists :: "Config \<Rightarrow> string \<Rightarrow> ('s, Entry list) go \<Rightarrow> bool" where
  "lists cfg pre m \<longleftrightarrow> triple (\<lambda>_. True) m (\<lambda>es _. list_all (ghost_entry cfg pre) es) (\<lambda>_. True)"

lemma lists_gret: "lists cfg pre (gret es) \<longleftrightarrow> list_all (ghost_entry cfg pre) es"
  by (simp add: lists_def triple_def gret_def)

lemma lists_collect_file:
  assumes "list_all (ghost_entry cfg pre) es" "plain_name (fst f)"
  shows "lists cfg pre (collect_file (GhostDir cfg) pre f es)"
  using assms
  by (auto simp: collect_file_def lists_def triple_def gbind_def gtry_def gret_def ghost_listed_def ghost_entry_def with_meta_def
      Join_in_dir Let_def split: prod.splits outcome.splits)

lemma lists_collect: "lists cfg pre (collectGhostEntries cfg pre)"
proof -
  have fold: "lists cfg pre (gfold (collect_file (GhostDir cfg) pre) fs es)"
    if "list_all (ghost_entry cfg pre) es" "list_all (\<lambda>f. plain_name (fst f)) fs" for fs es
    using that
  proof (induction fs arbitrary: es)
    case (Cons f fs)
    have "triple (\<lambda>_. True) (collect_file (GhostDir cfg) pre f es) (\<lambda>es _. list_all (ghost_entry cfg pre) es) (\<lambda>_. True)"
      using lists_collect_file Cons.prems unfolding lists_def by simp
    moreover have "triple (\<lambda>_. list_all (ghost_entry cfg pre) x) (gfold (collect_file (GhostDir cfg) pre) fs x)
        (\<lambda>es _. list_all (ghost_entry cfg pre) es) (\<lambda>_. True)" for x
      using Cons.IH [of x] Cons.prems by (auto simp: lists_def triple_def)
    ultimately show ?case unfolding lists_def gfold.simps by (rule triple_gbind)
  qed (simp add: lists_gret)
  have files: "triple (\<lambda>_. True) (ReadDir g) (\<lambda>fs _. list_all (\<lambda>f. plain_name (fst f)) fs) (\<lambda>_. True)" for g
    by (auto simp: triple_def ReadDir_def io_step_def list_all_iff dir_entries_iff split: list.splits)
  show ?thesis
    unfolding lists_def collectGhostEntries_def
  proof (rule triple_gtry [OF files])
    fix fs
    show "triple (\<lambda>_. list_all (\<lambda>f. plain_name (fst f)) fs) (gfold (collect_file (GhostDir cfg) pre) fs [])
        (\<lambda>es _. list_all (ghost_entry cfg pre) es) (\<lambda>_. True)"
      using fold [of "[]" fs] by (auto simp: lists_def triple_def)
  qed (auto simp: triple_def gret_def gfail_def)
qed

lemma lists_aliases:
  assumes "list_all (ghost_entry cfg pre) es"
  shows "lists cfg pre (withStretchAliases es)"
proof -
  let ?ok = "list_all (ghost_entry cfg pre)"
  have one: "?ok (foldl (add_alias e) out ids)" if "?ok out" "ghost_entry cfg pre e" for e out ids
    using that by (induction ids arbitrary: out) (auto simp: add_alias_def ghost_entry_def)
  have "?ok (foldl (add_aliases m) out fs)" if "?ok out" "?ok fs" for m out fs
    using that by (induction fs arbitrary: out) (auto simp: add_aliases_def one split: option.split)
  with assms have "?ok (foldl (add_aliases m) es es)" for m by blast
  with assms show ?thesis
    by (auto simp: lists_def withStretchAliases_def triple_def gbind_def gret_def split: prod.splits outcome.splits)
qed

lemma lists_entries_by:
  "lists cfg pre (gbind (on_disk (collectGhostEntries cfg pre)) withStretchAliases)"
  unfolding lists_def
proof (rule triple_gbind)
  show "triple (\<lambda>_. True) (on_disk (collectGhostEntries cfg pre)) (\<lambda>es _. list_all (ghost_entry cfg pre) es) (\<lambda>_. True)"
    using lists_collect [of cfg pre] by (auto simp: lists_def triple_def on_disk_def split: prod.splits outcome.splits)
  show "triple (\<lambda>_. list_all (ghost_entry cfg pre) es) (withStretchAliases es) (\<lambda>es _. list_all (ghost_entry cfg pre) es) (\<lambda>_. True)" for es
    using lists_aliases [of cfg pre es] by (auto simp: lists_def triple_def)
qed

lemma lists_ghostEntries: "lists cfg (pers @ ''_'') (ghostEntries cfg pers)"
  using lists_entries_by by (simp add: ghostEntries_def lists_gret)

lemma listsD: "lists cfg pre m \<Longrightarrow> m s = (Ret es, s') \<Longrightarrow> e \<in> set es \<Longrightarrow> ghost_entry cfg pre e"
  by (auto simp: lists_def list_all_iff dest!: tripleD)

lemma ghost_entry_any: "ghost_entry cfg pre e \<Longrightarrow> ghost_entry cfg [] e"
  by (auto simp: ghost_entry_def)

lemma findGhostEntry_entry:
  assumes "findGhostEntry cfg pers name s = (Ret (Some e), s')"
  shows "ghost_entry cfg [] e"
proof -
  from assms obtain es s1 where es: "ghostEntries cfg pers s = (Ret es, s1)"
    and rest: "(case findEntryByName es name of Some entry \<Rightarrow> gret (Some entry)
     | None \<Rightarrow> gbind (on_disk (collectGhostEntries cfg [])) (\<lambda>found. gbind (withStretchAliases found)
         (\<lambda>found. gret (findEntryByName found name)))) s1 = (Ret (Some e), s')"
    unfolding findGhostEntry_def gbind_returns by blast
  show ?thesis
  proof (cases "findEntryByName es name")
    case None
    with rest obtain all s2 where all: "gbind (on_disk (collectGhostEntries cfg [])) withStretchAliases s1 = (Ret all, s2)"
      and e: "findEntryByName all name = Some e"
      by (auto simp: gbind_returns gret_def)
    from listsD [OF lists_entries_by all] find_SomeD [OF e [unfolded findEntryByName_def]] show ?thesis by blast
  next
    case (Some e')
    with rest have e: "findEntryByName es name = Some e" by (simp add: gret_def)
    from listsD [OF lists_ghostEntries es] find_SomeD [OF e [unfolded findEntryByName_def]]
    show ?thesis by (blast intro: ghost_entry_any)
  qed
qed

lemma ReadFile_node: "ReadFile path d = (Ret data, d') \<Longrightarrow> \<exists>t. node_at d path = Some (Plain data t)"
  by (auto simp: ReadFile_def io_step_def split: list.splits if_splits option.splits fnode.splits)

lemma handle_get_file:
  assumes "handle_get cfg pers name s = (Ret (200, data, ct), s')"
  shows "\<exists>f t. plain_name f \<and> \<not> suffix ''.json'' f \<and> node_at (lk_disk s) (in_dir (GhostDir cfg) f) = Some (Plain data t)"
proof -
  from assms obtain e s1 where e: "findGhostEntry cfg pers name s = (Ret (Some e), s1)"
    and r: "gtry (on_disk (ReadFile (en_path e))) (\<lambda>_. gret not_found) (\<lambda>data. gret (200, data, ''application/octet-stream'')) s1
      = (Ret (200, data, ct), s')"
    by (auto simp: handle_get_def gtry_def gret_def not_found_def split: if_splits prod.splits outcome.splits option.splits)
  from r obtain t where t: "node_at (lk_disk s1) (en_path e) = Some (Plain data t)"
    by (auto simp: gtry_def on_disk_def gret_def not_found_def split: prod.splits outcome.splits dest: ReadFile_node)
  let ?R = "changes_only (\<lambda>_. False) (\<lambda>_. False)"
  have "keeps (locker_changes ?R s) (findGhostEntry cfg pers name)" by (intro keeps_entries keeps_intro)
  from keepsD [OF this locker_changes_refl e] have "locker_changes ?R s s1" by simp
  then have "node_at (lk_disk s) (en_path e) = Some (Plain data t)" using t by (simp add: locker_changes_def changes_only_def)
  with findGhostEntry_entry [OF e] show ?thesis by (auto simp: ghost_entry_def)
qed

end
