(* ===== verification/Locker_Files.thy ===== *)
theory Locker_Files
  imports Locker_Safety
begin

text \<open>
  Uploads and downloads when the file system and the database work: the listing of the ghost directory
  as a plain function of the disk, and a file that comes back as it was sent.
\<close>

subsection \<open>Listings of a quiet disk\<close>

definition shown :: "disk \<Rightarrow> string \<Rightarrow> string \<Rightarrow> string \<times> fnode \<Rightarrow> Entry" where
  "shown d dir pre f = (let path = Join [dir, fst f];
       (size, mtime) = (case snd f of Folder \<Rightarrow> (0, 0) | Plain c t \<Rightarrow> (int (length c), t));
       entry = zero_entry\<lparr>en_Name := ghost_name pre (fst f), en_Game := ''MEPC'', en_Date := mtime,
         en_FileID := file_id (fst f), en_Size := size, en_path := path\<rparr>
     in case fst (loadMeta path d) of Ret meta \<Rightarrow> with_meta meta entry | _ \<Rightarrow> entry)"

definition ghost_list :: "disk \<Rightarrow> string \<Rightarrow> string \<Rightarrow> Entry list" where
  "ghost_list d dir pre = map (shown d dir pre) (filter (ghost_listed pre) (dir_entries d dir))"

lemma loadMeta_quiet:
  assumes "io d = []"
  shows "\<exists>r. loadMeta path d = (r, d) \<and> r \<noteq> Panic"
  using assms
  by (auto simp: loadMeta_def gbind_def ReadFile_def gfail_def gret_def split: option.splits fnode.splits)

lemma collect_file_quiet:
  assumes "io d = []"
  shows "collect_file dir pre f es d = (Ret (es @ (if ghost_listed pre f then [shown d dir pre f] else [])), d)"
proof -
  obtain r where r: "loadMeta (Join [dir, fst f]) d = (r, d)" "r \<noteq> Panic" using loadMeta_quiet [OF assms] by blast
  show ?thesis
    using r assms
    by (cases "snd f"; cases r)
      (auto simp: collect_file_def shown_def Let_def FileInfo_def gbind_def gtry_def gret_def)
qed

lemma collectGhostEntries_quiet:
  assumes "io d = []" "is_folder d (GhostDir cfg)"
  shows "collectGhostEntries cfg pre d = (Ret (ghost_list d (GhostDir cfg) pre), d)"
proof -
  have "gfold (collect_file dir pre) fs es d = (Ret (es @ map (shown d dir pre) (filter (ghost_listed pre) fs)), d)" for dir fs es
  proof (induction fs arbitrary: es)
    case (Cons f fs)
    then show ?case by (simp add: gbind_def collect_file_quiet assms(1))
  qed (simp add: gret_def)
  then show ?thesis
    using assms by (simp add: collectGhostEntries_def gtry_def ReadDir_def ghost_list_def)
qed

subsection \<open>A line for the log\<close>

definition logged :: "log_context \<Rightarrow> string \<Rightarrow> disk \<Rightarrow> disk" where
  "logged c msg d = snd (Write (lc_time c) (lc_logger c) ''HTTP'' msg d)"

lemma log_write_run: "log_write msg s = (Ret (), s\<lparr>lk_disk := logged (lk_log s) (msg (lk_log s)) (lk_disk s)\<rparr>)"
  by (auto simp: log_write_def gbind_def gget_def on_disk_def logged_def Write_def gtry_def gret_def Let_def AppendOpen_def io_step_def
      split: option.split list.split fnode.split io_outcome.split)

lemma logged_serves: "serves F D c d (logged c msg d)"
  unfolding logged_def by (rule Write_serves)

text \<open>The log is not one of the files right inside the ghost directory.\<close>

definition log_elsewhere :: "Config \<Rightarrow> log_context \<Rightarrow> bool" where
  "log_elsewhere cfg c \<longleftrightarrow> (case lg_file (lc_logger c) of None \<Rightarrow> True | Some f \<Rightarrow> Dir (Clean f) \<noteq> Clean (GhostDir cfg))"

lemma logged_quiet:
  assumes "io d = []"
  obtains "logged c msg d = d"
  | f old t line where "lg_file (lc_logger c) = Some f" "node_at d f = Some (Plain old t)"
      "logged c msg d = put_node f (Plain (old @ line) (unix_now d)) d"
proof (cases "lg_file (lc_logger c)")
  case None
  with that(1) show ?thesis by (simp add: logged_def Write_def gret_def Let_def)
next
  case (Some f)
  show ?thesis
  proof (cases "\<exists>old t. node_at d f = Some (Plain old t)")
    case True
    with Some that(2) assms show ?thesis
      by (fastforce simp: logged_def Write_def gret_def gtry_def AppendOpen_def Let_def)
  next
    case False
    then have "logged c msg d = d"
      using Some assms by (auto simp: logged_def Write_def gret_def gtry_def AppendOpen_def Let_def split: option.split fnode.split)
    then show ?thesis by (rule that(1))
  qed
qed

lemma logged_rest:
  assumes "io d = []"
  shows "io (logged c msg d) = []" "unix_now (logged c msg d) = unix_now d" "is_folder (logged c msg d) p = is_folder d p"
proof -
  show "io (logged c msg d) = []" "unix_now (logged c msg d) = unix_now d"
    by (rule logged_quiet [OF assms, of c msg]; simp add: assms)+
  show "is_folder (logged c msg d) p = is_folder d p"
    by (rule logged_quiet [OF assms, of c msg]) (auto simp: is_folder_def node_at_def [of d])
qed

lemma logged_node:
  assumes "io d = []" "log_elsewhere cfg c" "plain_name h"
  shows "node_at (logged c msg d) (in_dir (GhostDir cfg) h) = node_at d (in_dir (GhostDir cfg) h)"
proof (rule logged_quiet [OF assms(1), of c msg])
  fix f old t line
  assume f: "lg_file (lc_logger c) = Some f" and l: "logged c msg d = put_node f (Plain (old @ line) (unix_now d)) d"
  then have "Clean f \<noteq> in_dir (GhostDir cfg) h"
    using assms(2) Dir_in_dir [OF assms(3), of "GhostDir cfg"] by (auto simp: log_elsewhere_def)
  with l show ?thesis by (simp add: Clean_in_dir [OF assms(3)])
qed simp

lemma logged_entries:
  assumes "io d = []" "log_elsewhere cfg c"
  shows "dir_entries (logged c msg d) (GhostDir cfg) = dir_entries d (GhostDir cfg)"
proof (rule logged_quiet [OF assms(1), of c msg])
  fix f old t line
  let ?F = "\<lambda>(k, n). if plain_name (Base k) \<and> Join [GhostDir cfg, Base k] = k then [(Base k, n)] else []"
  assume f: "lg_file (lc_logger c) = Some f" and l: "logged c msg d = put_node f (Plain (old @ line) (unix_now d)) d"
  have no: "plain_name (Base (Clean f)) \<Longrightarrow> Join [GhostDir cfg, Base (Clean f)] \<noteq> Clean f"
    using f assms(2) Dir_in_dir [of "Base (Clean f)" "GhostDir cfg"] Join_in_dir [of "Base (Clean f)" "GhostDir cfg"]
    by (auto simp: log_elsewhere_def)
  have "concat (map ?F (AList.update (Clean f) n xs)) = concat (map ?F xs)" for n and xs :: "(string \<times> fnode) list"
    by (induction xs) (auto simp: no)
  then show ?thesis by (simp add: dir_entries_def l put_node_def)
qed simp

lemma shown_cong:
  assumes "io d = []" "io d' = []" "node_at d (Join [dir, fst f] @ ''.json'') = node_at d' (Join [dir, fst f] @ ''.json'')"
  shows "shown d dir pre f = shown d' dir pre f"
proof -
  have "fst (loadMeta (Join [dir, fst f]) d) = fst (loadMeta (Join [dir, fst f]) d')"
    using assms by (auto simp: loadMeta_def gbind_def ReadFile_def gfail_def gret_def split: option.split fnode.split)
  then show ?thesis by (simp add: shown_def Let_def)
qed

lemma logged_list:
  assumes "io d = []" "log_elsewhere cfg c"
  shows "ghost_list (logged c msg d) (GhostDir cfg) pre = ghost_list d (GhostDir cfg) pre"
proof -
  have "shown (logged c msg d) (GhostDir cfg) pre x = shown d (GhostDir cfg) pre x" if "x \<in> set (dir_entries d (GhostDir cfg))" for x
  proof (rule shown_cong)
    obtain h n where x: "x = (h, n)" by (cases x)
    with that have h: "plain_name h" by (simp add: dir_entries_iff)
    then have "plain_name (h @ ''.json'')" by (auto simp: plain_name_def append_eq_Cons_conv)
    with logged_node [OF assms this] h x
    show "node_at (logged c msg d) (Join [GhostDir cfg, fst x] @ ''.json'') = node_at d (Join [GhostDir cfg, fst x] @ ''.json'')"
      by (simp add: Join_in_dir in_dir_append)
  qed (simp_all add: assms(1) logged_rest)
  then show ?thesis by (simp add: ghost_list_def logged_entries [OF assms])
qed

subsection \<open>Names are found before their aliases\<close>

lemma foldl_add_aliases: "\<exists>more. foldl (add_aliases m) es fs = es @ more"
proof -
  have one: "\<exists>more. foldl (add_alias e) out ids = out @ more" for e out ids
    by (induction ids arbitrary: out) (auto simp: add_alias_def, metis append_assoc)
  then have "\<exists>more. add_aliases m out e = out @ more" for out e
    by (auto simp: add_aliases_def split: option.split)
  then show ?thesis
  proof (induction fs arbitrary: es)
    case (Cons f fs)
    then show ?case by (metis append_assoc foldl_Cons)
  qed simp
qed

lemma withStretchAliases_quiet:
  assumes "faults (lk_db s) = []"
  shows "\<exists>more. withStretchAliases es s = (Ret (es @ more), s)"
  using assms foldl_add_aliases
  by (auto simp: withStretchAliases_def on_world_def gbind_def gret_def GhostTagToStretches_def query_ok)

lemma findGhostEntry_quiet:
  assumes "io (lk_disk s) = []" "faults (lk_db s) = []" "is_folder (lk_disk s) (GhostDir cfg)" "pers \<noteq> []"
    "findEntryByName (ghost_list (lk_disk s) (GhostDir cfg) (pers @ ''_'')) name = Some e"
  shows "findGhostEntry cfg pers name s = (Ret (Some e), s)"
proof -
  let ?es = "ghost_list (lk_disk s) (GhostDir cfg) (pers @ ''_'')"
  obtain more where "withStretchAliases ?es s = (Ret (?es @ more), s)" using withStretchAliases_quiet [OF assms(2)] by blast
  then have "ghostEntries cfg pers s = (Ret (?es @ more), s)"
    using collectGhostEntries_quiet [OF assms(1,3)] assms(4)
    by (simp add: ghostEntries_def gbind_def on_disk_def)
  moreover have "findEntryByName (?es @ more) name = Some e"
    using assms(5) by (simp add: findEntryByName_def find_append)
  ultimately show ?thesis by (simp add: findGhostEntry_def gbind_def gret_def)
qed

subsection \<open>An upload\<close>

lemma WriteFile_in_dir:
  assumes "io d = []" "is_folder d g" "plain_name f" "node_at d (in_dir g f) \<noteq> Some Folder"
  shows "WriteFile (in_dir g f) data d = (Ret (), put_node (in_dir g f) (Plain data (unix_now d)) d)"
proof -
  obtain p where p: "in_dir g f = p @ f" using in_dir_end [OF assms(3)] .
  have "in_dir g f \<noteq> []" using assms(3) by (simp add: p plain_name_def)
  moreover have "is_folder d (Dir (in_dir g f))"
    using assms(2) by (simp add: Dir_in_dir [OF assms(3)] is_folder_def Clean_idem Clean_nonempty node_at_def)
  moreover have "\<not> is_folder d (in_dir g f)"
    using assms(4) in_dir_not_root [OF assms(3), of g] by (simp add: is_folder_def Clean_in_dir [OF assms(3)])
  ultimately show ?thesis by (intro WriteFile_run assms(1)) auto
qed

text \<open>The disk after an upload into the directory of \<open>d\<close>.\<close>

definition uploaded :: "Config \<Rightarrow> (string \<Rightarrow> string) \<Rightarrow> string \<Rightarrow> string \<Rightarrow> string \<Rightarrow> disk \<Rightarrow> disk" where
  "uploaded cfg get pers name body d = (let f = pers @ ''_'' @ name; now = unix_now d in
     put_node (in_dir (GhostDir cfg) (f @ ''.json'')) (Plain (marshal_entry (upload_entry get pers name body now)) now)
       (put_node (in_dir (GhostDir cfg) f) (Plain body now) d))"

definition upload_possible :: "Config \<Rightarrow> string \<Rightarrow> string \<Rightarrow> string \<Rightarrow> disk \<Rightarrow> disk \<Rightarrow> bool" where
  "upload_possible cfg pers name body d d1 \<longleftrightarrow>
     safeIdentifier cfg pers \<and> safeIdentifier cfg name \<and> int (length body) \<le> MaxUploadBytes cfg \<and>
     io d = [] \<and> MkdirAll (GhostDir cfg) d = (Ret (), d1) \<and>
     node_at d1 (in_dir (GhostDir cfg) (pers @ ''_'' @ name)) \<noteq> Some Folder \<and>
     node_at d1 (in_dir (GhostDir cfg) (pers @ ''_'' @ name @ ''.json'')) \<noteq> Some Folder"

lemma handle_put_run:
  assumes "upload_possible cfg pers name body (lk_disk s) d1"
  shows "handle_put cfg get pers name body s =
    (Ret (xml_reply (BuildXML [upload_entry get pers name body (unix_now (lk_disk s))] [] [])),
     s\<lparr>lk_disk := logged (lk_log s) (''Saved ghost: '' @ in_dir (GhostDir cfg) (pers @ ''_'' @ name)) (uploaded cfg get pers name body d1)\<rparr>)"
proof -
  let ?g = "GhostDir cfg" and ?f = "pers @ ''_'' @ name"
  have safe: "safeIdentifier cfg pers" "safeIdentifier cfg name" and io: "io (lk_disk s) = []"
    and mk: "MkdirAll ?g (lk_disk s) = (Ret (), d1)"
    and free: "node_at d1 (in_dir ?g ?f) \<noteq> Some Folder" "node_at d1 (in_dir ?g (?f @ ''.json'')) \<noteq> Some Folder"
    using assms by (simp_all add: upload_possible_def)
  note names = safe_name(1,2) [OF safe]
  note d1 = MkdirAll_run [OF io mk]
  have clean: "Clean (in_dir ?g ?f) = in_dir ?g ?f" using names(1) by (rule Clean_in_dir)
  let ?d2 = "put_node (in_dir ?g ?f) (Plain body (unix_now d1)) d1"
  let ?e = "upload_entry get pers name body (unix_now d1)"
  have w1: "WriteFile (in_dir ?g ?f) body d1 = (Ret (), ?d2)"
    by (rule WriteFile_in_dir [OF d1(2,1) names(1) free(1)])
  have folder: "is_folder ?d2 ?g"
    using d1(1) in_dir_neq [OF names(1), of ?g] clean by (auto simp: is_folder_def)
  have w2: "saveMeta (in_dir ?g ?f) ?e ?d2 = (Ret (), uploaded cfg get pers name body d1)"
    unfolding saveMeta_def in_dir_append
    using WriteFile_in_dir [OF _ folder, of "?f @ ''.json''" "marshal_entry ?e"] names(2) free(2) d1
    by (simp add: uploaded_def Let_def)
  have "\<not> MaxUploadBytes cfg < int (length body)" using assms by (simp add: upload_possible_def)
  with safe w1 w2 mk d1 Join_in_dir [OF names(1), of ?g] show ?thesis
    by (simp add: handle_put_def gtry_def gbind_def gget_def gret_def on_disk_def Let_def log_write_run)
qed

subsection \<open>A download\<close>

lemma json_suffix:
  assumes "\<not> suffix ''.json'' name"
  shows "\<not> suffix ''.json'' (pers @ ''_'' @ name)"
proof
  assume "suffix ''.json'' (pers @ ''_'' @ name)"
  moreover have "suffix (''_'' @ name) (pers @ ''_'' @ name)" by (auto simp: suffix_def)
  ultimately consider "suffix ''.json'' (''_'' @ name)" | "suffix (''_'' @ name) ''.json''"
    using suffix_same_cases by blast
  then show False
  proof cases
    case 2
    then have "CHR ''_'' \<in> set ''.json''" by (metis UnI1 append_Cons list.set_intros(1) set_mono_suffix subsetD)
    then show False by simp
  qed (use assms in \<open>simp add: suffix_Cons\<close>)
qed

lemma shown_path: "en_path (shown d dir pre f) = Join [dir, fst f]"
  by (auto simp: shown_def Let_def with_meta_def split: outcome.split prod.split)

lemma uploaded_other:
  assumes "safeIdentifier cfg pers" "safeIdentifier cfg name" "io d = []"
    "(h, n) \<in> set (dir_entries (uploaded cfg get pers name body d) (GhostDir cfg))"
    "h \<noteq> pers @ ''_'' @ name" "\<not> suffix ''.json'' h"
    "\<not> suffix ''.json'' name"
  shows "(h, n) \<in> set (dir_entries d (GhostDir cfg))"
    "shown (uploaded cfg get pers name body d) (GhostDir cfg) pre (h, n) = shown d (GhostDir cfg) pre (h, n)"
proof -
  let ?f = "pers @ ''_'' @ name"
  note names = safe_name(1,2) [OF assms(1,2)]
  have plain: "plain_name ?f" "plain_name (?f @ ''.json'')" using names by simp_all
  have clean: "Clean (in_dir (GhostDir cfg) ?f) = in_dir (GhostDir cfg) ?f"
    "Clean (in_dir (GhostDir cfg) (?f @ ''.json'')) = in_dir (GhostDir cfg) (?f @ ''.json'')"
    by (rule Clean_in_dir, rule plain)+
  have h: "plain_name h" using assms(4) by (simp add: dir_entries_iff)
  have "h \<noteq> ?f @ ''.json''" using assms(6) by (metis suffixI)
  have hj: "plain_name (h @ ''.json'')" "h @ ''.json'' \<noteq> ?f @ ''.json''"
    using h assms(5) by (auto simp: plain_name_def append_eq_Cons_conv)
  have "in_dir (GhostDir cfg) h \<noteq> in_dir (GhostDir cfg) (?f @ ''.json'')" "in_dir (GhostDir cfg) h \<noteq> in_dir (GhostDir cfg) ?f"
    using \<open>h \<noteq> ?f @ ''.json''\<close> assms(5) in_dir_inj [OF h plain(1)] in_dir_inj [OF h plain(2)] by blast+
  with clean show "(h, n) \<in> set (dir_entries d (GhostDir cfg))"
    using assms(4) nodes_put_node(2) unfolding dir_entries_iff uploaded_def Let_def append_assoc by metis
  have ne: "in_dir (GhostDir cfg) (h @ ''.json'') \<noteq> in_dir (GhostDir cfg) (?f @ ''.json'')"
    using in_dir_inj [OF hj(1) plain(2)] hj(2) by simp
  show "shown (uploaded cfg get pers name body d) (GhostDir cfg) pre (h, n) = shown d (GhostDir cfg) pre (h, n)"
  proof (rule shown_cong)
    have "in_dir (GhostDir cfg) (h @ ''.json'') \<noteq> in_dir (GhostDir cfg) ?f"
      using in_dir_inj [OF hj(1) plain(1)] json_suffix [OF assms(7), of pers] by (metis suffixI)
    with ne clean Clean_in_dir [OF hj(1), of "GhostDir cfg"] show "node_at (uploaded cfg get pers name body d) (Join [GhostDir cfg, fst (h, n)] @ ''.json'') =
        node_at d (Join [GhostDir cfg, fst (h, n)] @ ''.json'')"
      by (simp add: Join_in_dir [OF h] in_dir_append uploaded_def Let_def)
  qed (simp_all add: uploaded_def Let_def assms(3))
qed

lemma uploaded_new:
  assumes "safeIdentifier cfg pers" "safeIdentifier cfg name" "io d = []"
    "ascii_entry (upload_entry get pers name body (unix_now d))"
  shows "(pers @ ''_'' @ name, Plain body (unix_now d)) \<in> set (dir_entries (uploaded cfg get pers name body d) (GhostDir cfg))"
    "en_Name (shown (uploaded cfg get pers name body d) (GhostDir cfg) pre (pers @ ''_'' @ name, n)) = name"
    "ReadFile (in_dir (GhostDir cfg) (pers @ ''_'' @ name)) (uploaded cfg get pers name body d) =
       (Ret body, uploaded cfg get pers name body d)"
proof -
  let ?f = "pers @ ''_'' @ name" and ?g = "GhostDir cfg" and ?d2 = "uploaded cfg get pers name body d"
  let ?e = "upload_entry get pers name body (unix_now d)"
  have plain: "plain_name ?f" "plain_name (?f @ ''.json'')" using safe_name(1,2) [OF assms(1,2)] by simp_all
  have clean: "Clean (in_dir ?g ?f) = in_dir ?g ?f" "Clean (in_dir ?g (?f @ ''.json'')) = in_dir ?g (?f @ ''.json'')"
    by (rule Clean_in_dir, rule plain)+
  have "?f \<noteq> ?f @ ''.json''" by simp
  with in_dir_inj [OF plain, of ?g] have ne: "in_dir ?g ?f \<noteq> in_dir ?g (?f @ ''.json'')" by blast
  have at: "node_at ?d2 (in_dir ?g ?f) = Some (Plain body (unix_now d))"
    "node_at ?d2 (in_dir ?g (?f @ ''.json'')) = Some (Plain (marshal_entry ?e) (unix_now d))"
    using ne clean by (simp_all add: uploaded_def Let_def)
  have io: "io ?d2 = []" by (simp add: uploaded_def Let_def assms(3))
  show "(?f, Plain body (unix_now d)) \<in> set (dir_entries ?d2 ?g)"
    using plain(1) ne clean nodes_put_node(1) nodes_put_node_other unfolding dir_entries_iff uploaded_def Let_def by metis
  show "ReadFile (in_dir ?g ?f) ?d2 = (Ret body, ?d2)" by (rule ReadFile_run [OF io at(1)])
  have "Join [?g, ?f] @ ''.json'' = in_dir ?g (?f @ ''.json'')" by (simp add: Join_in_dir [OF plain(1), simplified] in_dir_append)
  with ReadFile_run [OF io at(2)] have "loadMeta (Join [?g, ?f]) ?d2 = (Ret (?e\<lparr>en_path := []\<rparr>), ?d2)"
    by (simp add: loadMeta_def gbind_def unmarshal_marshal [OF assms(4)] gret_def)
  moreover have "name \<noteq> []" using assms(2) by (auto simp: safeIdentifier_def)
  ultimately show "en_Name (shown ?d2 ?g pre (?f, n)) = name"
    by (simp add: shown_def with_meta_def upload_entry_def zero_entry_def Let_def split: prod.split)
qed

text \<open>No other file of the player is shown under the name.\<close>

definition name_free :: "Config \<Rightarrow> string \<Rightarrow> string \<Rightarrow> disk \<Rightarrow> bool" where
  "name_free cfg pers name d \<longleftrightarrow> list_all (\<lambda>f.
     ghost_listed (pers @ ''_'') f \<longrightarrow> fst f \<noteq> pers @ ''_'' @ name \<longrightarrow>
     en_Name (shown d (GhostDir cfg) (pers @ ''_'') f) \<noteq> name) (dir_entries d (GhostDir cfg))"

lemma find_uploaded:
  assumes "safeIdentifier cfg pers" "safeIdentifier cfg name" "io d = []"
    "ascii_entry (upload_entry get pers name body (unix_now d))"
    "\<not> suffix ''.json'' name" "name_free cfg pers name d"
  shows "\<exists>e. findEntryByName (ghost_list (uploaded cfg get pers name body d) (GhostDir cfg) (pers @ ''_'')) name = Some e
    \<and> en_path e = in_dir (GhostDir cfg) (pers @ ''_'' @ name)"
proof -
  let ?f = "pers @ ''_'' @ name" and ?g = "GhostDir cfg" and ?d2 = "uploaded cfg get pers name body d"
  let ?pre = "pers @ ''_''"
  have plain: "plain_name ?f" using safe_name(1) [OF assms(1,2)] by simp
  note new = uploaded_new [OF assms(1-4)]
  have "ghost_listed ?pre (?f, Plain body (unix_now d))"
    using json_suffix [OF assms(5)] by (simp add: ghost_listed_def)
  with new(1) have "shown ?d2 ?g ?pre (?f, Plain body (unix_now d)) \<in> set (ghost_list ?d2 ?g ?pre)"
    by (force simp: ghost_list_def)
  with new(2) [of ?pre] have "\<exists>x \<in> set (ghost_list ?d2 ?g ?pre). en_Name x = name" by blast
  then have "findEntryByName (ghost_list ?d2 ?g ?pre) name \<noteq> None" by (simp add: findEntryByName_def find_None_iff')
  then obtain e where e: "findEntryByName (ghost_list ?d2 ?g ?pre) name = Some e" by blast
  then obtain h n where h: "e = shown ?d2 ?g ?pre (h, n)" "(h, n) \<in> set (dir_entries ?d2 ?g)" "ghost_listed ?pre (h, n)" "en_Name e = name"
    by (auto simp: findEntryByName_def ghost_list_def dest!: find_SomeD)
  have "h = ?f"
  proof (rule ccontr)
    assume ne: "h \<noteq> ?f"
    have "\<not> suffix ''.json'' h" using h(3) by (simp add: ghost_listed_def)
    note other = uploaded_other [OF assms(1-3) h(2) ne this assms(5)]
    with ne h(3) assms(6) have "en_Name (shown d ?g ?pre (h, n)) \<noteq> name"
      unfolding name_free_def list_all_iff by fastforce
    with other(2) h(1,4) show False by simp
  qed
  with e h(1) show ?thesis by (simp add: shown_path Join_in_dir [OF plain, simplified])
qed

text \<open>
  C36. Metadata survives the disk: on a disk where the file can be written, what \<open>saveMeta\<close> saves beside a
  ghost is what \<open>loadMeta\<close> loads, field by field, for all 64-bit numbers and whatever ASCII texts (quotes,
  control characters, markup) the fields have. Only the path, which is not part of the metadata, is lost.
\<close>

theorem saveMeta_loadMeta:
  assumes "ascii_entry e" "io d = []" "is_folder d (Dir (path @ ''.json''))" "\<not> is_folder d (path @ ''.json'')"
  shows "\<exists>d'. saveMeta path e d = (Ret (), d') \<and> loadMeta path d' = (Ret (e\<lparr>en_path := []\<rparr>), d')"
proof -
  let ?d = "put_node (path @ ''.json'') (Plain (marshal_entry e) (unix_now d)) d"
  have "saveMeta path e d = (Ret (), ?d)"
    unfolding saveMeta_def using assms(2-4) by (intro WriteFile_run) simp_all
  moreover have "ReadFile (path @ ''.json'') ?d = (Ret (marshal_entry e), ?d)"
    using assms(2) by (intro ReadFile_run) simp_all
  then have "loadMeta path ?d = (Ret (e\<lparr>en_path := []\<rparr>), ?d)"
    by (simp add: loadMeta_def gbind_def gret_def unmarshal_marshal [OF assms(1)])
  ultimately show ?thesis by blast
qed

theorem saveMeta_loadMeta_witness:
  "\<exists>d'. saveMeta ''data/a_b'' (zero_entry\<lparr>en_Name := ''b'', en_Desc := [CHR 0x22, CHR ''<'', LF, NUL], en_Size := 9, en_path := ''data/a_b''\<rparr>)
      \<lparr>nodes = [(''data'', Folder)], io = [], unix_now = 7\<rparr> = (Ret (), d')
    \<and> loadMeta ''data/a_b'' d' = (Ret (zero_entry\<lparr>en_Name := ''b'', en_Desc := [CHR 0x22, CHR ''<'', LF, NUL], en_Size := 9\<rparr>), d')"
proof -
  have "ascii_entry (zero_entry\<lparr>en_Name := ''b'', en_Desc := [CHR 0x22, CHR ''<'', LF, NUL], en_Size := 9, en_path := ''data/a_b''\<rparr>)"
    "is_folder \<lparr>nodes = [(''data'', Folder)], io = [], unix_now = 7\<rparr> (Dir (''data/a_b'' @ ''.json''))"
    "\<not> is_folder \<lparr>nodes = [(''data'', Folder)], io = [], unix_now = 7\<rparr> (''data/a_b'' @ ''.json'')"
    by code_simp+
  from saveMeta_loadMeta [OF this(1) _ this(2,3)] show ?thesis by (simp add: zero_entry_def)
qed

subsection \<open>Requests for files\<close>

text \<open>A target of the file service: not one of the other pages of the server.\<close>

definition locker_path :: "string \<Rightarrow> bool" where
  "locker_path path \<longleftrightarrow> list_all (\<lambda>c. unreserved c \<or> c = CHR ''/'') path \<and> prefix ''/'' path \<and> \<not> prefix ''//'' path
     \<and> path \<noteq> ''/healthz'' \<and> \<not> contains path ''/easo/editorial'' \<and> \<not> contains path ''/version''"

definition locker_target :: "string \<Rightarrow> string \<Rightarrow> string \<Rightarrow> string \<Rightarrow> (string \<times> string) list \<Rightarrow> string" where
  "locker_target path cmd pers name attrs =
     path @ CHR ''?'' # encode_query ([(''cmd'', cmd), (''pers'', pers), (''name'', name)] @ attrs)"

lemma handleRequest_target:
  assumes "locker_path path"
  shows "handleRequest ok cfg (locker_target path ''put'' pers name attrs) body =
      handle_put cfg (query_get ([(''cmd'', ''put''), (''pers'', pers), (''name'', name)] @ attrs)) pers name body"
    "handleRequest ok cfg (locker_target path ''get'' pers name attrs) body = handle_get cfg pers name"
proof -
  have u: "url_parse ok (locker_target path cmd pers name attrs) =
      Some (path, encode_query ([(''cmd'', cmd), (''pers'', pers), (''name'', name)] @ attrs))" for cmd
    unfolding locker_target_def using assms by (intro url_parse_target) (auto simp: locker_path_def list_all_iff)
  show "handleRequest ok cfg (locker_target path ''put'' pers name attrs) body =
      handle_put cfg (query_get ([(''cmd'', ''put''), (''pers'', pers), (''name'', name)] @ attrs)) pers name body"
    "handleRequest ok cfg (locker_target path ''get'' pers name attrs) body = handle_get cfg pers name"
    using assms unfolding handleRequest_def u option.case prod.case parse_encode_query
    by (simp_all add: Let_def locker_path_def query_get_def)
qed

lemma uploaded_folder:
  assumes "safeIdentifier cfg pers" "safeIdentifier cfg name" "is_folder d (GhostDir cfg)"
  shows "is_folder (uploaded cfg get pers name body d) (GhostDir cfg)"
proof -
  have plain: "plain_name (pers @ ''_'' @ name)" "plain_name ((pers @ ''_'' @ name) @ ''.json'')"
    using safe_name(1,2) [OF assms(1,2)] by simp_all
  from in_dir_neq [OF plain(1), of "GhostDir cfg"] in_dir_neq [OF plain(2), of "GhostDir cfg"]
    Clean_in_dir [OF plain(1), of "GhostDir cfg"] Clean_in_dir [OF plain(2), of "GhostDir cfg"] assms(3)
  show ?thesis unfolding is_folder_def uploaded_def Let_def append_assoc put_node_simps by auto
qed

lemma handle_get_run:
  assumes "safeIdentifier cfg pers" "safeIdentifier cfg name" "findGhostEntry cfg pers name s = (Ret (Some e), s)"
    "ReadFile (en_path e) (lk_disk s) = (Ret data, lk_disk s)"
  shows "handle_get cfg pers name s = (Ret (200, data, ''application/octet-stream''), s)"
  using assms by (simp add: handle_get_def gtry_def gret_def on_disk_def)

lemma file_id_range: "int64_range (file_id x)"
proof -
  have "crc32 x AND 2147483647 \<le> 2147483647" by (rule word_and_le1)
  then have "file_id x \<le> 2147483647" by (simp add: file_id_def word_le_def)
  moreover have "0 \<le> file_id x" by (simp add: file_id_def)
  ultimately show ?thesis by (simp add: int64_range_def min_int64_def max_int64_def)
qed

text \<open>
  C14. A file that was uploaded is what the player gets back, byte for byte, when disk and database
  work: for checked identifiers and a body within the limit, a \<open>put\<close> request answers with the listing of
  the one new file, and a following \<open>get\<close> of the same player and name answers with exactly the body.
  It needs that the name does not end in \<open>.json\<close> (such a file is never listed), that no other file of the
  player is shown under the name, that the other attributes are ASCII, and that the log is not a file
  in the ghost directory itself.
\<close>

theorem upload_download:
  assumes "locker_path path" "upload_possible cfg pers name body (lk_disk s) made" "name_free cfg pers name made"
    "faults (lk_db s) = []" "int64_range (unix_now (lk_disk s))" "int64_range (MaxUploadBytes cfg)"
    "list_all (\<lambda>kv. ascii (snd kv)) attrs" "\<not> suffix ''.json'' name" "log_elsewhere cfg (lk_log s)"
  shows "\<exists>e s'. handleRequest ok cfg (locker_target path ''put'' pers name attrs) body s = (Ret (xml_reply (BuildXML [e] [] [])), s')
    \<and> en_Name e = name \<and> en_Size e = int (length body)
    \<and> handleRequest ok cfg (locker_target path ''get'' pers name []) [] s' = (Ret (200, body, ''application/octet-stream''), s')"
proof -
  define get where "get = query_get ([(''cmd'', ''put''), (''pers'', pers), (''name'', name)] @ attrs)"
  let ?e = "upload_entry get pers name body (unix_now made)" and ?d2 = "uploaded cfg get pers name body made"
  define d3 where "d3 = logged (lk_log s) (''Saved ghost: '' @ in_dir (GhostDir cfg) (pers @ ''_'' @ name)) ?d2"
  let ?s = "s\<lparr>lk_disk := d3\<rparr>"
  have safe: "safeIdentifier cfg pers" "safeIdentifier cfg name" and io: "io (lk_disk s) = []"
    and mk: "MkdirAll (GhostDir cfg) (lk_disk s) = (Ret (), made)" and max: "int (length body) \<le> MaxUploadBytes cfg"
    using assms(2) by (simp_all add: upload_possible_def)
  note d1 = MkdirAll_run [OF io mk]
  have "ascii (get k)" if "k \<notin> {''cmd'', ''pers'', ''name''}" for k
  proof (cases "map_of attrs k")
    case None
    with that show ?thesis by (simp add: get_def query_get_def ascii_def)
  next
    case (Some v)
    then have "ascii v" using assms(7) map_of_SomeD [OF Some] by (auto simp: list_all_iff)
    with Some that show ?thesis by (simp add: get_def query_get_def)
  qed
  moreover have "int64_range (int (length body))" using max assms(6) by (simp add: int64_range_def min_int64_def)
  ultimately have ok: "ascii_entry ?e"
    using safe_name(4) [OF safe] assms(5) d1(3) atoi_value_range file_id_range
    by (simp add: ascii_entry_def upload_entry_def zero_entry_def)
  have put: "handleRequest ok cfg (locker_target path ''put'' pers name attrs) body s = (Ret (xml_reply (BuildXML [?e] [] [])), ?s)"
    unfolding handleRequest_target(1) [OF assms(1)] get_def [symmetric] d1(3) d3_def by (rule handle_put_run [OF assms(2)])
  obtain e where e: "findEntryByName (ghost_list ?d2 (GhostDir cfg) (pers @ ''_'')) name = Some e"
      "en_path e = in_dir (GhostDir cfg) (pers @ ''_'' @ name)"
    using find_uploaded [OF safe d1(2) ok assms(8,3)] by blast
  have "pers \<noteq> []" using safe by (auto simp: safeIdentifier_def)
  have io2: "io ?d2 = []" using d1(2) by (simp add: uploaded_def Let_def)
  note rest = logged_rest [OF io2, of "lk_log s" "''Saved ghost: '' @ in_dir (GhostDir cfg) (pers @ ''_'' @ name)", folded d3_def]
    logged_list [OF io2 assms(9), of "''Saved ghost: '' @ in_dir (GhostDir cfg) (pers @ ''_'' @ name)", folded d3_def]
  have found: "findGhostEntry cfg pers name ?s = (Ret (Some e), ?s)"
    using uploaded_folder [OF safe d1(1)] e(1) assms(4) \<open>pers \<noteq> []\<close> rest by (intro findGhostEntry_quiet) simp_all
  have "ReadFile (in_dir (GhostDir cfg) (pers @ ''_'' @ name)) d3 = (Ret body, d3)"
    using logged_node [OF io2 assms(9) safe_name(1) [OF safe], of "''Saved ghost: '' @ in_dir (GhostDir cfg) (pers @ ''_'' @ name)", folded d3_def]
      uploaded_new(3) [OF safe d1(2) ok] rest(1) io2
    by (auto simp: ReadFile_def split: option.splits fnode.splits)
  then have "ReadFile (en_path e) (lk_disk ?s) = (Ret body, lk_disk ?s)" by (simp add: e(2))
  then have "handle_get cfg pers name ?s = (Ret (200, body, ''application/octet-stream''), ?s)"
    using handle_get_run [OF safe found, of body] by simp
  with put show ?thesis
    by (intro exI [of _ ?e] exI [of _ ?s]) (simp add: handleRequest_target [OF assms(1)] upload_entry_def zero_entry_def)
qed

definition fresh_locker :: locker_state where
  "fresh_locker = \<lparr>lk_db = empty_world, lk_disk = \<lparr>nodes = [(''data/ghosts/Celeste_old'', Plain ''x'' 5)], io = [], unix_now = 7\<rparr>, lk_log = sample_log\<rparr>"

definition fresh_ghosts :: disk where
  "fresh_ghosts = lk_disk fresh_locker\<lparr>nodes := [(''data/ghosts/Celeste_old'', Plain ''x'' 5), (''data'', Folder), (''data/ghosts'', Folder)]\<rparr>"

theorem upload_download_witness:
  "\<exists>e s'. handleRequest (\<lambda>_. False) (defaults\<lparr>GhostDir := ''data/ghosts''\<rparr>)
      (locker_target ''/easo/locker'' ''put'' ''Celeste'' ''tdttghost_7'' [(''game'', ''MEPC'')]) [CHR 0xFF, NUL, CHR 0x0A] fresh_locker
      = (Ret (xml_reply (BuildXML [e] [] [])), s') \<and> en_Name e = ''tdttghost_7'' \<and> en_Size e = int (length [CHR 0xFF, NUL, CHR 0x0A])
    \<and> handleRequest (\<lambda>_. False) (defaults\<lparr>GhostDir := ''data/ghosts''\<rparr>)
      (locker_target ''/easo/locker'' ''get'' ''Celeste'' ''tdttghost_7'' []) [] s' =
      (Ret (200, [CHR 0xFF, NUL, CHR 0x0A], ''application/octet-stream''), s')"
proof (rule upload_download [where made = fresh_ghosts])
  show "locker_path ''/easo/locker''" by code_simp
  show "upload_possible (defaults\<lparr>GhostDir := ''data/ghosts''\<rparr>) ''Celeste'' ''tdttghost_7'' [CHR 0xFF, NUL, CHR 0x0A]
      (lk_disk fresh_locker) fresh_ghosts"
    by code_simp
  have "dir_entries fresh_ghosts ''data/ghosts'' = [(''Celeste_old'', Plain ''x'' 5)]"
    "fst (loadMeta (Join [''data/ghosts'', ''Celeste_old'']) fresh_ghosts) = Fail ErrNotExist"
    "ghost_name (''Celeste'' @ ''_'') ''Celeste_old'' = ''old''"
    by code_simp+
  then show "name_free (defaults\<lparr>GhostDir := ''data/ghosts''\<rparr>) ''Celeste'' ''tdttghost_7'' fresh_ghosts"
    by (simp add: name_free_def shown_def Let_def)
  show "faults (lk_db fresh_locker) = []" by (simp add: fresh_locker_def empty_world_def)
  show "int64_range (unix_now (lk_disk fresh_locker))" "int64_range (MaxUploadBytes (defaults\<lparr>GhostDir := ''data/ghosts''\<rparr>))"
    by code_simp+
  show "log_elsewhere (defaults\<lparr>GhostDir := ''data/ghosts''\<rparr>) (lk_log fresh_locker)" by code_simp
qed (simp_all add: ascii_def ord_def suffix_def)

subsection \<open>What a request may read\<close>

text \<open>A server with one ghost on its disk.\<close>

definition ghost_config :: Config where
  "ghost_config = defaults\<lparr>GhostDir := ''data/ghosts''\<rparr>"

definition stocked_locker :: locker_state where
  "stocked_locker = \<lparr>lk_db = empty_world, lk_disk = \<lparr>nodes = [(''data'', Folder), (''data/ghosts'', Folder),
     (''data/ghosts/Celeste_old'', Plain ''lap'' 5)], io = [], unix_now = 7\<rparr>, lk_log = sample_log\<rparr>"

definition stocked_entry :: Entry where
  "stocked_entry = shown (lk_disk stocked_locker) ''data/ghosts'' ''Celeste_'' (''Celeste_old'', Plain ''lap'' 5)"

lemma stocked_quiet:
  "io (lk_disk stocked_locker) = []" "faults (lk_db stocked_locker) = []"
  "is_folder (lk_disk stocked_locker) (GhostDir ghost_config)" "safeIdentifier ghost_config ''Celeste''"
  by (simp add: stocked_locker_def, simp add: stocked_locker_def empty_world_def, code_simp, code_simp)

lemma stocked_path: "en_path stocked_entry = ''data/ghosts/Celeste_old''"
proof -
  have "Join [''data/ghosts'', ''Celeste_old''] = ''data/ghosts/Celeste_old''" by code_simp
  then show ?thesis by (simp add: stocked_entry_def shown_path)
qed

lemma stocked_list:
  "ghost_list (lk_disk stocked_locker) (GhostDir ghost_config) (''Celeste'' @ ''_'') = [stocked_entry]"
  "en_Name stocked_entry = ''old''"
proof -
  have e: "dir_entries (lk_disk stocked_locker) ''data/ghosts'' = [(''Celeste_old'', Plain ''lap'' 5)]"
    "fst (loadMeta (Join [''data/ghosts'', ''Celeste_old'']) (lk_disk stocked_locker)) = Fail ErrNotExist"
    "ghost_name ''Celeste_'' ''Celeste_old'' = ''old''" "ghost_listed ''Celeste_'' (''Celeste_old'', Plain ''lap'' 5)"
    by code_simp+
  then show "en_Name stocked_entry = ''old''" by (simp add: stocked_entry_def shown_def Let_def)
  show "ghost_list (lk_disk stocked_locker) (GhostDir ghost_config) (''Celeste'' @ ''_'') = [stocked_entry]"
    using e by (simp add: ghost_list_def ghost_config_def stocked_entry_def)
qed

text \<open>
  C13. The file server hands out nothing but ghosts: a download that answers 200 is the content of a
  file that lies right inside the ghost directory and is no metadata file, whatever the target of the
  request was and whatever names the metadata files on the disk contain.
\<close>

theorem download_confined:
  assumes "handleRequest authority_ok cfg target body s = (Ret (200, data, ''application/octet-stream''), s')"
  shows "\<exists>f t. plain_name f \<and> \<not> suffix ''.json'' f \<and> node_at (lk_disk s) (in_dir (GhostDir cfg) f) = Some (Plain data t)"
proof -
  from assms obtain pers name where "handle_get cfg pers name s = (Ret (200, data, ''application/octet-stream''), s')"
    by (auto simp: handleRequest_def handle_dir_def handle_nfo_def handle_put_def Let_def gret_def gtry_def gbind_def gget_def
        log_write_run xml_reply_def locker_error_def split: if_splits prod.splits outcome.splits option.splits)
  then show ?thesis by (rule handle_get_file)
qed

theorem download_confined_witness:
  "\<exists>f t. plain_name f \<and> \<not> suffix ''.json'' f \<and>
     node_at (lk_disk stocked_locker) (in_dir (GhostDir ghost_config) f) = Some (Plain ''lap'' t)"
proof (rule download_confined)
  have "handle_get ghost_config ''Celeste'' ''old'' stocked_locker = (Ret (200, ''lap'', ''application/octet-stream''), stocked_locker)"
  proof (rule handle_get_run)
    show "findGhostEntry ghost_config ''Celeste'' ''old'' stocked_locker = (Ret (Some stocked_entry), stocked_locker)"
      using stocked_list by (intro findGhostEntry_quiet) (simp_all add: findEntryByName_def stocked_quiet)
    show "ReadFile (en_path stocked_entry) (lk_disk stocked_locker) = (Ret ''lap'', lk_disk stocked_locker)"
      unfolding stocked_path by code_simp
  qed (code_simp)+
  moreover have "locker_path ''/easo/locker''" by code_simp
  ultimately show "handleRequest (\<lambda>_. False) ghost_config (locker_target ''/easo/locker'' ''get'' ''Celeste'' ''old'' []) [] stocked_locker
      = (Ret (200, ''lap'', ''application/octet-stream''), stocked_locker)"
    by (simp add: handleRequest_target)
qed

end
