(* ===== verification/Locker_Listing.thy ===== *)
theory Locker_Listing
  imports Locker_Files
begin

text \<open>
  The listing of a player's ghosts when file system and database work: which files it holds, in which
  order, what it says of each, and which other names it adds.
\<close>

subsection \<open>The player's files\<close>

definition own_files :: "disk \<Rightarrow> string \<Rightarrow> string \<Rightarrow> string set" where
  "own_files d g pers = {f. plain_name f \<and> prefix (pers @ ''_'') f \<and> \<not> suffix ''.json'' f
     \<and> (\<exists>c t. node_at d (in_dir g f) = Some (Plain c t))}"

text \<open>The metadata beside a file, if it is there and can be read.\<close>

definition stored_meta :: "disk \<Rightarrow> string \<Rightarrow> string \<Rightarrow> Entry option" where
  "stored_meta d g f = (case node_at d (in_dir g (f @ ''.json'')) of Some (Plain c _) \<Rightarrow> unmarshal_entry c | _ \<Rightarrow> None)"

text \<open>
  What is said of the file \<open>f\<close>: the metadata, with the name, the game, the date and the id filled in where
  they are blank, and always with the size of the file itself.
\<close>

definition own_entry :: "disk \<Rightarrow> string \<Rightarrow> string \<Rightarrow> string \<Rightarrow> Entry \<Rightarrow> bool" where
  "own_entry d g pers f e \<longleftrightarrow> (\<exists>c t. node_at d (in_dir g f) = Some (Plain c t) \<and>
     (let m = (case stored_meta d g f of None \<Rightarrow> zero_entry | Some m \<Rightarrow> m) in
      e = m\<lparr>en_Name := (if en_Name m = [] then drop (length pers + 1) f else en_Name m),
        en_Game := (if en_Game m = [] then ''MEPC'' else en_Game m),
        en_Date := (if en_Date m = 0 then t else en_Date m),
        en_FileID := (if en_FileID m = 0 then file_id f else en_FileID m),
        en_Size := int (length c), en_path := in_dir g f\<rparr>))"

lemma dir_entries_sorted: "sorted (map fst (dir_entries d g))"
  by (simp add: dir_entries_def)

lemma shown_own:
  assumes "io d = []" "plain_name f" "prefix (pers @ ''_'') f" "node_at d (in_dir g f) = Some (Plain c t)"
  shows "own_entry d g pers f (shown d g (pers @ ''_'') (f, Plain c t))"
proof -
  have "Join [g, f] = in_dir g f" "Join [g, f] @ ''.json'' = in_dir g (f @ ''.json'')"
    using assms(2) by (simp_all add: Join_in_dir in_dir_append)
  moreover have "fst (loadMeta (Join [g, f]) d) = (case stored_meta d g f of None \<Rightarrow>
      (if node_at d (in_dir g (f @ ''.json'')) = None then Fail ErrNotExist else Fail ErrIO) | Some m \<Rightarrow> Ret m)"
    unfolding loadMeta_def calculation(2) using assms(1)
    by (auto simp: gbind_def ReadFile_def gfail_def gret_def stored_meta_def split: option.split fnode.split)
  ultimately show ?thesis
    unfolding own_entry_def using assms(4)
    by (intro exI [of _ c] exI [of _ t])
      (auto simp: shown_def with_meta_def ghost_name_def zero_entry_def Let_def split: option.split)
qed

lemma ghost_list_own:
  assumes "io d = []" "distinct (map fst (nodes d))"
  shows "\<exists>fs. sorted fs \<and> distinct fs \<and> set fs = own_files d g pers
    \<and> list_all2 (own_entry d g pers) fs (ghost_list d g (pers @ ''_''))"
proof -
  let ?pre = "pers @ ''_''"
  let ?E = "filter (ghost_listed ?pre) (dir_entries d g)"
  have node: "node_at d (in_dir g f) = Some n \<longleftrightarrow> (f, n) \<in> set (dir_entries d g)" if "plain_name f" for f n
    using that assms(2) by (simp add: dir_entries_iff node_at_def Clean_in_dir)
  have E: "(f, n) \<in> set ?E \<longleftrightarrow> plain_name f \<and> prefix ?pre f \<and> \<not> suffix ''.json'' f \<and> n \<noteq> Folder \<and> node_at d (in_dir g f) = Some n" for f n
    using node [of f n] by (auto simp: ghost_listed_def dir_entries_iff)
  have "sorted (map fst ?E)" "distinct (map fst ?E)"
    using dir_entries_sorted [of d g] dir_entries_distinct [OF assms(2), of g]
    by (simp_all add: sorted_filter distinct_map_filter)
  moreover have "f \<in> set (map fst ?E) \<longleftrightarrow> f \<in> own_files d g pers" for f
  proof -
    have "f \<in> set (map fst ?E) \<longleftrightarrow> (\<exists>n. (f, n) \<in> set ?E)" by force
    also have "\<dots> \<longleftrightarrow> f \<in> own_files d g pers" unfolding E own_files_def by (auto, metis fnode.exhaust)
    finally show ?thesis .
  qed
  moreover have "own_entry d g pers (fst x) (shown d g ?pre x)" if "x \<in> set ?E" for x
  proof -
    obtain f n where x: "x = (f, n)" by (cases x)
    with that E [of f n] shown_own [OF assms(1), of f pers g] show ?thesis by (cases n) auto
  qed
  then have "list_all2 (own_entry d g pers) (map fst ?E) (ghost_list d g ?pre)"
    by (simp add: ghost_list_def list_all2_map1 list_all2_map2 list_all2_same)
  ultimately show ?thesis by blast
qed

subsection \<open>Other names\<close>

text \<open>The other names of the entries: one for each stretch that the database has the tag of.\<close>

definition aliases :: "(int \<times> int) list \<Rightarrow> Entry list \<Rightarrow> Entry set" where
  "aliases m es = {e\<lparr>en_Name := alias_name st\<rparr> | e st. e \<in> set es \<and>
     (\<exists>tag. ghost_tag (en_Name e) = Some tag \<and> st \<in> set (tag_stretches m tag))}"

text \<open>\<open>al\<close> adds to \<open>out\<close> one entry of \<open>A\<close> for each name in \<open>A\<close> that is new.\<close>

definition adds :: "Entry list \<Rightarrow> Entry set \<Rightarrow> Entry list \<Rightarrow> bool" where
  "adds out A al \<longleftrightarrow> distinct (map en_Name al) \<and> set al \<subseteq> A \<and> en_Name ` set al = en_Name ` A - en_Name ` set out"

lemma adds_append:
  assumes "adds out A al" "adds (out @ al) B bl"
  shows "adds out (A \<union> B) (al @ bl)"
  using assms unfolding adds_def by auto

lemma adds_alias: "\<exists>al. add_alias e out st = out @ al \<and> adds out {e\<lparr>en_Name := alias_name st\<rparr>} al"
  by (auto simp: add_alias_def adds_def)

lemma adds_ids: "\<exists>al. foldl (add_alias e) out ids = out @ al \<and> adds out ((\<lambda>st. e\<lparr>en_Name := alias_name st\<rparr>) ` set ids) al"
proof (induction ids arbitrary: out)
  case (Cons st ids)
  obtain al where al: "add_alias e out st = out @ al" "adds out {e\<lparr>en_Name := alias_name st\<rparr>} al" using adds_alias by blast
  obtain bl where bl: "foldl (add_alias e) (out @ al) ids = (out @ al) @ bl"
    "adds (out @ al) ((\<lambda>st. e\<lparr>en_Name := alias_name st\<rparr>) ` set ids) bl" using Cons by blast
  from adds_append [OF al(2) bl(2)] al(1) bl(1) show ?case by (intro exI [of _ "al @ bl"]) simp
qed (simp add: adds_def)

lemma adds_entries: "\<exists>al. foldl (add_aliases m) out es = out @ al \<and> adds out (aliases m es) al"
proof (induction es arbitrary: out)
  case (Cons e es)
  obtain al where al: "add_aliases m out e = out @ al" "adds out (aliases m [e]) al"
  proof (cases "ghost_tag (en_Name e)")
    case None
    with that [of "[]"] show ?thesis by (simp add: add_aliases_def aliases_def adds_def)
  next
    case (Some tag)
    then have "aliases m [e] = (\<lambda>st. e\<lparr>en_Name := alias_name st\<rparr>) ` set (tag_stretches m tag)" by (auto simp: aliases_def)
    with Some that adds_ids [of e out "tag_stretches m tag"] show ?thesis by (auto simp: add_aliases_def)
  qed
  obtain bl where bl: "foldl (add_aliases m) (out @ al) es = (out @ al) @ bl" "adds (out @ al) (aliases m es) bl" using Cons by blast
  have "aliases m (e # es) = aliases m [e] \<union> aliases m es" by (auto simp: aliases_def)
  with adds_append [OF al(2) bl(2)] al(1) bl(1) show ?case by (intro exI [of _ "al @ bl"]) simp
qed (simp add: adds_def aliases_def)

lemma ghostEntries_adds:
  assumes "io (lk_disk s) = []" "faults (lk_db s) = []" "is_folder (lk_disk s) (GhostDir cfg)" "pers \<noteq> []"
    "GhostTagToStretches (lk_db s) = (Ret m, lk_db s)"
  defines "own \<equiv> ghost_list (lk_disk s) (GhostDir cfg) (pers @ ''_'')"
  shows "\<exists>al. ghostEntries cfg pers s = (Ret (own @ al), s) \<and> adds own (aliases m own) al"
proof -
  obtain al where al: "foldl (add_aliases m) own own = own @ al" "adds own (aliases m own) al" using adds_entries by blast
  have none: "al = []" if "m = []"
    using al(2) that by (auto simp: adds_def aliases_def tag_stretches_def)
  have "ghostEntries cfg pers s = (Ret (own @ al), s)"
    using collectGhostEntries_quiet [OF assms(1,3), of "pers @ ''_''"] assms(4,5) al(1) none
    by (simp add: ghostEntries_def withStretchAliases_def gbind_def gret_def on_disk_def on_world_def own_def)
  with al(2) show ?thesis by blast
qed

subsection \<open>The answer\<close>

text \<open>
  C35. The listing that a \<open>dir\<close> request answers with is exactly the player's, while file system and database
  work: in the order of their names it has one entry for each file in the ghost directory whose name
  starts with the player's identifier and an underscore and does not end in \<open>.json\<close>, and for no other file, with
  the file's own size and the metadata stored beside it; then, once each, the names of further stretches that
  the database has an entry's tag for, unless an entry has that name; and of all this the first
  150. The request changes nothing but the log.
\<close>

theorem dir_listing:
  assumes "safeIdentifier cfg pers" "io (lk_disk s) = []" "faults (lk_db s) = []" "is_folder (lk_disk s) (GhostDir cfg)"
    "distinct (map fst (nodes (lk_disk s)))"
  shows "\<exists>fs own m al s'.
      sorted fs \<and> distinct fs \<and> set fs = own_files (lk_disk s) (GhostDir cfg) pers
    \<and> list_all2 (own_entry (lk_disk s) (GhostDir cfg) pers) fs own
    \<and> GhostTagToStretches (lk_db s) = (Ret m, lk_db s) \<and> adds own (aliases m own) al
    \<and> handle_dir cfg game pers s = (Ret (xml_reply (BuildXML (take 150 (own @ al)) game pers)), s')
    \<and> lk_db s' = lk_db s \<and> serves (\<lambda>_. False) (\<lambda>_. False) (lk_log s) (lk_disk s) (lk_disk s')"
proof -
  let ?own = "ghost_list (lk_disk s) (GhostDir cfg) (pers @ ''_'')"
  obtain fs where fs: "sorted fs" "distinct fs" "set fs = own_files (lk_disk s) (GhostDir cfg) pers"
    "list_all2 (own_entry (lk_disk s) (GhostDir cfg) pers) fs ?own"
    using ghost_list_own [OF assms(2,5)] by blast
  obtain m where m: "GhostTagToStretches (lk_db s) = (Ret m, lk_db s)"
    using assms(3) by (simp add: GhostTagToStretches_def query_ok)
  have "pers \<noteq> []" using assms(1) by (auto simp: safeIdentifier_def)
  from ghostEntries_adds [OF assms(2-4) this m] obtain al where
    al: "ghostEntries cfg pers s = (Ret (?own @ al), s)" "adds ?own (aliases m ?own) al" by blast
  have cap: "capLockerList es = take 150 es" for es by (simp add: capLockerList_def lockerListMaxEntries_def)
  obtain msg where "handle_dir cfg game pers s = (Ret (xml_reply (BuildXML (take 150 (?own @ al)) game pers)),
      s\<lparr>lk_disk := logged (lk_log s) msg (lk_disk s)\<rparr>)"
    using assms(1) al(1) by (simp add: handle_dir_def gtry_def gbind_def gret_def log_write_run cap Let_def)
  then show ?thesis
    using fs m al(2) logged_serves by (intro exI conjI) (assumption | simp)+
qed

text \<open>A directory with a ghost of the player, its metadata, and a ghost of somebody else.\<close>

definition shared_locker :: locker_state where
  "shared_locker = stocked_locker\<lparr>lk_disk := \<lparr>nodes = [(''data/ghosts/Kate_old'', Plain ''run'' 6), (''data'', Folder), (''data/ghosts'', Folder),
     (''data/ghosts/Celeste_old.json'', Plain ''?'' 5), (''data/ghosts/Celeste_old'', Plain ''lap'' 5)], io = [], unix_now = 7\<rparr>\<rparr>"

definition only_ghost :: Entry where
  "only_ghost = zero_entry\<lparr>en_Name := ''old'', en_Game := ''MEPC'', en_Date := 5, en_FileID := file_id ''Celeste_old'', en_Size := 3,
     en_path := ''data/ghosts/Celeste_old''\<rparr>"

lemma shared_disk:
  "own_files (lk_disk shared_locker) (GhostDir ghost_config) ''Celeste'' = {''Celeste_old''}"
  "own_entry (lk_disk shared_locker) (GhostDir ghost_config) ''Celeste'' ''Celeste_old'' e \<Longrightarrow> e = only_ghost"
proof -
  have g: "GhostDir ghost_config = ''data/ghosts''" by (simp add: ghost_config_def)
  have "clean_parts (IsAbs ''data/ghosts'') (split_char slash ''data/ghosts'') = [''data'', ''ghosts'']" "\<not> IsAbs ''data/ghosts''" by code_simp+
  then have dir: "in_dir ''data/ghosts'' f = ''data/ghosts/'' @ f" for f by (simp add: in_dir_def)
  have node: "node_at (lk_disk shared_locker) (in_dir ''data/ghosts'' f) =
      (if f = ''Kate_old'' then Some (Plain ''run'' 6) else if f = ''Celeste_old.json'' then Some (Plain ''?'' 5)
       else if f = ''Celeste_old'' then Some (Plain ''lap'' 5) else None)" if "plain_name f" for f
  proof -
    have "f \<noteq> []" using that by (simp add: plain_name_def)
    then show ?thesis
      using Clean_in_dir [OF that, of "''data/ghosts''"] by (simp add: node_at_def dir shared_locker_def)
  qed
  have plain: "plain_name ''Celeste_old''" "plain_name ''Celeste_old.json''" by code_simp+
  have "suffix ''.json'' ''Celeste_old.json''" "\<not> suffix ''.json'' ''Celeste_old''" by code_simp+
  then show "own_files (lk_disk shared_locker) (GhostDir ghost_config) ''Celeste'' = {''Celeste_old''}"
    using plain(1) by (auto simp: own_files_def g node split: if_splits)
  have "unmarshal_entry ''?'' = None" by code_simp
  then have "stored_meta (lk_disk shared_locker) ''data/ghosts'' ''Celeste_old'' = None"
    using plain(2) by (simp add: stored_meta_def node)
  moreover have "node_at (lk_disk shared_locker) (in_dir ''data/ghosts'' ''Celeste_old'') = Some (Plain ''lap'' 5)"
    using plain(1) by (simp add: node)
  ultimately show "own_entry (lk_disk shared_locker) (GhostDir ghost_config) ''Celeste'' ''Celeste_old'' e \<Longrightarrow> e = only_ghost"
    unfolding own_entry_def g Let_def by (auto simp: only_ghost_def zero_entry_def dir [of "''Celeste_old''"])
qed

theorem dir_listing_witness:
  "\<exists>s'. handle_dir ghost_config ''MEPC'' ''Celeste'' shared_locker = (Ret (xml_reply (BuildXML [only_ghost] ''MEPC'' ''Celeste'')), s')"
proof -
  have quiet: "safeIdentifier ghost_config ''Celeste''" "io (lk_disk shared_locker) = []" "faults (lk_db shared_locker) = []"
    "is_folder (lk_disk shared_locker) (GhostDir ghost_config)" "distinct (map fst (nodes (lk_disk shared_locker)))"
    by (code_simp, simp add: shared_locker_def, simp add: shared_locker_def stocked_locker_def empty_world_def, code_simp, code_simp)
  obtain fs own m al s' where r: "sorted fs \<and> distinct fs" "set fs = own_files (lk_disk shared_locker) (GhostDir ghost_config) ''Celeste''"
    "list_all2 (own_entry (lk_disk shared_locker) (GhostDir ghost_config) ''Celeste'') fs own"
    "GhostTagToStretches (lk_db shared_locker) = (Ret m, lk_db shared_locker)" "adds own (aliases m own) al"
    "handle_dir ghost_config ''MEPC'' ''Celeste'' shared_locker = (Ret (xml_reply (BuildXML (take 150 (own @ al)) ''MEPC'' ''Celeste'')), s')"
    using dir_listing [OF quiet, of "''MEPC''"] by blast
  have "fs = [''Celeste_old'']" using r(1,2) by (intro sorted_distinct_set_unique) (simp_all add: shared_disk(1))
  with r(3) obtain e where "own = [e]" "own_entry (lk_disk shared_locker) (GhostDir ghost_config) ''Celeste'' ''Celeste_old'' e"
    by (auto simp: list_all2_Cons1)
  then have own: "own = [only_ghost]" using shared_disk(2) by blast
  have "m = []" using r(4) by (simp add: GhostTagToStretches_def query_def stmt_def shared_locker_def stocked_locker_def empty_world_def permute_def)
  with r(5) have "al = []" by (auto simp: adds_def aliases_def tag_stretches_def)
  with own r(6) show ?thesis by simp
qed

end
