(* ===== verification/Locker_Answers.thy ===== *)
theory Locker_Answers
  imports Locker
begin

text \<open>
  Requests and responses of a whole HTTP connection: which requests stop it, and that every other one
  is answered.
\<close>

subsection \<open>Which requests stop the server\<close>

text \<open>A complete header with a request line, and the length it announces.\<close>

definition announced :: "string \<Rightarrow> (nat \<times> int) option" where
  "announced data = (case index_of (CRLF @ CRLF) data of
      None \<Rightarrow> None
    | Some idx \<Rightarrow>
        (let lines = split_str CRLF (take idx data) in
         if length (split_n 3 (CHR '' '') (hd lines)) < 2 then None
         else Some (idx + 4, atoi_value (mget (foldl header_line Map.empty (tl lines)) ''content-length''))))"

lemma i64_wraps:
  assumes "9223372036854775807 < x" "x < 18446744073709551616"
  shows "i64 x = x - 18446744073709551616"
proof -
  have "(x + 9223372036854775808) mod 18446744073709551616 = (x + 9223372036854775808 - 18446744073709551616) mod 18446744073709551616"
    by (simp only: minus_mod_self2)
  also have "\<dots> = x + 9223372036854775808 - 18446744073709551616"
    using assms by (intro mod_pos_pos_trivial) auto
  finally show ?thesis by (simp add: i64_def)
qed

text \<open>
  C21. The parser of the HTTP server panics, which ends the process with all its connections, exactly
  when a complete header announces a body of negative length, or one so long that adding it to the
  length of the header overflows. No other input does it.
\<close>

theorem parseHTTPRequest_panics_exactly:
  assumes "length data < 9223372036854775808"
  shows "parseHTTPRequest data = Inl () \<longleftrightarrow>
    (\<exists>h n. announced data = Some (h, n) \<and> (n < 0 \<or> 9223372036854775807 < int h + n))"
proof (cases "announced data")
  case None
  then show ?thesis by (auto simp: announced_def parseHTTPRequest_def Let_def split: option.splits if_splits)
next
  case (Some hn)
  obtain h n where hn: "hn = (h, n)" by (cases hn)
  from Some hn obtain idx where idx: "index_of (CRLF @ CRLF) data = Some idx" "h = idx + 4"
    by (auto simp: announced_def Let_def split: option.splits if_splits)
  from index_of_SomeD [OF idx(1)] have h: "h \<le> length data" by (auto simp: idx(2) CRLF_def)
  have n: "int64_range n" using Some hn idx atoi_value_range
    by (auto simp: announced_def Let_def split: option.splits if_splits)
  have "parseHTTPRequest data = Inl () \<longleftrightarrow> \<not> int (length data) < i64 (int h + n) \<and> i64 (int h + n) < int h"
    using Some hn idx by (auto simp: announced_def parseHTTPRequest_def cut_request_def Let_def split: if_splits)
  moreover have "i64 (int h + n) < int h \<longleftrightarrow> n < 0 \<or> 9223372036854775807 < int h + n"
  proof -
    have hb: "int h < 9223372036854775808" using h assms by linarith
    consider "int64_range (int h + n)" | "9223372036854775807 < int h + n"
      using n hb unfolding int64_range_def min_int64_def max_int64_def by linarith
    then show ?thesis
    proof cases
      case 1
      then show ?thesis by (simp add: i64_id) (auto simp: int64_range_def max_int64_def)
    next
      case 2
      then have "i64 (int h + n) = int h + n - 18446744073709551616"
        using n hb by (intro i64_wraps) (simp_all add: int64_range_def max_int64_def)
      with 2 n hb show ?thesis by (simp add: int64_range_def max_int64_def)
    qed
  qed
  ultimately show ?thesis using Some hn h by auto
qed

theorem parseHTTPRequest_panics_exactly_witness:
  "parseHTTPRequest (''GET / HTTP/1.1'' @ CRLF @ ''Content-Length: -1'' @ CRLF @ CRLF) = Inl () \<longleftrightarrow>
    (\<exists>h n. announced (''GET / HTTP/1.1'' @ CRLF @ ''Content-Length: -1'' @ CRLF @ CRLF) = Some (h, n)
      \<and> (n < 0 \<or> 9223372036854775807 < int h + n))"
  by (rule parseHTTPRequest_panics_exactly) (simp add: CRLF_def)

lemma negative_length_panics:
  "parseHTTPRequest (''GET / HTTP/1.1'' @ CRLF @ ''Content-Length: -1'' @ CRLF @ CRLF) = Inl ()"
proof -
  have "(case parseHTTPRequest (''GET / HTTP/1.1'' @ CRLF @ ''Content-Length: -1'' @ CRLF @ CRLF) of Inl _ \<Rightarrow> True | Inr _ \<Rightarrow> False)"
    by code_simp
  then show ?thesis by (auto split: sum.splits)
qed

subsection \<open>Every other request is answered\<close>

text \<open>A handler answers: a status that is not negative, a body and one of three content types.\<close>

definition framed :: "http_result \<Rightarrow> bool" where
  "framed a \<longleftrightarrow> 0 \<le> fst a \<and> snd (snd a) \<in> {''text/xml'', ''text/plain'', ''application/octet-stream''}"

definition answers :: "('s, http_result) go \<Rightarrow> bool" where
  "answers m \<longleftrightarrow> (\<forall>s. \<exists>a s'. m s = (Ret a, s') \<and> framed a)"

lemma answers_basic: "framed a \<Longrightarrow> answers (gret a)"
  by (simp add: answers_def gret_def)

lemma framed_replies: "framed (200, body, ''text/plain'')" "framed (200, body, ''application/octet-stream'')"
  "framed (404, body, ''text/xml'')" "framed (xml_reply body)" "framed locker_error" "framed not_found"
  by (simp_all add: framed_def xml_reply_def locker_error_def not_found_def)

lemma answers_gtry: "no_panic m \<Longrightarrow> (\<And>e. answers (h e)) \<Longrightarrow> (\<And>x. answers (f x)) \<Longrightarrow> answers (gtry m h f)"
  by (auto simp: answers_def gtry_def no_panic_def split: prod.splits outcome.splits) (metis fst_conv)

lemma answers_gget: "(\<And>x. answers (f x)) \<Longrightarrow> answers (gbind (gget g) f)"
  by (auto simp: answers_def gbind_def gget_def)

lemma answers_control:
  "(b \<Longrightarrow> answers m) \<Longrightarrow> (\<not> b \<Longrightarrow> answers n) \<Longrightarrow> answers (if b then m else n)"
  "answers m \<Longrightarrow> (\<And>x. answers (f x)) \<Longrightarrow> answers (case v of None \<Rightarrow> m | Some x \<Rightarrow> f x)"
  "(\<And>a b. answers (g a b)) \<Longrightarrow> answers (case p of (a, b) \<Rightarrow> g a b)"
  by (auto split: option.split prod.split)

lemmas answers_intro = answers_basic framed_replies answers_gtry answers_gget answers_control

lemma no_panic_pair [no_panic_intro]: "(\<And>a b. no_panic (g a b)) \<Longrightarrow> no_panic (case p of (a, b) \<Rightarrow> g a b)"
  by (cases p) simp

lemma no_panic_lift [no_panic_intro]:
  "no_panic m \<Longrightarrow> no_panic (on_world m)" "no_panic n \<Longrightarrow> no_panic (on_disk n)"
  by (auto simp: no_panic_def on_world_def on_disk_def split: prod.splits) (metis fst_conv)+

lemma no_panic_ghosts [no_panic_intro]:
  "no_panic (loadMeta path)" "no_panic (saveMeta path e)" "no_panic (collectGhostEntries cfg pre)"
  "no_panic (withStretchAliases es)" "no_panic (ghostEntries cfg pers)" "no_panic (findGhostEntry cfg pers name)"
  unfolding loadMeta_def saveMeta_def collectGhostEntries_def collect_file_def withStretchAliases_def GhostTagToStretches_def
    ghostEntries_def findGhostEntry_def
  by (intro no_panic_intro)+

lemma answers_log: "answers m \<Longrightarrow> answers (gbind (log_write msg) (\<lambda>_. m))"
  by (auto simp: answers_def log_write_def gbind_def gget_def on_disk_def Write_def gtry_def gret_def Let_def AppendOpen_def io_step_def
      split: prod.split outcome.split option.split list.split fnode.split io_outcome.split)

lemma answers_serve_request: "answers (serve_request ok cfg verb target body)"
  unfolding serve_request_def handleRequest_def handle_dir_def handle_nfo_def handle_get_def handle_put_def Let_def
  by (intro answers_intro answers_log no_panic_intro)

text \<open>
  C16. Every complete request is answered, exactly once and in order, whatever the file system and the
  database do. The state and the responses of a connection depend only on the bytes that arrived, not
  on how they were cut into reads: they are those of handling the requests in the stream one after the
  other, and there are as many responses as requests. The connection stops only when the parser does.
\<close>

theorem requests_answered:
  assumes "reads \<noteq> []" "messages parseHTTPRequest (concat reads) = (e, reqs)"
  shows "\<exists>s' written. handleConnection authority_ok cfg reads s = (e, s', written)
    \<and> foldl (\<lambda>st req. snd (http_step authority_ok cfg req st)) (s, []) reqs = (s', written)
    \<and> length written = length reqs"
proof -
  let ?step = "http_step authority_ok cfg"
  have run: "\<exists>r s'. ?step req (s, written) = (True, s', written @ [r])" for req s written
  proof -
    obtain code body ct s' where "serve_request authority_ok cfg (rq_method req) (rq_path req) (rq_body req) s = (Ret (code, body, ct), s')"
      using answers_serve_request unfolding answers_def by (metis prod_cases3)
    then show ?thesis by (simp add: http_step_def)
  qed
  then have go: "fst (?step req st)" for req st by (cases st) (metis fst_conv)
  have "length (snd (foldl (\<lambda>st req. snd (?step req st)) (s, written) reqs)) = length written + length reqs" for s written
  proof (induction reqs arbitrary: s written)
    case (Cons req reqs)
    obtain r s' where "?step req (s, written) = (True, s', written @ [r])" using run by blast
    with Cons show ?case by simp
  qed simp
  from this [of s "[]"] obtain s' written where
    f: "foldl (\<lambda>st req. snd (?step req st)) (s, []) reqs = (s', written)" "length written = length reqs"
    by (metis add_0 list.size(3) prod.collapse)
  have "handleConnection authority_ok cfg reads s = pump parseHTTPRequest ?step (concat reads) (s, [])"
    by (simp add: handleConnection_def http_stream.feed_concat [OF assms(1)])
  also have "\<dots> = (e, s', written)"
    unfolding pump_fold [OF go] assms(2) using f by simp
  finally show ?thesis using f by blast
qed

definition two_requests :: string where
  "two_requests = ''GET /healthz HTTP/1.1'' @ CRLF @ CRLF @ ''GET /version HTTP/1.1'' @ CRLF @ CRLF @ ''GET''"

definition empty_locker :: locker_state where
  "empty_locker = \<lparr>lk_db = empty_world, lk_disk = \<lparr>nodes = [], io = [IoFail], unix_now = 0\<rparr>, lk_log = sample_log\<rparr>"

lemma two_requests_messages:
  "\<exists>reqs. messages parseHTTPRequest (concat [take 30 two_requests, drop 30 two_requests]) = (Waiting ''GET'', reqs) \<and> length reqs = 2"
proof -
  have "(case messages parseHTTPRequest (concat [take 30 two_requests, drop 30 two_requests]) of (e, reqs) \<Rightarrow> (e, map rq_path reqs)) =
      (Waiting ''GET'', [''/healthz'', ''/version''])"
    by code_simp
  then show ?thesis by (auto split: prod.splits)
qed

theorem requests_answered_witness:
  "\<exists>s' written. handleConnection (\<lambda>_. False) defaults [take 30 two_requests, drop 30 two_requests] empty_locker = (Waiting ''GET'', s', written)
    \<and> length written = 2"
proof -
  obtain reqs where "messages parseHTTPRequest (concat [take 30 two_requests, drop 30 two_requests]) = (Waiting ''GET'', reqs)"
    "length reqs = 2" using two_requests_messages by blast
  with requests_answered [OF _ this(1)] show ?thesis by fastforce
qed

end
