(* ===== verification/Isolation.thy ===== *)
theory Isolation
  imports Dispatch
begin

text \<open>
  Whose stats a packet can change: only those of the persona that the session plays. The stat rows of
  everybody else are an invariant of every call of the model.
\<close>

subsection \<open>The rows of the others\<close>

definition stats_of_others :: "int \<Rightarrow> world \<Rightarrow> stat_row list" where
  "stats_of_others P w = filter (\<lambda>r. st_persona_id r \<noteq> P) (stats w)"

definition others_are :: "int \<Rightarrow> stat_row list \<Rightarrow> world \<Rightarrow> bool" where
  "others_are P L w \<longleftrightarrow> stats_of_others P w = L"

lemma others_are_invariant [keeps_intro]: "table_invariant (others_are P L)"
  by (simp add: table_invariant_def others_are_def stats_of_others_def)

lemma others_are_frame:
  assumes "stats w' = stats w" "others_are P L w"
  shows "others_are P L w'"
  using assms by (simp add: others_are_def stats_of_others_def)

lemma keeps_others_exec [keeps_intro]: "(\<And>w. stats (f w) = stats w) \<Longrightarrow> keeps (others_are P L) (exec_sql f)"
  by (rule keeps_exec_sql [OF others_are_invariant]) (rule others_are_frame)

lemma keeps_others_stmt [keeps_intro]:
  "(\<And>w. stats (snd (f w)) = stats w) \<Longrightarrow> keeps (others_are P L) (stmt f)"
  by (rule keeps_stmt [OF others_are_invariant]) (auto simp: keeps_def intro: others_are_frame)

lemma keeps_others_accounts [keeps_intro]:
  "keeps (others_are P L) (CreateAccount nuid pw)" "keeps (others_are P L) (ValidateAccount nuid pw)"
  "keeps (others_are P L) (IssueLoginToken aid)" "keeps (others_are P L) (AccountByLoginToken token)"
  unfolding GetAccountByNUID_def CreateAccount_def ValidateAccount_def RevokeLoginTokens_def insert_token_def
    IssueLoginToken_def AccountByLoginToken_def
  by (intro keeps_intro; simp add: Let_def insert_account_def update_password_def touch_token_def)+

lemma keeps_others_personas [keeps_intro]:
  "keeps (others_are P L) (Personas aid)" "keeps (others_are P L) (LookupPersonaByName name)"
  "keeps (others_are P L) (GetOrCreatePersona aid name)" "keeps (others_are P L) (PersonaExists pid)"
  "keeps (others_are P L) (GetAssociations pid t)" "keeps (others_are P L) (AddAssociation pid fid t)"
  "keeps (others_are P L) (DeleteAssociation pid fid t)" "keeps (others_are P L) (PersonaByID pid)"
  unfolding Personas_def LookupPersonaByName_def GetOrCreatePersona_def PersonaByID_def PersonaExists_def
    GetAssociations_def DeleteAssociation_def AddAssociation_def
  by (intro keeps_intro; simp add: Let_def insert_persona_def)+

lemma keeps_others_stats [keeps_intro]:
  "keeps (others_are P L) (GetStats pid keys period)" "keeps (others_are P L) (RankedStats pid key period)"
  "keeps (others_are P L) (HistoricalStats oid keys period)" "keeps (others_are P L) (HistoricalRankedStats oid key period)"
  unfolding bestPersonaIDForKey_def bestPersonaIDForKeys_def linkedHistoricalStats_def linkedHistoricalTime_def
    GetStats_def rankForValue_def RankedStats_def HistoricalStats_def HistoricalRankedStats_def
  by (intro keeps_intro; auto intro!: keeps_intro split: prod.splits)+

lemma keeps_others_TopN [keeps_intro]: "keeps (others_are P L) (TopN key minRank maxRank extraKeys period)"
proof -
  have "keeps (others_are P L) (top_entry key extraKeys period offset row)" for offset row
    by (cases row) (auto simp: top_entry_def intro!: keeps_intro)
  then show ?thesis unfolding TopN_def by (intro keeps_intro)
qed

text \<open>An upsert of a row of \<open>P\<close> leaves the other rows alone.\<close>

lemma keeps_others_upsert: "keeps (others_are P L) (upsert_stat P key v period)"
proof -
  have "filter (\<lambda>x. st_persona_id x \<noteq> P) (insert_or_update stat_key r rows) = filter (\<lambda>x. st_persona_id x \<noteq> P) rows"
    if "st_persona_id r = P" for r rows
  proof -
    have "filter (\<lambda>x. st_persona_id x \<noteq> P) (map (\<lambda>x. if stat_key x = stat_key r then r else x) rows) =
        filter (\<lambda>x. st_persona_id x \<noteq> P) rows"
      using that by (induction rows) (auto simp: stat_key_def)
    then show ?thesis using that by (simp add: insert_or_update_def)
  qed
  then show ?thesis
    unfolding upsert_stat_def
    by (intro keeps_stmt others_are_invariant) (auto simp: keeps_def others_are_def stats_of_others_def)
qed

lemma keeps_others_UpdateStats: "keeps (others_are P L) (UpdateStats P vs period)"
  unfolding UpdateStats_def by (intro keeps_gfold) (auto intro: keeps_others_upsert split: prod.split)

subsection \<open>The handlers\<close>

abbreviation others_stay :: "int \<Rightarrow> stat_row list \<Rightarrow> server_state \<Rightarrow> bool" where
  "others_stay P L s \<equiv> others_are P L (db s)"

lemma others_on_store [keeps_intro]:
  "keeps (others_are P L) m \<Longrightarrow> keeps (others_stay P L) (on_store m)"
  by (auto simp: keeps_def on_store_def split: prod.splits)

lemma others_session [keeps_intro]: "keeps (others_stay P L) (gmodify (\<lambda>s. s\<lparr>sess := f s\<rparr>))"
  by (rule keeps_gmodify) simp

lemma others_randomHex [keeps_intro]: "keeps (others_stay P L) (randomHex n)"
  unfolding randomHex_def by (intro keeps_intro)

lemma others_accounts [keeps_intro]:
  "keeps (others_stay P L) (handleNuLogin cfg pkt)" "keeps (others_stay P L) (handleNuAddAccount cfg pkt)"
  "keeps (others_stay P L) (handleNuGetPersonas cfg pkt)" "keeps (others_stay P L) (handleNuLoginPersona cfg pkt)"
  "keeps (others_stay P L) (handleNuAddPersona cfg pkt)" "keeps (others_stay P L) (handleNuLookupUserInfo cfg pkt)"
  unfolding handleNuLogin_def loginResponse_def handleNuAddAccount_def handleNuGetPersonas_def handleNuLoginPersona_def
    handleNuAddPersona_def handleNuLookupUserInfo_def lookup_user_def Let_def
  by (intro keeps_intro)+

lemma others_associations [keeps_intro]:
  "keeps (others_stay P L) (handleGetAssociations cfg pkt)" "keeps (others_stay P L) (handleAddAssociations cfg pkt)"
  "keeps (others_stay P L) (handleDeleteAssociations cfg pkt)"
  unfolding handleGetAssociations_def handleAddAssociations_def handleDeleteAssociations_def Let_def
    add_request_def delete_request_def validateAssociationRequest_def associationMutationResponse_def
    emitAssociationResult_def
  by (intro keeps_intro; auto intro!: keeps_intro split: prod.splits)+

lemma others_rank_helpers [keeps_intro]:
  "keeps (others_stay P L) (owner_ranked oid key period)" "keeps (others_stay P L) (owner_stats oid keys period)"
  "keeps (others_stay P L) (statGroupRankValue oid keys period)"
  unfolding owner_ranked_def owner_stats_def statGroupRankValue_def by (intro keeps_intro)+

lemma others_ranked_key [keeps_intro]: "keeps (others_stay P L) (ranked_key persona period ik resp)"
  unfolding ranked_key_def by (cases ik) (auto intro!: keeps_intro)

lemma others_stats_owner [keeps_intro]: "keeps (others_stay P L) (stats_owner s keys period io resp)"
  unfolding stats_owner_def by (cases io) (auto intro!: keeps_intro)

lemma others_ranked_owner_key [keeps_intro]: "keeps (others_stay P L) (ranked_owner_key oid period pre jk resp)"
  unfolding ranked_owner_key_def by (cases jk) (auto intro!: keeps_intro)

lemma others_ranked_owner [keeps_intro]: "keeps (others_stay P L) (ranked_owner s keys period io resp)"
  by (cases io) (auto simp: ranked_owner_def Let_def intro!: keeps_intro)

lemma others_ranks [keeps_intro]:
  "keeps (others_stay P L) (handleGetStats cfg pkt)" "keeps (others_stay P L) (handleGetRankedStats cfg pkt)"
  "keeps (others_stay P L) (handleGetStatsForOwners cfg pkt)" "keeps (others_stay P L) (handleGetRankedStatsForOwners cfg pkt)"
  "keeps (others_stay P L) (handleGetTopNAndStats cfg pkt)"
  unfolding handleGetStats_def handleGetRankedStats_def handleGetStatsForOwners_def handleGetRankedStatsForOwners_def
    handleGetTopNAndStats_def
  by (intro keeps_intro)+

lemma others_submit: "keeps (others_stay P L) (gfold (submit_owner p P) ois n)"
  unfolding submit_owner_def submit_stat_def submit_periods_def
  by (intro keeps_intro keeps_others_UpdateStats)

lemma others_UpdateStats:
  assumes "others_stay (personaID (sess s)) L s"
  shows "others_stay (personaID (sess s)) L (snd (handleUpdateStats cfg pkt s))"
proof -
  have "keeps (others_stay (personaID (sess s)) L) (gbind (gfold (submit_owner p (personaID (sess s))) ois 0) (\<lambda>_. reply t pkt ps))"
    for p ois t ps
    by (intro keeps_intro others_submit)
  moreover have "gbind (gget g) f s = f (g s) s" for g :: "server_state \<Rightarrow> int" and f :: "int \<Rightarrow> string fesl"
    by (simp add: gbind_def gget_def)
  ultimately show ?thesis using assms by (simp add: handleUpdateStats_def Let_def keeps_def)
qed

text \<open>
  Nobody can change another player's stats. Whatever packet a session sends and whatever the
  database does, the stat rows of every persona but the session's own are afterwards exactly what they
  were before, in the same order.
\<close>

theorem stats_of_others_untouched:
  "stats_of_others (personaID (sess s)) (db (snd (dispatch cfg pkt s))) = stats_of_others (personaID (sess s)) (db s)"
proof (cases "map_of handlers (packet_txn pkt)")
  case None
  then show ?thesis by (simp add: dispatch_def go_run)
next
  case (Some h)
  let ?I = "others_stay (personaID (sess s)) (stats_of_others (personaID (sess s)) (db s))"
  have I: "?I s" by (simp add: others_are_def)
  have "(packet_txn pkt, h) \<in> set handlers" using Some by (rule map_of_SomeD)
  then consider "h = handleUpdateStats" | "keeps ?I (h cfg pkt)"
    unfolding handlers_def by (auto intro!: keeps_intro)
  then have "?I (snd (h cfg pkt s))"
    by cases (use I others_UpdateStats in \<open>auto simp: keeps_def\<close>)
  then show ?thesis using Some by (simp add: dispatch_def others_are_def)
qed

end
