(* ===== verification/Replies.thy ===== *)
theory Replies
  imports Dispatch
begin

text \<open>
  What a session writes back: exactly one packet for each packet it handles, with the id of the request.
\<close>

definition services :: "string set" where
  "services = {''fsys'', ''acct'', ''asso'', ''pres'', ''xmsg'', ''rank''}"

text \<open>Whenever the call returns, it returns an encoded packet with the id of \<open>pkt\<close>.\<close>

definition replies :: "packet \<Rightarrow> string fesl \<Rightarrow> bool" where
  "replies pkt m \<longleftrightarrow> (\<forall>s r s'. m s = (Ret r, s') \<longrightarrow> (\<exists>t \<in> services. \<exists>ps. r = Encode t (ID pkt) ps))"

named_theorems replies_intro "how the shape of an answer goes through a handler"

lemma replies_reply [replies_intro]: "t \<in> services \<Longrightarrow> replies pkt (reply t pkt ps)"
  by (auto simp: replies_def reply_def gret_def)

lemma replies_gfail [replies_intro]: "replies pkt (gfail e)"
  by (simp add: replies_def gfail_def)

lemma replies_gbind [replies_intro]: "(\<And>x. replies pkt (f x)) \<Longrightarrow> replies pkt (gbind m f)"
  by (fastforce simp: replies_def gbind_def split: prod.splits outcome.splits)

lemma replies_gtry [replies_intro]:
  "(\<And>e. replies pkt (h e)) \<Longrightarrow> (\<And>x. replies pkt (f x)) \<Longrightarrow> replies pkt (gtry m h f)"
  by (fastforce simp: replies_def gtry_def split: prod.splits outcome.splits)

lemma replies_control [replies_intro]:
  "(b \<Longrightarrow> replies pkt m) \<Longrightarrow> (\<not> b \<Longrightarrow> replies pkt n) \<Longrightarrow> replies pkt (if b then m else n)"
  "replies pkt m \<Longrightarrow> (\<And>x. replies pkt (f x)) \<Longrightarrow> replies pkt (case v of None \<Rightarrow> m | Some x \<Rightarrow> f x)"
  "(\<And>x. replies pkt (f x)) \<Longrightarrow> replies pkt (let x = y in f x)"
  by (auto split: option.split)

lemma services [replies_intro]:
  "''fsys'' \<in> services" "''acct'' \<in> services" "''asso'' \<in> services" "''pres'' \<in> services" "''xmsg'' \<in> services"
  "''rank'' \<in> services"
  by (simp_all add: services_def)

lemma replies_cap [replies_intro]: "replies pkt (gret (cap_response (ID pkt) keys key entries))"
proof -
  have "\<exists>ps. cap_response (ID pkt) keys key entries = Encode ''rank'' (ID pkt) ps"
  proof (induction entries rule: length_induct)
    case (1 entries)
    show ?case
      using "1.IH" [rule_format, of "butlast entries"]
      by (subst cap_response.simps) (auto simp: Let_def)
  qed
  then show ?thesis by (auto simp: replies_def gret_def services_def)
qed

lemma replies_pair [replies_intro]: "(\<And>a b. replies pkt (f a b)) \<Longrightarrow> replies pkt (case x of (a, b) \<Rightarrow> f a b)"
  by (cases x) simp

lemma replies_mutation [replies_intro]:
  "replies pkt (associationMutationResponse pkt txn requestPrefix p assocType ownerID responseOwnerID ownerType results)"
  unfolding associationMutationResponse_def by (intro replies_intro)

lemma replies_session [replies_intro]:
  "replies pkt (handleHello cfg pkt)" "replies pkt (handleGetLockerURL cfg pkt)" "replies pkt (handleNuSuggestPersonas cfg pkt)"
  "replies pkt (handleNuGetEntitlements cfg pkt)" "replies pkt (handleNuGetEntitlementCount cfg pkt)"
  "replies pkt (handleGameSpyPreAuth cfg pkt)" "replies pkt (handleGetCountryList cfg pkt)" "replies pkt (handleNuGetTos cfg pkt)"
  "replies pkt (handleSetPresenceStatus cfg pkt)" "replies pkt (handlePresenceSubscribe cfg pkt)"
  "replies pkt (handleModifySettings cfg pkt)" "replies pkt (handleGetMessages cfg pkt)" "replies pkt (handleNuLogin cfg pkt)"
  "replies pkt (handleNuAddAccount cfg pkt)" "replies pkt (handleNuGetPersonas cfg pkt)" "replies pkt (handleNuLoginPersona cfg pkt)"
  "replies pkt (handleNuAddPersona cfg pkt)" "replies pkt (handleNuLookupUserInfo cfg pkt)"
  unfolding handleHello_def handleGetLockerURL_def handleNuSuggestPersonas_def handleNuGetEntitlements_def
    handleNuGetEntitlementCount_def handleGameSpyPreAuth_def handleGetCountryList_def handleNuGetTos_def
    handleSetPresenceStatus_def handlePresenceSubscribe_def handleModifySettings_def handleGetMessages_def
    handleNuLogin_def loginResponse_def handleNuAddAccount_def handleNuGetPersonas_def handleNuLoginPersona_def
    handleNuAddPersona_def handleNuLookupUserInfo_def Let_def
  by (intro replies_intro)+

lemma replies_others [replies_intro]:
  "replies pkt (handleGetAssociations cfg pkt)" "replies pkt (handleAddAssociations cfg pkt)"
  "replies pkt (handleDeleteAssociations cfg pkt)" "replies pkt (handleGetStats cfg pkt)"
  "replies pkt (handleGetRankedStats cfg pkt)" "replies pkt (handleGetStatsForOwners cfg pkt)"
  "replies pkt (handleGetRankedStatsForOwners cfg pkt)" "replies pkt (handleGetTopNAndStats cfg pkt)"
  "replies pkt (handleUpdateStats cfg pkt)"
  unfolding handleGetAssociations_def handleAddAssociations_def handleDeleteAssociations_def handleGetStats_def
    handleGetRankedStats_def handleGetStatsForOwners_def handleGetRankedStatsForOwners_def handleGetTopNAndStats_def
    handleUpdateStats_def Let_def
  by (intro replies_intro)+

lemma dispatch_replies:
  assumes "dispatch cfg pkt s = (Ret r, s')"
  shows "\<exists>t \<in> insert (Type pkt) services. \<exists>ps. r = Encode t (ID pkt) ps"
proof (cases "map_of handlers (packet_txn pkt)")
  case None
  with assms show ?thesis by (auto simp: dispatch_def gret_def)
next
  case (Some h)
  then have "(packet_txn pkt, h) \<in> set handlers" by (rule map_of_SomeD)
  then have "replies pkt (h cfg pkt)" unfolding handlers_def by (auto intro!: replies_intro)
  with assms Some show ?thesis by (auto simp: dispatch_def replies_def)
qed

lemma process_reply:
  assumes "process cfg now pkt c = (goes_on, c')"
  shows "if packet_txn pkt = ''MemCheck'' \<and> ID pkt = 0x80000000
    then goes_on \<and> written c' = written c
    else (goes_on \<and> (\<exists>t \<in> insert (Type pkt) services. \<exists>ps. written c' = written c @ [Encode t (ID pkt) ps]))
       \<or> (\<not> goes_on \<and> crashed c' \<and> written c' = written c)"
proof (cases "packet_txn pkt = ''MemCheck'' \<and> ID pkt = 0x80000000")
  case True
  with assms show ?thesis by (auto simp: process_def)
next
  case False
  obtain r s' where d: "dispatch cfg pkt (srv c) = (r, s')" by fastforce
  have ne: "Encode t i ps \<noteq> []" for t i ps by (simp add: Encode_def be32_def Let_def)
  show ?thesis
  proof (cases r)
    case (Ret resp)
    obtain t ps where t: "t \<in> insert (Type pkt) services" "resp = Encode t (ID pkt) ps"
      using dispatch_replies [OF d [unfolded Ret]] by blast
    with assms d Ret False ne have "goes_on" "written c' = written c @ [Encode t (ID pkt) ps]"
      by (auto simp: process_def)
    with t(1) False show ?thesis by auto
  next
    case (Fail e)
    with assms d False have "goes_on" "written c' = written c @ [handlerErrorResponse pkt (packet_txn pkt)]"
      by (auto simp: process_def)
    with False show ?thesis by (auto simp: handlerErrorResponse_def Let_def)
  next
    case Panic
    with assms d False show ?thesis by (auto simp: process_def)
  qed
qed

text \<open>
  C15. A session answers each packet with exactly one packet. A reply to a memory check is taken in
  silence; for any other packet the session either writes one more packet, of the request's type or one
  of the six services and always with the id of the request (an error of the handler included), or the
  handler panics and nothing is written.
\<close>

theorem one_reply_each:
  assumes "process cfg now pkt c = (goes_on, c')"
  shows "if packet_txn pkt = ''MemCheck'' \<and> ID pkt = 0x80000000
    then goes_on \<and> written c' = written c
    else (goes_on \<and> (\<exists>t \<in> insert (Type pkt) services. \<exists>ps. written c' = written c @ [Encode t (ID pkt) ps]))
       \<or> (\<not> goes_on \<and> crashed c' \<and> written c' = written c)"
  by (rule process_reply [OF assms])

theorem one_reply_each_witness:
  "\<exists>goes_on c'. process defaults 5 \<lparr>Type = ''acct'', ID = 3, Params = kvs [''TXN'', ''NuLogin'', ''nuid'', ''x'', ''password'', ''y'']\<rparr>
     \<lparr>srv = \<lparr>db = empty_world\<lparr>faults := [True]\<rparr>, sess = new_session\<rparr>, written = [challenge], last_memcheck = 0, crashed = False\<rparr> = (goes_on, c')
   \<and> ((goes_on \<and> (\<exists>t \<in> insert ''acct'' services. \<exists>ps. written c' = [challenge, Encode t 3 ps])) \<or> (\<not> goes_on \<and> crashed c'))"
proof -
  let ?pkt = "\<lparr>Type = ''acct'', ID = 3, Params = kvs [''TXN'', ''NuLogin'', ''nuid'', ''x'', ''password'', ''y'']\<rparr>"
  let ?c = "\<lparr>srv = \<lparr>db = empty_world\<lparr>faults := [True]\<rparr>, sess = new_session\<rparr>, written = [challenge], last_memcheck = 0, crashed = False\<rparr>"
  obtain goes_on c' where p: "process defaults 5 ?pkt ?c = (goes_on, c')" by fastforce
  have "packet_txn ?pkt \<noteq> ''MemCheck''" by code_simp
  with one_reply_each [OF p] have "(goes_on \<and> (\<exists>t \<in> insert ''acct'' services. \<exists>ps. written c' = [challenge, Encode t 3 ps])) \<or> (\<not> goes_on \<and> crashed c')"
    by simp blast
  with p show ?thesis by blast
qed

end
