(* ===== verification/Ddl.thy ===== *)
theory Ddl
  imports World
begin

text \<open>
  Statements that define tables, as \<open>Init\<close> and the migration in \<open>server/storage/storage.go\<close> (lines 102-208)
  use them. The database file is a catalog of tables with columns and rows; a statement works on the open
  transaction or, outside one, on the file itself.
\<close>

subsection \<open>A database file\<close>

datatype sql_value = SqlNull | SqlInt int | SqlReal float64 | SqlText string

record column =
  co_name :: string
  co_type :: string
  co_not_null :: bool
  co_unique :: bool
  co_default :: "string option"
  co_refs :: "string option"
  co_cascade :: bool

record table =
  tb_columns :: "column list"
  tb_key :: "string list"
  tb_rows :: "sql_value list list"

record catalog =
  cat_tables :: "string \<rightharpoonup> table"
  cat_indexes :: "string \<rightharpoonup> string \<times> string"

text \<open>
  \<open>saved\<close> is what the file holds, \<open>pending\<close> the catalog of an open transaction, \<open>foreign_keys\<close> the setting
  of the connection, and \<open>db_faults\<close> which of the coming statements fail for reasons of their own.
\<close>

record database =
  saved :: catalog
  pending :: "catalog option"
  foreign_keys :: bool
  db_faults :: "bool list"

definition visible :: "database \<Rightarrow> catalog" where
  "visible d = (case pending d of None \<Rightarrow> saved d | Some c \<Rightarrow> c)"

definition put_catalog :: "catalog \<Rightarrow> database \<Rightarrow> database" where
  "put_catalog c d = (case pending d of None \<Rightarrow> d\<lparr>saved := c\<rparr> | Some _ \<Rightarrow> d\<lparr>pending := Some c\<rparr>)"

definition column_names :: "table \<Rightarrow> string list" where
  "column_names t = map co_name (tb_columns t)"

definition field :: "table \<Rightarrow> sql_value list \<Rightarrow> string \<Rightarrow> sql_value" where
  "field t row c = (case map_of (zip (column_names t) row) c of None \<Rightarrow> SqlNull | Some v \<Rightarrow> v)"

subsection \<open>Statements\<close>

datatype ddl =
    JournalWal
  | ForeignKeysOn
  | CreateTable bool string table
  | CreateIndex string string string
  | Begin
  | InsertSelect string string "string list"
  | DropTable string
  | RenameTable string string
  | Commit

text \<open>
  A row that comes in: \<open>OR REPLACE\<close> does not help against a missing value or a dangling reference, and a
  primary key that is no \<open>INTEGER PRIMARY KEY\<close> lets any number of nulls through.
\<close>

definition refers :: "catalog \<Rightarrow> column \<Rightarrow> sql_value \<Rightarrow> bool" where
  "refers c co v = (v = SqlNull \<or> (case co_refs co of
      None \<Rightarrow> True
    | Some parent \<Rightarrow> (case cat_tables c parent of
          None \<Rightarrow> False
        | Some p \<Rightarrow> \<exists>row \<in> set (tb_rows p). field p row ''id'' = v)))"

definition row_allowed :: "bool \<Rightarrow> catalog \<Rightarrow> table \<Rightarrow> sql_value list \<Rightarrow> bool" where
  "row_allowed fk c t row = (\<forall>(co, v) \<in> set (zip (tb_columns t) row).
     (co_not_null co \<longrightarrow> v \<noteq> SqlNull) \<and> (fk \<longrightarrow> refers c co v))"

definition key_of :: "table \<Rightarrow> sql_value list \<Rightarrow> sql_value list" where
  "key_of t row = map (field t row) (tb_key t)"

definition replace_row :: "table \<Rightarrow> sql_value list \<Rightarrow> sql_value list list \<Rightarrow> sql_value list list" where
  "replace_row t row rows =
     (if SqlNull \<in> set (key_of t row) then rows @ [row] else insert_or_replace (key_of t) row rows)"

text \<open>What a statement makes of the catalog it sees; \<open>None\<close> is an error.\<close>

fun effect :: "bool \<Rightarrow> ddl \<Rightarrow> catalog \<Rightarrow> catalog option" where
  "effect fk (CreateTable if_not_exists name t) c =
     (if cat_tables c name = None then Some (c\<lparr>cat_tables := (cat_tables c)(name \<mapsto> t)\<rparr>)
      else if if_not_exists then Some c else None)"
| "effect fk (CreateIndex name tname col) c =
     (case cat_tables c tname of
        None \<Rightarrow> None
      | Some t \<Rightarrow>
          if col \<notin> set (column_names t) then None
          else if cat_indexes c name \<noteq> None then Some c
          else Some (c\<lparr>cat_indexes := (cat_indexes c)(name \<mapsto> (tname, col))\<rparr>))"
| "effect fk (InsertSelect new old cols) c =
     (case (cat_tables c new, cat_tables c old) of
        (Some n, Some t) \<Rightarrow>
          (let rows = map (\<lambda>row. map (field t row) cols) (tb_rows t) in
           if column_names n = cols \<and> set cols \<subseteq> set (column_names t) \<and> (\<forall>row \<in> set rows. row_allowed fk c n row)
           then Some (c\<lparr>cat_tables := (cat_tables c)(new \<mapsto> n\<lparr>tb_rows := foldl (\<lambda>rs row. replace_row n row rs) (tb_rows n) rows\<rparr>)\<rparr>)
           else None)
      | _ \<Rightarrow> None)"
| "effect fk (DropTable name) c =
     (if cat_tables c name = None then None
      else Some (c\<lparr>cat_tables := (cat_tables c)(name := None),
                   cat_indexes := (\<lambda>i. case cat_indexes c i of
                      Some (t, col) \<Rightarrow> if t = name then None else Some (t, col) | None \<Rightarrow> None)\<rparr>))"
| "effect fk (RenameTable old new) c =
     (if cat_tables c old = None \<or> cat_tables c new \<noteq> None then None
      else Some (c\<lparr>cat_tables := (cat_tables c)(new := cat_tables c old, old := None),
                   cat_indexes := (\<lambda>i. case cat_indexes c i of
                      Some (t, col) \<Rightarrow> Some (if t = old then new else t, col) | None \<Rightarrow> None)\<rparr>))"
| "effect fk _ c = Some c"

definition db_stmt :: "(database, 'a) go \<Rightarrow> (database, 'a) go" where
  "db_stmt m d = (case db_faults d of
      [] \<Rightarrow> m d
    | True # fs \<Rightarrow> (Fail ErrDb, d\<lparr>db_faults := fs\<rparr>)
    | False # fs \<Rightarrow> m (d\<lparr>db_faults := fs\<rparr>))"

text \<open>The \<open>PRAGMA\<close> for foreign keys has no effect inside a transaction.\<close>

definition exec_ddl :: "ddl \<Rightarrow> (database, unit) go" where
  "exec_ddl s = db_stmt (\<lambda>d. case s of
      Begin \<Rightarrow> (case pending d of None \<Rightarrow> (Ret (), d\<lparr>pending := Some (saved d)\<rparr>) | Some _ \<Rightarrow> (Fail ErrDb, d))
    | Commit \<Rightarrow> (case pending d of None \<Rightarrow> (Fail ErrDb, d) | Some c \<Rightarrow> (Ret (), d\<lparr>saved := c, pending := None\<rparr>))
    | ForeignKeysOn \<Rightarrow> (Ret (), if pending d = None then d\<lparr>foreign_keys := True\<rparr> else d)
    | _ \<Rightarrow> (case effect (foreign_keys d) s (visible d) of
              None \<Rightarrow> (Fail ErrDb, d)
            | Some c \<Rightarrow> (Ret (), put_catalog c d)))"

text \<open>\<open>Exec\<close> on several statements runs them in order up to the first that fails.\<close>

fun script :: "ddl list \<Rightarrow> (database, unit) go" where
  "script [] = gret ()"
| "script (s # ss) = gbind (exec_ddl s) (\<lambda>_. script ss)"

subsection \<open>Runs of statements\<close>

lemma db_stmt_ok [go_run]: "db_faults d = [] \<Longrightarrow> db_stmt m d = m d"
  by (simp add: db_stmt_def)

lemma visible_put [simp]: "visible (put_catalog c d) = c"
  by (simp add: visible_def put_catalog_def split: option.split)

lemma put_visible [simp]: "put_catalog (visible d) d = d"
  by (simp add: visible_def put_catalog_def split: option.split)

lemma put_catalog_simps [simp]:
  "db_faults (put_catalog c d) = db_faults d" "foreign_keys (put_catalog c d) = foreign_keys d"
  "pending d = None \<Longrightarrow> put_catalog c d = d\<lparr>saved := c\<rparr>"
  "pending d = Some b \<Longrightarrow> put_catalog c d = d\<lparr>pending := Some c\<rparr>"
  by (simp_all add: put_catalog_def split: option.split)

lemma visible_simps [simp]:
  "visible (db_faults_update f d) = visible d" "visible (foreign_keys_update g d) = visible d"
  "pending d = None \<Longrightarrow> visible d = saved d" "pending d = Some c \<Longrightarrow> visible d = c"
  by (simp_all add: visible_def split: option.split)

text \<open>A statement that works on the catalog; the others are \<open>Begin\<close>, \<open>Commit\<close> and the setting.\<close>

definition plain :: "ddl \<Rightarrow> bool" where
  "plain s \<longleftrightarrow> s \<notin> {Begin, Commit, ForeignKeysOn}"

lemma db_stmt_cases:
  assumes "db_stmt m d = (r, d')"
  shows "\<exists>fs. (r = Fail ErrDb \<and> d' = d\<lparr>db_faults := fs\<rparr>) \<or> m (d\<lparr>db_faults := fs\<rparr>) = (r, d')"
proof (cases "db_faults d")
  case Nil
  then have "d\<lparr>db_faults := []\<rparr> = d" by (cases d) simp
  moreover have "m d = (r, d')" using assms Nil by (simp add: db_stmt_def)
  ultimately show ?thesis by metis
next
  case (Cons b fs)
  with assms show ?thesis by (intro exI [of _ fs]) (cases b; simp add: db_stmt_def)
qed

lemma exec_plain:
  assumes "plain s" "exec_ddl s d = (r, d')"
  shows "\<exists>fs. (r = Fail ErrDb \<and> d' = d\<lparr>db_faults := fs\<rparr>)
    \<or> (\<exists>c. effect (foreign_keys d) s (visible d) = Some c \<and> r = Ret () \<and> d' = put_catalog c (d\<lparr>db_faults := fs\<rparr>))"
proof -
  have body: "(case s of
      Begin \<Rightarrow> (case pending e of None \<Rightarrow> (Ret (), e\<lparr>pending := Some (saved e)\<rparr>) | Some _ \<Rightarrow> (Fail ErrDb, e))
    | Commit \<Rightarrow> (case pending e of None \<Rightarrow> (Fail ErrDb, e) | Some c \<Rightarrow> (Ret (), e\<lparr>saved := c, pending := None\<rparr>))
    | ForeignKeysOn \<Rightarrow> (Ret (), if pending e = None then e\<lparr>foreign_keys := True\<rparr> else e)
    | _ \<Rightarrow> (case effect (foreign_keys e) s (visible e) of None \<Rightarrow> (Fail ErrDb, e) | Some c \<Rightarrow> (Ret (), put_catalog c e)))
    = (case effect (foreign_keys e) s (visible e) of None \<Rightarrow> (Fail ErrDb, e) | Some c \<Rightarrow> (Ret (), put_catalog c e))" for e
    using assms(1) by (cases s) (auto simp: plain_def)
  obtain fs where fs: "(r = Fail ErrDb \<and> d' = d\<lparr>db_faults := fs\<rparr>) \<or>
      (case effect (foreign_keys d) s (visible d) of None \<Rightarrow> (Fail ErrDb, d\<lparr>db_faults := fs\<rparr>)
       | Some c \<Rightarrow> (Ret (), put_catalog c (d\<lparr>db_faults := fs\<rparr>))) = (r, d')"
    using db_stmt_cases [OF assms(2) [unfolded exec_ddl_def]] unfolding body by auto
  show ?thesis
    by (rule exI [of _ fs]) (use fs in \<open>cases "effect (foreign_keys d) s (visible d)"; auto\<close>)
qed

lemma exec_plain_ok:
  assumes "plain s" "effect (foreign_keys d) s (visible d) = Some c" "db_faults d = []"
  shows "exec_ddl s d = (Ret (), put_catalog c d)"
  using assms by (cases s) (auto simp: exec_ddl_def plain_def go_run)

text \<open>Outside a transaction every statement keeps what each of its effects keeps.\<close>

lemma script_autocommit:
  assumes "\<And>s. s \<in> set ss \<Longrightarrow> plain s \<or> s = ForeignKeysOn"
    and "\<And>s fk c c'. s \<in> set ss \<Longrightarrow> effect fk s c = Some c' \<Longrightarrow> I c \<Longrightarrow> I c'"
    and "script ss d = (r, d')" "pending d = None" "I (saved d)"
  shows "pending d' = None \<and> I (saved d') \<and> r \<noteq> Panic"
  using assms
proof (induction ss arbitrary: d)
  case (Cons s ss)
  obtain r1 d1 where 1: "exec_ddl s d = (r1, d1)" by force
  have d1: "pending d1 = None \<and> I (saved d1) \<and> r1 \<noteq> Panic"
  proof (cases "s = ForeignKeysOn")
    case True
    with 1 Cons.prems(4,5) show ?thesis
      using db_stmt_cases [OF 1 [unfolded exec_ddl_def]] by auto
  next
    case False
    then have "plain s" using Cons.prems(1) by auto
    with exec_plain [OF this 1] Cons.prems(2) [of s] Cons.prems(4,5) show ?thesis by fastforce
  qed
  have "pending d' = None \<and> I (saved d') \<and> r \<noteq> Panic" if "r1 = Ret ()"
  proof (rule Cons.IH [of d1])
    show "script ss d1 = (r, d')" using Cons.prems(3) 1 that by (simp add: gbind_def)
    show "I c'" if "s' \<in> set ss" "effect fk s' c = Some c'" "I c" for s' fk c c'
      using Cons.prems(2) [of s' fk c c'] that by simp
  qed (use Cons.prems(1) d1 in auto)
  with d1 Cons.prems(3) 1 show ?case
    by (cases r1) (auto simp: gbind_def)
qed (auto simp: gret_def)

text \<open>Inside a transaction nothing reaches the file.\<close>

lemma script_pending:
  assumes "\<And>s. s \<in> set ss \<Longrightarrow> plain s" "script ss d = (r, d')" "pending d = Some c"
  shows "saved d' = saved d \<and> foreign_keys d' = foreign_keys d \<and> pending d' \<noteq> None \<and> r \<noteq> Panic"
  using assms
proof (induction ss arbitrary: d c)
  case (Cons s ss)
  obtain r1 d1 where 1: "exec_ddl s d = (r1, d1)" by force
  have d1: "saved d1 = saved d \<and> foreign_keys d1 = foreign_keys d \<and> (\<exists>c. pending d1 = Some c) \<and> r1 \<noteq> Panic"
    using exec_plain [OF _ 1] Cons.prems(1,3) by (fastforce simp: put_catalog_def)
  then show ?case
    using Cons.IH [of d1] Cons.prems 1 by (cases r1) (auto simp: gbind_def)
qed (auto simp: gret_def)

text \<open>A run that succeeds is the run without faults.\<close>

fun effects :: "bool \<Rightarrow> ddl list \<Rightarrow> catalog \<Rightarrow> catalog option" where
  "effects fk [] c = Some c"
| "effects fk (s # ss) c = Option.bind (effect fk s c) (effects fk ss)"

lemma script_effects:
  assumes "\<And>s. s \<in> set ss \<Longrightarrow> plain s" "script ss d = (Ret (), d')"
  shows "effects (foreign_keys d) ss (visible d) = Some (visible d') \<and> (pending d' = None \<longleftrightarrow> pending d = None)"
  using assms
proof (induction ss arbitrary: d)
  case (Cons s ss)
  then obtain d1 where 1: "exec_ddl s d = (Ret (), d1)" "script ss d1 = (Ret (), d')"
    by (auto simp: gbind_returns)
  then obtain c fs where c: "effect (foreign_keys d) s (visible d) = Some c" "d1 = put_catalog c (d\<lparr>db_faults := fs\<rparr>)"
    using exec_plain [OF _ 1(1)] Cons.prems(1) by fastforce
  moreover have "foreign_keys d1 = foreign_keys d" "visible d1 = c" "pending d1 = None \<longleftrightarrow> pending d = None"
    using c(2) by (auto simp: put_catalog_def split: option.splits)
  ultimately show ?case using Cons.IH [OF _ 1(2)] Cons.prems(1) by simp
qed (simp add: gret_def)

lemma effects_script:
  assumes "\<And>s. s \<in> set ss \<Longrightarrow> plain s" "db_faults d = []" "effects (foreign_keys d) ss (visible d) = Some c"
  shows "script ss d = (Ret (), put_catalog c d)"
  using assms
proof (induction ss arbitrary: d)
  case (Cons s ss)
  then obtain c1 where 1: "effect (foreign_keys d) s (visible d) = Some c1" "effects (foreign_keys d) ss c1 = Some c"
    by (auto simp: bind_eq_Some_conv)
  have "exec_ddl s d = (Ret (), put_catalog c1 d)" using exec_plain_ok [OF _ 1(1)] Cons.prems by simp
  moreover have "script ss (put_catalog c1 d) = (Ret (), put_catalog c (put_catalog c1 d))"
    using Cons.IH [of "put_catalog c1 d"] Cons.prems 1(2) by simp
  moreover have "put_catalog c (put_catalog c1 d) = put_catalog c d"
    by (simp add: put_catalog_def split: option.split)
  ultimately show ?case by (simp add: gbind_def)
qed (auto simp: gret_def)

end
