(* ===== verification/Migration.thy ===== *)
theory Migration
  imports Ddl
begin

text \<open>
  Opening the database (\<open>server/storage/storage.go\<close>, lines 81-208): the schema that \<open>Init\<close> creates
  statement by statement, and the migration that rewrites an old table of historical account links in
  one transaction.
\<close>

subsection \<open>The schema\<close>

definition col :: "string \<Rightarrow> string \<Rightarrow> column" where
  "col name ty = \<lparr>co_name = name, co_type = ty, co_not_null = False, co_unique = False, co_default = None,
     co_refs = None, co_cascade = False\<rparr>"

definition not_null :: "column \<Rightarrow> column" where "not_null c = c\<lparr>co_not_null := True\<rparr>"
definition uniq :: "column \<Rightarrow> column" where "uniq c = c\<lparr>co_unique := True\<rparr>"
definition default :: "string \<Rightarrow> column \<Rightarrow> column" where "default v c = c\<lparr>co_default := Some v\<rparr>"
definition refs :: "string \<Rightarrow> column \<Rightarrow> column" where "refs t c = c\<lparr>co_refs := Some t\<rparr>"

definition cascade :: "column \<Rightarrow> column" where "cascade c = c\<lparr>co_cascade := True\<rparr>"

definition stamped :: "string \<Rightarrow> column" where
  "stamped name = default ''CURRENT_TIMESTAMP'' (col name ''TIMESTAMP'')"

definition empty_table :: "column list \<Rightarrow> string list \<Rightarrow> table" where
  "empty_table cs key = \<lparr>tb_columns = cs, tb_key = key, tb_rows = []\<rparr>"

definition accounts_table :: table where
  "accounts_table = empty_table [col ''id'' ''INTEGER'', uniq (not_null (col ''nuid'' ''TEXT'')),
     not_null (col ''password'' ''TEXT''), stamped ''created_at''] [''id'']"

definition personas_table :: table where
  "personas_table = empty_table [col ''id'' ''INTEGER'', refs ''accounts'' (not_null (col ''account_id'' ''INTEGER'')),
     uniq (not_null (col ''name'' ''TEXT'')), stamped ''created_at''] [''id'']"

definition stats_table :: table where
  "stats_table = empty_table [refs ''personas'' (not_null (col ''persona_id'' ''INTEGER'')), not_null (col ''key'' ''TEXT''),
     default ''0'' (not_null (col ''value'' ''REAL'')), default ''0'' (not_null (col ''period_id'' ''INTEGER'')),
     stamped ''updated_at''] [''persona_id'', ''key'', ''period_id'']"

definition friends_table :: table where
  "friends_table = empty_table [refs ''personas'' (not_null (col ''persona_id'' ''INTEGER'')),
     refs ''personas'' (not_null (col ''friend_persona_id'' ''INTEGER'')),
     default ''PlasmaFriends'' (not_null (col ''type'' ''TEXT''))] [''persona_id'', ''friend_persona_id'', ''type'']"

definition login_tokens_table :: table where
  "login_tokens_table = empty_table [col ''token_hash'' ''TEXT'', cascade (refs ''accounts'' (not_null (col ''account_id'' ''INTEGER''))),
     stamped ''created_at'', stamped ''last_used_at''] [''token_hash'']"

definition historical_players_table :: table where
  "historical_players_table = empty_table [col ''id'' ''INTEGER'', uniq (not_null (col ''source_key'' ''TEXT'')),
     not_null (col ''name'' ''TEXT''), stamped ''created_at''] [''id'']"

definition historical_runs_table :: table where
  "historical_runs_table = empty_table [refs ''historical_players'' (not_null (col ''player_id'' ''INTEGER'')),
     not_null (col ''stretch_id'' ''INTEGER''), not_null (col ''key'' ''TEXT''), not_null (col ''value'' ''REAL''),
     default ''0'' (not_null (col ''period_id'' ''INTEGER'')), not_null (col ''run_id'' ''TEXT''),
     default [] (not_null (col ''weblink'' ''TEXT'')), stamped ''updated_at''] [''player_id'', ''key'', ''period_id'']"

definition links_table :: table where
  "links_table = empty_table [col ''source_key'' ''TEXT'', cascade (refs ''personas'' (not_null (col ''persona_id'' ''INTEGER'')))]
     [''source_key'']"

abbreviation links_name :: string where "links_name \<equiv> ''historical_account_links''"
abbreviation links_new_name :: string where "links_new_name \<equiv> ''historical_account_links_new''"
abbreviation links_index :: ddl where
  "links_index \<equiv> CreateIndex ''idx_historical_account_links_persona'' links_name ''persona_id''"

definition schema_tables :: "(string \<times> table) list" where
  "schema_tables = [(''accounts'', accounts_table), (''personas'', personas_table), (''stats'', stats_table),
     (''friends'', friends_table), (''login_tokens'', login_tokens_table),
     (''historical_players'', historical_players_table), (''historical_runs'', historical_runs_table),
     (links_name, links_table)]"

definition schema :: "ddl list" where
  "schema = [JournalWal, ForeignKeysOn] @ map (\<lambda>(n, t). CreateTable True n t) schema_tables @ [links_index]"

definition move_links :: "ddl list" where
  "move_links = [
     CreateTable False links_new_name links_table,
     InsertSelect links_new_name links_name [''source_key'', ''persona_id''],
     DropTable links_name,
     RenameTable links_new_name links_name,
     links_index]"

definition table_info :: "string \<Rightarrow> (database, string list) go" where
  "table_info name = db_stmt (\<lambda>d. (Ret (case cat_tables (visible d) name of None \<Rightarrow> [] | Some t \<Rightarrow> column_names t), d))"

definition migrateHistoricalAccountLinks :: "(database, unit) go" where
  "migrateHistoricalAccountLinks =
     gbind (table_info links_name) (\<lambda>names.
     if ''verified_by'' \<notin> set names \<and> ''verified_at'' \<notin> set names then gret ()
     else script (Begin # move_links @ [Commit]))"

definition Init :: "(database, unit) go" where
  "Init = gbind (script schema) (\<lambda>_. migrateHistoricalAccountLinks)"

text \<open>Closing the connection rolls an open transaction back.\<close>

definition disconnect_db :: "database \<Rightarrow> database" where
  "disconnect_db d = d\<lparr>pending := None, foreign_keys := False\<rparr>"

definition Store_Close :: "(database, unit) go" where
  "Store_Close d = (fst (db_stmt (gret ()) d), disconnect_db (snd (db_stmt (gret ()) d)))"

definition Open :: "(database, unit) go" where
  "Open = gbind (db_stmt (gret ())) (\<lambda>_.
     gtry Init (\<lambda>e. gbind (gtry Store_Close (\<lambda>_. gret ()) gret) (\<lambda>_. gfail e)) gret)"

subsection \<open>The schema keeps what is there\<close>

definition link_pairs :: "catalog \<Rightarrow> (sql_value \<times> sql_value) list" where
  "link_pairs c = (case cat_tables c links_name of
      None \<Rightarrow> []
    | Some t \<Rightarrow> map (\<lambda>row. (field t row ''source_key'', field t row ''persona_id'')) (tb_rows t))"

definition legacy :: "catalog \<Rightarrow> bool" where
  "legacy c \<longleftrightarrow> (\<exists>t. cat_tables c links_name = Some t \<and> {''verified_by'', ''verified_at''} \<inter> set (column_names t) \<noteq> {})"

text \<open>A file that some version of the server wrote, or an empty one.\<close>

definition file_ok :: "catalog \<Rightarrow> bool" where
  "file_ok c \<longleftrightarrow> cat_tables c links_new_name = None
     \<and> (\<forall>t. cat_tables c links_name = Some t \<longrightarrow> {''source_key'', ''persona_id''} \<subseteq> set (column_names t))
     \<and> distinct (map fst (link_pairs c))"

definition kept :: "catalog \<Rightarrow> catalog \<Rightarrow> bool" where
  "kept c c' \<longleftrightarrow> (\<forall>n. cat_tables c' n = cat_tables c n
     \<or> (cat_tables c n = None \<and> cat_tables c' n = map_of schema_tables n))"

lemma kept_refl: "kept c c"
  by (simp add: kept_def)

lemma keptD: "kept c c' \<Longrightarrow> cat_tables c n = Some t \<Longrightarrow> cat_tables c' n = Some t"
  unfolding kept_def by (metis option.distinct(1))

lemma kept_create:
  assumes "kept c c'" "cat_tables c' n = None" "cat_tables c'' = (cat_tables c')(n \<mapsto> t)" "map_of schema_tables n = Some t"
  shows "kept c c''"
proof -
  have "cat_tables c n = None" using assms(1,2) keptD [of c c' n] by (cases "cat_tables c n") auto
  then show ?thesis using assms(1,3,4) unfolding kept_def by (metis fun_upd_apply)
qed

lemma effect_schema_kept:
  assumes "s \<in> set schema" "effect fk s c' = Some c''" "kept c c'"
  shows "kept c c''"
proof -
  consider "s \<in> {JournalWal, ForeignKeysOn, links_index}" | n t where "s = CreateTable True n t" "(n, t) \<in> set schema_tables"
    using assms(1) unfolding schema_def set_append set_map by fastforce
  then show ?thesis
  proof cases
    case 1
    with assms(2) have "cat_tables c'' = cat_tables c'" by (auto split: option.splits if_splits)
    with assms(3) show ?thesis by (simp add: kept_def)
  next
    case 2
    have "distinct (map fst schema_tables)" by (simp add: schema_tables_def)
    then have "map_of schema_tables n = Some t" using 2(2) by simp
    moreover have "cat_tables c'' = cat_tables c' \<or> (cat_tables c' n = None \<and> cat_tables c'' = (cat_tables c')(n \<mapsto> t))"
      using assms(2) 2(1) by (auto split: if_splits)
    moreover have "kept c c''" if "cat_tables c'' = cat_tables c'" using assms(3) that by (simp add: kept_def)
    ultimately show ?thesis using kept_create [OF assms(3)] by blast
  qed
qed

lemma kept_links:
  assumes "kept c c'"
  shows "link_pairs c' = link_pairs c" "legacy c' = legacy c" "file_ok c \<Longrightarrow> file_ok c'"
proof -
  consider t where "cat_tables c links_name = Some t" "cat_tables c' links_name = Some t"
    | "cat_tables c links_name = None" "cat_tables c' links_name = None"
    | "cat_tables c links_name = None" "cat_tables c' links_name = Some links_table"
  proof -
    have "map_of schema_tables links_name = Some links_table" by (simp add: schema_tables_def)
    then show thesis using assms that unfolding kept_def by (cases "cat_tables c links_name"; cases "cat_tables c' links_name")
        (metis option.inject option.distinct(1))+
  qed
  note cases = this
  have rows: "tb_rows links_table = []" "column_names links_table = [''source_key'', ''persona_id'']"
    by (simp_all add: links_table_def empty_table_def column_names_def col_def refs_def not_null_def cascade_def)
  show 1: "link_pairs c' = link_pairs c" using cases by cases (simp_all add: link_pairs_def rows)
  show "legacy c' = legacy c" using cases by cases (simp_all add: legacy_def rows)
  have "map_of schema_tables links_new_name = None" by (simp add: schema_tables_def)
  then have "cat_tables c' links_new_name = cat_tables c links_new_name"
    using assms unfolding kept_def by metis
  moreover have "(\<forall>t. cat_tables c' links_name = Some t \<longrightarrow> {''source_key'', ''persona_id''} \<subseteq> set (column_names t))"
    if "(\<forall>t. cat_tables c links_name = Some t \<longrightarrow> {''source_key'', ''persona_id''} \<subseteq> set (column_names t))"
    using cases that by cases (simp_all add: rows)
  ultimately show "file_ok c \<Longrightarrow> file_ok c'" using 1 unfolding file_ok_def by metis
qed

lemma schema_plain: "s \<in> set schema \<Longrightarrow> plain s \<or> s = ForeignKeysOn"
  by (auto simp: schema_def plain_def)

lemma script_schema:
  assumes "script schema d = (r, d')" "pending d = None"
  shows "pending d' = None \<and> kept (saved d) (saved d') \<and> r \<noteq> Panic"
  by (rule script_autocommit [OF schema_plain effect_schema_kept assms kept_refl])

subsection \<open>The migration moves every link\<close>

lemma links_table_simps [simp]:
  "column_names (links_table\<lparr>tb_rows := rows\<rparr>) = [''source_key'', ''persona_id'']"
  "column_names links_table = [''source_key'', ''persona_id'']" "tb_rows links_table = []"
  "field (links_table\<lparr>tb_rows := rows\<rparr>) [a, b] ''source_key'' = a"
  "field (links_table\<lparr>tb_rows := rows\<rparr>) [a, b] ''persona_id'' = b"
  "key_of links_table [a, b] = [a]"
  by (simp_all add: links_table_def empty_table_def column_names_def col_def refs_def not_null_def cascade_def
      field_def key_of_def)

lemma replace_new_rows:
  "distinct (map (key_of t) (acc @ rows)) \<Longrightarrow> foldl (\<lambda>rs row. replace_row t row rs) acc rows = acc @ rows"
proof (induction rows arbitrary: acc)
  case (Cons r rows)
  have "filter (\<lambda>x. key_of t x \<noteq> key_of t r) acc = acc"
    using Cons.prems by (auto simp: filter_id_conv rev_image_eqI)
  then have "replace_row t r acc = acc @ [r]" by (simp add: replace_row_def insert_or_replace_def)
  with Cons show ?case by simp
qed simp

definition moved :: "table \<Rightarrow> sql_value list list" where
  "moved t = map (\<lambda>row. [field t row ''source_key'', field t row ''persona_id'']) (tb_rows t)"

definition movable :: "bool \<Rightarrow> catalog \<Rightarrow> table \<Rightarrow> bool" where
  "movable fk c t \<longleftrightarrow> (\<forall>row \<in> set (moved t).
     row_allowed fk (c\<lparr>cat_tables := (cat_tables c)(links_new_name \<mapsto> links_table)\<rparr>) links_table row)"

lemma effects_move_links:
  assumes "file_ok c" "cat_tables c links_name = Some t"
  shows "(effects fk move_links c \<noteq> None \<longleftrightarrow> movable fk c t)
    \<and> (\<forall>c'. effects fk move_links c = Some c' \<longrightarrow>
        cat_tables c' = (cat_tables c)(links_name \<mapsto> links_table\<lparr>tb_rows := moved t\<rparr>)
        \<and> cat_indexes c' ''idx_historical_account_links_persona'' \<noteq> None)"
proof -
  have new: "cat_tables c links_new_name = None" "{''source_key'', ''persona_id''} \<subseteq> set (column_names t)"
    using assms by (simp_all add: file_ok_def)
  have "map (key_of links_table) (moved t) = map (\<lambda>k. [k]) (map fst (link_pairs c))"
    using assms(2) by (simp add: moved_def link_pairs_def)
  moreover have "distinct (map (\<lambda>k. [k]) (map fst (link_pairs c)))"
    using assms(1) by (simp add: file_ok_def distinct_map inj_on_def)
  ultimately have rows: "foldl (\<lambda>rs row. replace_row links_table row rs) [] (moved t) = moved t"
    using replace_new_rows [of links_table "[]" "moved t"] by simp
  let ?c1 = "c\<lparr>cat_tables := (cat_tables c)(links_new_name \<mapsto> links_table)\<rparr>"
  let ?c2 = "c\<lparr>cat_tables := (cat_tables c)(links_new_name \<mapsto> links_table\<lparr>tb_rows := moved t\<rparr>)\<rparr>"
  have 1: "effect fk (CreateTable False links_new_name links_table) c = Some ?c1" using new by simp
  have 2: "effect fk (InsertSelect links_new_name links_name [''source_key'', ''persona_id'']) ?c1 =
      (if movable fk c t then Some ?c2 else None)"
    using new assms(2) rows by (simp add: Let_def movable_def moved_def)
  have 3: "\<exists>c3. effects fk [DropTable links_name, RenameTable links_new_name links_name, links_index] ?c2 = Some c3
      \<and> cat_tables c3 = (cat_tables c)(links_name \<mapsto> links_table\<lparr>tb_rows := moved t\<rparr>)
      \<and> cat_indexes c3 ''idx_historical_account_links_persona'' \<noteq> None"
    using new assms(2) by (auto simp: fun_eq_iff split: option.split)
  then show ?thesis using 1 2 by (auto simp: move_links_def)
qed

lemma link_pairs_moved:
  assumes "cat_tables c links_name = Some t" "cat_tables c' = (cat_tables c)(links_name \<mapsto> links_table\<lparr>tb_rows := moved t\<rparr>)"
  shows "link_pairs c' = link_pairs c" "\<not> legacy c'" "file_ok c \<Longrightarrow> file_ok c'"
proof -
  show 1: "link_pairs c' = link_pairs c" using assms by (simp add: link_pairs_def moved_def)
  show "\<not> legacy c'" using assms by (simp add: legacy_def)
  show "file_ok c \<Longrightarrow> file_ok c'" using assms(2) 1 by (simp add: file_ok_def)
qed

text \<open>The transaction as a whole: all of it or nothing.\<close>

lemma move_links_plain: "s \<in> set move_links \<Longrightarrow> plain s"
  by (auto simp: move_links_def plain_def)

lemma script_append: "script (ss @ ts) = gbind (script ss) (\<lambda>_. script ts)"
  by (induction ss) (auto simp: gbind_def gret_def fun_eq_iff split: prod.split outcome.split)

lemma exec_Begin:
  assumes "exec_ddl Begin d = (r, d')" "pending d = None"
  shows "\<exists>fs. (r = Fail ErrDb \<and> d' = d\<lparr>db_faults := fs\<rparr>) \<or> (r = Ret () \<and> d' = d\<lparr>db_faults := fs, pending := Some (saved d)\<rparr>)"
proof -
  obtain fs where "(r = Fail ErrDb \<and> d' = d\<lparr>db_faults := fs\<rparr>) \<or> (r = Ret () \<and> d' = d\<lparr>db_faults := fs, pending := Some (saved d)\<rparr>)"
    using db_stmt_cases [OF assms(1) [unfolded exec_ddl_def]] assms(2) by auto
  then show ?thesis by blast
qed

lemma exec_Commit:
  assumes "exec_ddl Commit d = (r, d')" "pending d = Some c"
  shows "(r = Fail ErrDb \<and> saved d' = saved d) \<or> (r = Ret () \<and> saved d' = c \<and> pending d' = None)"
  using db_stmt_cases [OF assms(1) [unfolded exec_ddl_def]] assms(2) by auto

lemma transaction:
  assumes "script (Begin # move_links @ [Commit]) d = (r, d')" "pending d = None"
  shows "r \<noteq> Panic \<and> (r \<noteq> Ret () \<longrightarrow> saved d' = saved d)
    \<and> (r = Ret () \<longrightarrow> pending d' = None \<and> effects (foreign_keys d) move_links (saved d) = Some (saved d'))"
proof -
  obtain r1 d1 where 1: "exec_ddl Begin d = (r1, d1)" by force
  note b = exec_Begin [OF 1 assms(2)]
  show ?thesis
  proof (cases "r1 = Ret ()")
    case False
    with b 1 assms(1) show ?thesis by (auto simp: gbind_def)
  next
    case True
    with b have d1: "pending d1 = Some (saved d)" "saved d1 = saved d" "foreign_keys d1 = foreign_keys d" by auto
    obtain r2 d2 where 2: "script move_links d1 = (r2, d2)" by force
    note p = script_pending [OF move_links_plain 2 d1(1)]
    show ?thesis
    proof (cases r2)
      case (Ret u)
      then have e: "effects (foreign_keys d) move_links (saved d) = Some (visible d2)"
        using script_effects [OF move_links_plain, where d = d1 and d' = d2] 2 d1 by simp
      obtain c where c: "pending d2 = Some c" using p by blast
      have "exec_ddl Commit d2 = (r, d')"
        using assms(1) 1 2 True Ret by (auto simp: gbind_def script_append gret_def split: prod.splits outcome.splits)
      from exec_Commit [OF this c] e c p d1 show ?thesis by auto
    qed (use assms(1) 1 2 True p d1 in \<open>auto simp: gbind_def script_append\<close>)
  qed
qed

subsection \<open>What the schema leaves\<close>

definition ready :: "catalog \<Rightarrow> bool" where
  "ready c \<longleftrightarrow> (\<forall>(n, t) \<in> set schema_tables. cat_tables c n \<noteq> None)
     \<and> cat_indexes c ''idx_historical_account_links_persona'' \<noteq> None"

abbreviation creates :: "(string \<times> table) list \<Rightarrow> ddl list" where
  "creates \<equiv> map (\<lambda>(n, t). CreateTable True n t)"

lemma effects_append: "effects fk (ss @ ts) c = Option.bind (effects fk ss c) (effects fk ts)"
  by (induction ss arbitrary: c) (auto split: Option.bind_split)

lemma effects_creates:
  "\<exists>c'. effects fk (creates xs) c = Some c' \<and> (\<forall>(n, t) \<in> set xs. cat_tables c' n \<noteq> None)
     \<and> (\<forall>n. cat_tables c n \<noteq> None \<longrightarrow> cat_tables c' n \<noteq> None)"
proof (induction xs arbitrary: c)
  case (Cons x xs)
  obtain n t where x: "x = (n, t)" by (cases x)
  obtain c1 where c1: "effect fk (CreateTable True n t) c = Some c1" "cat_tables c1 n \<noteq> None"
    "\<forall>m. cat_tables c m \<noteq> None \<longrightarrow> cat_tables c1 m \<noteq> None"
    by (cases "cat_tables c n") auto
  with Cons.IH [of c1] show ?case unfolding x by fastforce
qed simp

lemma effects_kept:
  assumes "set ss \<subseteq> set schema" "effects fk ss c' = Some c''" "kept c c'"
  shows "kept c c''"
  using assms
proof (induction ss arbitrary: c')
  case (Cons s ss)
  then show ?case using effect_schema_kept [of s fk c'] by (auto simp: bind_eq_Some_conv)
qed simp

lemma links_index_effect:
  assumes "file_ok c" "cat_tables c links_name \<noteq> None"
  shows "\<exists>c'. effect fk links_index c = Some c' \<and> cat_tables c' = cat_tables c
    \<and> cat_indexes c' ''idx_historical_account_links_persona'' \<noteq> None"
  using assms by (auto simp: file_ok_def)

lemma effects_schema:
  assumes "file_ok c"
  shows "\<exists>c'. effects fk (creates schema_tables @ [links_index]) c = Some c' \<and> kept c c' \<and> ready c'"
proof -
  obtain c1 where 1: "effects fk (creates schema_tables) c = Some c1" "\<forall>(n, t) \<in> set schema_tables. cat_tables c1 n \<noteq> None"
    using effects_creates by metis
  have "set (creates schema_tables) \<subseteq> set schema" by (auto simp: schema_def)
  then have k: "kept c c1" using 1(1) kept_refl by (rule effects_kept)
  have "(links_name, links_table) \<in> set schema_tables" by (simp add: schema_tables_def)
  with 1(2) have "cat_tables c1 links_name \<noteq> None" by blast
  from links_index_effect [OF kept_links(3) [OF k assms] this, of fk]
  obtain c' where c': "effect fk links_index c1 = Some c'" "cat_tables c' = cat_tables c1"
    "cat_indexes c' ''idx_historical_account_links_persona'' \<noteq> None" by blast
  have "effects fk (creates schema_tables @ [links_index]) c = Some c'"
    using c'(1) by (simp only: effects_append 1(1) effects.simps Option.bind.simps)
  moreover have "kept c c'" using k unfolding kept_def c'(2) .
  moreover have "ready c'" using 1(2) c'(3) unfolding ready_def c'(2) by blast
  ultimately show ?thesis by blast
qed

lemma creates_plain: "s \<in> set (creates xs @ [links_index]) \<Longrightarrow> plain s"
  by (auto simp: plain_def)

lemma schema_split: "schema = [JournalWal, ForeignKeysOn] @ creates schema_tables @ [links_index]"
  by (simp add: schema_def)

lemma script_schema_ok:
  assumes "db_faults d = []" "pending d = None" "file_ok (saved d)"
  shows "\<exists>c. script schema d = (Ret (), d\<lparr>foreign_keys := True, saved := c\<rparr>) \<and> kept (saved d) c \<and> ready c"
proof -
  obtain c where c: "effects True (creates schema_tables @ [links_index]) (saved d) = Some c" "kept (saved d) c" "ready c"
    using effects_schema [OF assms(3)] by blast
  have "script (creates schema_tables @ [links_index]) (d\<lparr>foreign_keys := True\<rparr>) =
      (Ret (), put_catalog c (d\<lparr>foreign_keys := True\<rparr>))"
    using assms c(1) by (intro effects_script creates_plain) auto
  moreover have "exec_ddl JournalWal d = (Ret (), d)" using assms by (simp add: exec_ddl_def db_stmt_ok)
  moreover have "exec_ddl ForeignKeysOn d = (Ret (), d\<lparr>foreign_keys := True\<rparr>)"
    using assms by (simp add: exec_ddl_def db_stmt_ok)
  ultimately have "script schema d = (Ret (), d\<lparr>foreign_keys := True, saved := c\<rparr>)"
    unfolding schema_split using assms by (simp add: gbind_def)
  with c show ?thesis by blast
qed

lemma effects_ready:
  assumes "ready c" "file_ok c"
  shows "effects fk (creates schema_tables @ [links_index]) c = Some c"
proof -
  have "effects fk (creates xs) c = Some c" if "\<forall>(n, t) \<in> set xs. cat_tables c n \<noteq> None" for xs
    using that by (induction xs) auto
  moreover have "effect fk links_index c = Some c"
    using assms by (auto simp: ready_def file_ok_def schema_tables_def)
  ultimately show ?thesis using assms(1) by (simp add: effects_append ready_def)
qed

text \<open>Without faults the statements of a successful run are those of its effects.\<close>

lemma script_schema_Ret:
  assumes "script schema d = (Ret (), d')" "pending d = None" "file_ok (saved d)"
  shows "ready (saved d')"
proof -
  obtain d1 d2 where 1: "exec_ddl JournalWal d = (Ret (), d1)" "exec_ddl ForeignKeysOn d1 = (Ret (), d2)"
    "script (creates schema_tables @ [links_index]) d2 = (Ret (), d')"
    using assms(1) unfolding schema_split by (auto simp: gbind_returns)
  have d1: "pending d1 = None \<and> saved d1 = saved d"
    using exec_plain [OF _ 1(1)] assms(2) by (auto simp: plain_def)
  then have d2: "pending d2 = None \<and> saved d2 = saved d"
    using db_stmt_cases [OF 1(2) [unfolded exec_ddl_def]] by auto
  have "effects (foreign_keys d2) (creates schema_tables @ [links_index]) (visible d2) = Some (visible d') \<and> pending d' = None"
    using script_effects [OF creates_plain 1(3)] d2 by simp
  with effects_schema [OF assms(3), of "foreign_keys d2"] d2 show ?thesis by auto
qed

subsection \<open>Opening a database\<close>

lemma table_info_cases:
  assumes "table_info links_name d = (r, d')" "pending d = None"
  shows "saved d' = saved d \<and> pending d' = None \<and> foreign_keys d' = foreign_keys d \<and> r \<noteq> Panic
    \<and> (\<forall>names. r = Ret names \<longrightarrow> (''verified_by'' \<in> set names \<or> ''verified_at'' \<in> set names \<longleftrightarrow> legacy (saved d)))"
  using db_stmt_cases [OF assms(1) [unfolded table_info_def]] assms(2)
  by (auto simp: legacy_def split: option.splits)

lemma migrate_cases:
  assumes "migrateHistoricalAccountLinks d = (r, d')" "pending d = None" "file_ok (saved d)" "ready (saved d)"
  shows "r \<noteq> Panic \<and> (r \<noteq> Ret () \<longrightarrow> saved d' = saved d) \<and> (r = Ret () \<longrightarrow> pending d' = None \<and> ready (saved d')
    \<and> (if legacy (saved d) then \<exists>t. cat_tables (saved d) links_name = Some t \<and> movable (foreign_keys d) (saved d) t
           \<and> cat_tables (saved d') = (cat_tables (saved d))(links_name \<mapsto> links_table\<lparr>tb_rows := moved t\<rparr>)
       else saved d' = saved d))"
proof -
  obtain r1 d1 where 1: "table_info links_name d = (r1, d1)" by force
  note t = table_info_cases [OF 1 assms(2)]
  show ?thesis
  proof (cases r1)
    case (Ret names)
    show ?thesis
    proof (cases "legacy (saved d)")
      case False
      with t Ret 1 assms(1,4) show ?thesis by (auto simp: migrateHistoricalAccountLinks_def gbind_def gret_def)
    next
      case True
      then obtain tb where tb: "cat_tables (saved d) links_name = Some tb" by (auto simp: legacy_def)
      have s: "script (Begin # move_links @ [Commit]) d1 = (r, d')"
        using True t Ret 1 assms(1) by (auto simp: migrateHistoricalAccountLinks_def gbind_def simp del: script.simps)
      have d1: "pending d1 = None" "saved d1 = saved d" "foreign_keys d1 = foreign_keys d" using t by auto
      note tr = transaction [OF s d1(1), unfolded d1(2,3)]
        and e = effects_move_links [OF assms(3) tb, of "foreign_keys d"]
      have "ready (saved d')" if "cat_tables (saved d') = (cat_tables (saved d))(links_name \<mapsto> links_table\<lparr>tb_rows := moved tb\<rparr>)"
        "cat_indexes (saved d') ''idx_historical_account_links_persona'' \<noteq> None"
        using that assms(4) by (auto simp: ready_def)
      note ready = this
      show ?thesis
      proof (cases "r = Ret ()")
        case ok: True
        with tr have eff: "effects (foreign_keys d) move_links (saved d) = Some (saved d')" by blast
        with e have "movable (foreign_keys d) (saved d) tb"
          "cat_tables (saved d') = (cat_tables (saved d))(links_name \<mapsto> links_table\<lparr>tb_rows := moved tb\<rparr>)"
          "cat_indexes (saved d') ''idx_historical_account_links_persona'' \<noteq> None" by simp_all
        with ready tr ok True tb show ?thesis by simp
      qed (use tr in simp)
    qed
  next
    case (Fail e)
    then have "r = Fail e" "d' = d1"
      using 1 assms(1) by (simp_all add: migrateHistoricalAccountLinks_def gbind_def del: script.simps)
    with t show ?thesis by simp
  qed (use t in simp)
qed

text \<open>The keys that a link can refer to.\<close>

definition persona_keys :: "catalog \<Rightarrow> sql_value set" where
  "persona_keys c = (case cat_tables c ''personas'' of None \<Rightarrow> {} | Some p \<Rightarrow> (\<lambda>row. field p row ''id'') ` set (tb_rows p))"

lemma persona_keys_kept:
  assumes "kept c c'"
  shows "persona_keys c' = persona_keys c"
proof -
  have "map_of schema_tables ''personas'' = Some personas_table" by (simp add: schema_tables_def)
  moreover have "tb_rows personas_table = []" by (simp add: personas_table_def empty_table_def)
  moreover have "cat_tables c' ''personas'' = cat_tables c ''personas''
      \<or> (cat_tables c ''personas'' = None \<and> cat_tables c' ''personas'' = map_of schema_tables ''personas'')"
    using assms by (simp add: kept_def)
  ultimately show ?thesis by (auto simp: persona_keys_def)
qed

lemma movable_iff:
  assumes "cat_tables c links_name = Some t"
  shows "movable True c t \<longleftrightarrow> (\<forall>(k, p) \<in> set (link_pairs c). p \<noteq> SqlNull \<and> p \<in> persona_keys c)"
proof -
  have "row_allowed True (c\<lparr>cat_tables := (cat_tables c)(links_new_name \<mapsto> links_table)\<rparr>) links_table [a, b] \<longleftrightarrow>
      b \<noteq> SqlNull \<and> b \<in> persona_keys c" for a b
    by (auto simp: row_allowed_def links_table_def empty_table_def col_def not_null_def refs_def cascade_def refers_def
        persona_keys_def split: option.splits)
  then show ?thesis using assms by (simp add: movable_def moved_def link_pairs_def)
qed

lemma Init_cases:
  assumes "Init d = (r, d')" "pending d = None" "file_ok (saved d)"
  shows "r \<noteq> Panic \<and> (\<exists>c. kept (saved d) c \<and> (r \<noteq> Ret () \<longrightarrow> saved d' = c)
    \<and> (r = Ret () \<longrightarrow> pending d' = None \<and> ready (saved d') \<and> (if legacy c then \<exists>t. cat_tables c links_name = Some t
           \<and> cat_tables (saved d') = (cat_tables c)(links_name \<mapsto> links_table\<lparr>tb_rows := moved t\<rparr>)
       else saved d' = c)))"
proof -
  obtain r1 d1 where 1: "script schema d = (r1, d1)" by force
  note k = script_schema [OF 1 assms(2)]
  then have f: "file_ok (saved d1)" using kept_links(3) assms(3) by blast
  show ?thesis
  proof (cases r1)
    case (Ret u)
    then have "ready (saved d1)" using script_schema_Ret [of d d1] 1 assms(2,3) by simp
    moreover have "migrateHistoricalAccountLinks d1 = (r, d')"
      using assms(1) 1 Ret by (simp add: Init_def gbind_def)
    ultimately show ?thesis using migrate_cases [of d1 r d'] k f
      by (intro conjI exI [of _ "saved d1"]) (auto split: if_splits)
  qed (use assms(1) 1 k in \<open>auto simp: Init_def gbind_def\<close>)
qed

lemma Store_Close_run: "\<exists>r fs. Store_Close d = (r, disconnect_db (d\<lparr>db_faults := fs\<rparr>)) \<and> r \<noteq> Panic"
proof -
  obtain r d1 where "db_stmt (gret ()) d = (r, d1)" by force
  then show ?thesis using db_stmt_cases [of "gret ()" d r d1] by (fastforce simp: Store_Close_def gret_def)
qed

lemma Open_cases:
  assumes "Open d = (r, d')"
  shows "(r = Fail ErrDb \<and> saved d' = saved d \<and> pending d' = pending d)
    \<or> (\<exists>fs ri di. Init (d\<lparr>db_faults := fs\<rparr>) = (ri, di) \<and> saved d' = saved di
        \<and> (ri = Ret () \<longrightarrow> r = Ret () \<and> d' = di) \<and> (ri \<noteq> Ret () \<longrightarrow> ri \<noteq> Panic \<longrightarrow> r = ri \<and> pending d' = None)
        \<and> (db_faults d = [] \<longrightarrow> fs = []))"
proof -
  obtain r0 d0 where 0: "db_stmt (gret ()) d = (r0, d0)" by force
  show ?thesis
  proof (cases "r0 = Ret ()")
    case False
    with db_stmt_cases [OF 0] have "r0 = Fail ErrDb \<and> saved d0 = saved d \<and> pending d0 = pending d" by (auto simp: gret_def)
    with 0 assms show ?thesis by (simp add: Open_def gbind_def)
  next
    case True
    then obtain fs where fs: "d0 = d\<lparr>db_faults := fs\<rparr>" "db_faults d = [] \<longrightarrow> fs = []"
      using db_stmt_cases [OF 0] 0 by (cases "db_faults d") (auto simp: gret_def db_stmt_ok)
    obtain ri di where i: "Init d0 = (ri, di)" by force
    have o: "gtry Init (\<lambda>e. gbind (gtry Store_Close (\<lambda>_. gret ()) gret) (\<lambda>_. gfail e)) gret d0 = (r, d')"
      using assms 0 True by (simp add: Open_def gbind_def)
    have "(ri = Ret () \<longrightarrow> r = Ret () \<and> d' = di) \<and> saved d' = saved di \<and>
        (ri \<noteq> Ret () \<longrightarrow> ri \<noteq> Panic \<longrightarrow> r = ri \<and> pending d' = None)"
    proof (cases ri)
      case (Fail e)
      obtain rc fc where c: "Store_Close di = (rc, disconnect_db (di\<lparr>db_faults := fc\<rparr>))" "rc \<noteq> Panic"
        using Store_Close_run by blast
      with o i Fail show ?thesis
        by (cases rc) (auto simp: gtry_def gbind_def gret_def gfail_def disconnect_db_def)
    qed (use o i in \<open>auto simp: gtry_def gret_def\<close>)
    with i fs show ?thesis by blast
  qed
qed

lemma file_ok_after:
  assumes "file_ok (saved d)" "kept (saved d) c"
    and "if legacy c then \<exists>t. cat_tables c links_name = Some t \<and> cat_tables c' = (cat_tables c)(links_name \<mapsto> links_table\<lparr>tb_rows := moved t\<rparr>)
         else c' = c"
  shows "file_ok c' \<and> link_pairs c' = link_pairs (saved d) \<and> \<not> legacy c'
    \<and> (\<forall>n t. n \<noteq> links_name \<longrightarrow> cat_tables (saved d) n = Some t \<longrightarrow> cat_tables c' n = Some t)"
proof -
  note k = kept_links [OF assms(2)]
  show ?thesis
  proof (cases "legacy c")
    case True
    then obtain t where t: "cat_tables c links_name = Some t"
      "cat_tables c' = (cat_tables c)(links_name \<mapsto> links_table\<lparr>tb_rows := moved t\<rparr>)" using assms(3) by auto
    with link_pairs_moved [OF t] k assms(1) keptD [OF assms(2)] show ?thesis by simp
  qed (use assms k keptD [OF assms(2)] in simp)
qed

lemma table_info_run:
  assumes "db_faults d = []" "pending d = None"
  shows "\<exists>names. table_info links_name d = (Ret names, d)
    \<and> (''verified_by'' \<in> set names \<or> ''verified_at'' \<in> set names \<longleftrightarrow> legacy (saved d))"
  using assms by (cases "cat_tables (saved d) links_name") (auto simp: table_info_def db_stmt_ok legacy_def)

lemma migrate_current:
  assumes "\<not> legacy (saved d)" "pending d = None" "db_faults d = []"
  shows "migrateHistoricalAccountLinks d = (Ret (), d)"
proof -
  obtain names where "table_info links_name d = (Ret names, d)" "''verified_by'' \<notin> set names \<and> ''verified_at'' \<notin> set names"
    using table_info_run [OF assms(3,2)] assms(1) by blast
  then show ?thesis by (simp add: migrateHistoricalAccountLinks_def gbind_def gret_def del: script.simps)
qed

lemma migrate_legacy:
  assumes "cat_tables (saved d) links_name = Some t" "movable (foreign_keys d) (saved d) t" "legacy (saved d)"
    and "file_ok (saved d)" "pending d = None" "db_faults d = []"
  shows "\<exists>d'. migrateHistoricalAccountLinks d = (Ret (), d')"
proof -
  obtain names where n: "table_info links_name d = (Ret names, d)" "''verified_by'' \<in> set names \<or> ''verified_at'' \<in> set names"
    using table_info_run [OF assms(6,5)] assms(3) by blast
  obtain c where c: "effects (foreign_keys d) move_links (saved d) = Some c"
    using effects_move_links [OF assms(4,1), of "foreign_keys d"] assms(2) by blast
  let ?d1 = "d\<lparr>pending := Some (saved d)\<rparr>"
  have "exec_ddl Begin d = (Ret (), ?d1)" using assms by (simp add: exec_ddl_def db_stmt_ok)
  moreover have "script move_links ?d1 = (Ret (), put_catalog c ?d1)"
    using c assms by (intro effects_script move_links_plain) simp_all
  moreover have "script [Commit] (put_catalog c ?d1) = (Ret (), d\<lparr>saved := c, pending := None\<rparr>)"
    using assms by (simp add: exec_ddl_def db_stmt_ok gbind_def gret_def)
  ultimately have "script (Begin # move_links @ [Commit]) d = (Ret (), d\<lparr>saved := c, pending := None\<rparr>)"
    by (simp only: script.simps(2) script_append gbind_Ret)
  with n show ?thesis by (auto simp: migrateHistoricalAccountLinks_def gbind_def simp del: script.simps)
qed

text \<open>A file that the server has opened once is opened again without a change.\<close>

lemma Open_again:
  assumes "ready (saved d)" "file_ok (saved d)" "\<not> legacy (saved d)" "pending d = None" "db_faults d = []"
  shows "Open d = (Ret (), d\<lparr>foreign_keys := True\<rparr>)"
proof -
  have "script (creates schema_tables @ [links_index]) (d\<lparr>foreign_keys := True\<rparr>) =
      (Ret (), put_catalog (saved d) (d\<lparr>foreign_keys := True\<rparr>))"
    using assms effects_ready by (intro effects_script creates_plain) auto
  moreover have "exec_ddl JournalWal d = (Ret (), d)" using assms by (simp add: exec_ddl_def db_stmt_ok)
  moreover have "exec_ddl ForeignKeysOn d = (Ret (), d\<lparr>foreign_keys := True\<rparr>)"
    using assms by (simp add: exec_ddl_def db_stmt_ok)
  ultimately have "script schema d = (Ret (), d\<lparr>foreign_keys := True\<rparr>)"
    unfolding schema_split using assms by (simp add: gbind_def)
  moreover have "migrateHistoricalAccountLinks (d\<lparr>foreign_keys := True\<rparr>) = (Ret (), d\<lparr>foreign_keys := True\<rparr>)"
    using assms by (intro migrate_current) simp_all
  ultimately show ?thesis using assms(5) by (simp add: Open_def Init_def gbind_def gtry_def gret_def db_stmt_ok)
qed

text \<open>All that opening a database does to its file, the error cases included.\<close>

lemma Open_kept:
  assumes "Open d = (r, d')" "pending d = None" "file_ok (saved d)"
  shows "r \<noteq> Panic \<and> pending d' = None \<and> file_ok (saved d') \<and> link_pairs (saved d') = link_pairs (saved d)
    \<and> (\<forall>n t. n \<noteq> links_name \<longrightarrow> cat_tables (saved d) n = Some t \<longrightarrow> cat_tables (saved d') n = Some t)
    \<and> (r \<noteq> Ret () \<longrightarrow> legacy (saved d') = legacy (saved d))
    \<and> (r = Ret () \<longrightarrow> (\<forall>(n, t) \<in> set schema_tables. cat_tables (saved d') n \<noteq> None) \<and> \<not> legacy (saved d')
        \<and> (db_faults d' = [] \<longrightarrow> (\<exists>d''. Open d' = (Ret (), d'') \<and> saved d'' = saved d')))"
  using Open_cases [OF assms(1)]
proof (elim disjE exE conjE)
  assume "r = Fail ErrDb" "saved d' = saved d" "pending d' = pending d"
  then show ?thesis using assms by simp
next
  fix fs ri di
  assume i: "Init (d\<lparr>db_faults := fs\<rparr>) = (ri, di)" "saved d' = saved di" "ri = Ret () \<longrightarrow> r = Ret () \<and> d' = di"
    "ri \<noteq> Ret () \<longrightarrow> ri \<noteq> Panic \<longrightarrow> r = ri \<and> pending d' = None"
  obtain c where c: "ri \<noteq> Panic" "kept (saved d) c" "ri \<noteq> Ret () \<longrightarrow> saved di = c"
    "ri = Ret () \<longrightarrow> pending di = None \<and> ready (saved di) \<and> (if legacy c then \<exists>t. cat_tables c links_name = Some t
       \<and> cat_tables (saved di) = (cat_tables c)(links_name \<mapsto> links_table\<lparr>tb_rows := moved t\<rparr>) else saved di = c)"
    using Init_cases [OF i(1)] assms(2,3) by auto
  show ?thesis
  proof (cases "ri = Ret ()")
    case True
    then have s: "file_ok (saved d') \<and> link_pairs (saved d') = link_pairs (saved d) \<and> \<not> legacy (saved d')
        \<and> (\<forall>n t. n \<noteq> links_name \<longrightarrow> cat_tables (saved d) n = Some t \<longrightarrow> cat_tables (saved d') n = Some t)"
      using file_ok_after [OF assms(3) c(2), of "saved d'"] c(4) i(2) by simp
    moreover have "ready (saved d')" "pending d' = None" "r = Ret ()" using True c(4) i by auto
    moreover have "\<exists>d''. Open d' = (Ret (), d'') \<and> saved d'' = saved d'" if "db_faults d' = []"
      using Open_again [of d'] that s \<open>ready (saved d')\<close> \<open>pending d' = None\<close> by simp
    ultimately show ?thesis by (simp add: ready_def)
  next
    case False
    then have "saved d' = c" "r = ri" "pending d' = None" "r \<noteq> Ret ()" using c(1,3) i by auto
    with c(1) kept_links [OF c(2)] keptD [OF c(2)] assms(3) show ?thesis by simp
  qed
qed

text \<open>
  C7. Opening a database never loses a link or touches other data: whichever statements fail, the file
  has afterwards the same links, with the same personas in the same order, and every other table as it
  was. If it succeeds, all tables of the schema exist, the old columns are gone, and opening the file
  once more changes nothing; if it fails, no half-done migration is left behind.
\<close>

theorem Open_migrates:
  assumes "Open d = (r, d')" "pending d = None" "file_ok (saved d)"
  shows "r \<noteq> Panic \<and> pending d' = None \<and> file_ok (saved d') \<and> link_pairs (saved d') = link_pairs (saved d)
    \<and> (\<forall>n t. n \<noteq> links_name \<longrightarrow> cat_tables (saved d) n = Some t \<longrightarrow> cat_tables (saved d') n = Some t)
    \<and> (r \<noteq> Ret () \<longrightarrow> legacy (saved d') = legacy (saved d))
    \<and> (r = Ret () \<longrightarrow> (\<forall>(n, t) \<in> set schema_tables. cat_tables (saved d') n \<noteq> None) \<and> \<not> legacy (saved d')
        \<and> (db_faults d' = [] \<longrightarrow> (\<exists>d''. Open d' = (Ret (), d'') \<and> saved d'' = saved d')))"
  by (rule Open_kept [OF assms])

text \<open>
  C8. The server can open every database whose links are sound, and no other: without faults \<open>Open\<close>
  succeeds on a new file and on every file of the current form, and on a file with the old columns
  exactly if each link names an existing persona.
\<close>

theorem Open_starts:
  assumes "db_faults d = []" "pending d = None" "file_ok (saved d)"
  shows "(\<exists>d'. Open d = (Ret (), d')) \<longleftrightarrow>
    (legacy (saved d) \<longrightarrow> (\<forall>(k, p) \<in> set (link_pairs (saved d)). p \<noteq> SqlNull \<and> p \<in> persona_keys (saved d)))"
proof -
  obtain c where c: "script schema d = (Ret (), d\<lparr>foreign_keys := True, saved := c\<rparr>)" "kept (saved d) c" "ready c"
    using script_schema_ok [OF assms] by blast
  let ?d = "d\<lparr>foreign_keys := True, saved := c\<rparr>"
  have f: "file_ok c" using kept_links(3) [OF c(2) assms(3)] .
  obtain r d' where m: "migrateHistoricalAccountLinks ?d = (r, d')" by force
  have "(\<exists>d'. Open d = (Ret (), d')) \<longleftrightarrow> r = Ret ()"
    using c(1) m assms(1) Store_Close_run [of d']
    by (cases r) (auto simp: Open_def Init_def gbind_def gtry_def gret_def gfail_def db_stmt_ok split: outcome.splits)
  also have "\<dots> \<longleftrightarrow> (legacy c \<longrightarrow> (\<forall>(k, p) \<in> set (link_pairs c). p \<noteq> SqlNull \<and> p \<in> persona_keys c))"
  proof (cases "legacy c")
    case False
    then have "migrateHistoricalAccountLinks ?d = (Ret (), ?d)" using assms by (intro migrate_current) simp_all
    with m False show ?thesis by simp
  next
    case True
    then obtain t where t: "cat_tables c links_name = Some t" by (auto simp: legacy_def)
    have "r = Ret () \<longleftrightarrow> movable True c t"
    proof
      assume "r = Ret ()"
      then show "movable True c t" using migrate_cases [OF m] assms(2) c(3) f True t by auto
    next
      assume "movable True c t"
      then show "r = Ret ()" using migrate_legacy [of ?d t] t True f assms(1,2) m by auto
    qed
    then show ?thesis using movable_iff [OF t] True by simp
  qed
  finally show ?thesis using kept_links [OF c(2)] persona_keys_kept [OF c(2)] by simp
qed

text \<open>A database of an older server: one persona, one verified link.\<close>

definition old_links :: table where
  "old_links = \<lparr>tb_columns = tb_columns links_table @ [col ''verified_by'' ''TEXT'', stamped ''verified_at''],
     tb_key = [''source_key''], tb_rows = [[SqlText ''player-7'', SqlInt 1, SqlText ''admin'', SqlText ''2024-01-01'']]\<rparr>"

definition old_file :: catalog where
  "old_file = \<lparr>cat_tables = [''personas'' \<mapsto> personas_table\<lparr>tb_rows := [[SqlInt 1, SqlInt 1, SqlText ''Faith'', SqlText ''t'']]\<rparr>,
     links_name \<mapsto> old_links], cat_indexes = Map.empty\<rparr>"

lemma old_file_facts:
  "link_pairs old_file = [(SqlText ''player-7'', SqlInt 1)]" "file_ok old_file" "legacy old_file"
  "persona_keys old_file = {SqlInt 1}"
  by (simp_all add: link_pairs_def file_ok_def legacy_def persona_keys_def old_file_def old_links_def field_def column_names_def
      links_table_def personas_table_def empty_table_def col_def not_null_def refs_def cascade_def uniq_def stamped_def default_def)

theorem Open_starts_witness:
  "\<exists>d'. Open \<lparr>saved = old_file, pending = None, foreign_keys = False, db_faults = []\<rparr> = (Ret (), d')"
  using Open_starts [of "\<lparr>saved = old_file, pending = None, foreign_keys = False, db_faults = []\<rparr>"]
  by (simp add: old_file_facts)

text \<open>The statement that drops the old table has run when the next one fails: the link is still there.\<close>

theorem Open_migrates_witness:
  "link_pairs (saved (snd (Open \<lparr>saved = old_file, pending = None, foreign_keys = False,
     db_faults = replicate 17 False @ [True]\<rparr>))) = [(SqlText ''player-7'', SqlInt 1)]"
  using Open_migrates [of "\<lparr>saved = old_file, pending = None, foreign_keys = False, db_faults = replicate 17 False @ [True]\<rparr>"
      "fst (Open \<lparr>saved = old_file, pending = None, foreign_keys = False, db_faults = replicate 17 False @ [True]\<rparr>)"
      "snd (Open \<lparr>saved = old_file, pending = None, foreign_keys = False, db_faults = replicate 17 False @ [True]\<rparr>)"]
  by (simp add: old_file_facts del: replicate_Suc)

end
