(* ===== verification/Interleave.thy ===== *)
theory Interleave
  imports Prelude
begin

text \<open>
  Calls that run at the same time. A call is a \<open>prog\<close>: the next statement on the shared state, and what
  follows it. Run alone it is an ordinary call of the model (\<open>solo\<close>); in a pool, the statements of
  different calls interleave in any order. The locale \<open>rely_guarantee\<close> has the proof rules: every
  statement only moves the state forward in a preorder, so what a call has seen stays true until its
  next statement.
\<close>

subsection \<open>Calls as sequences of statements\<close>

datatype ('s, 'a) prog = Done "'a outcome" | Stmt "'s \<Rightarrow> ('s, 'a) prog \<times> 's"

primrec solo :: "('s, 'a) prog \<Rightarrow> ('s, 'a) go" where
  "solo (Done r) = (\<lambda>w. (r, w))"
| "solo (Stmt g) = (\<lambda>w. case (map_prod solo id \<circ> g) w of (k, w') \<Rightarrow> k w')"

primrec pbind :: "('s, 'a) prog \<Rightarrow> ('a \<Rightarrow> ('s, 'b) prog) \<Rightarrow> ('s, 'b) prog" where
  "pbind (Done r) f = (case r of Ret x \<Rightarrow> f x | Fail e \<Rightarrow> Done (Fail e) | Panic \<Rightarrow> Done Panic)"
| "pbind (Stmt g) f = Stmt (map_prod (\<lambda>p. pbind p f) id \<circ> g)"

definition pret :: "'a \<Rightarrow> ('s, 'a) prog" where "pret x = Done (Ret x)"
definition pfail :: "go_error \<Rightarrow> ('s, 'a) prog" where "pfail e = Done (Fail e)"

text \<open>A call of the model that is one statement.\<close>

definition atom :: "('s, 'a) go \<Rightarrow> ('s, 'a) prog" where
  "atom m = Stmt (\<lambda>w. case m w of (r, w') \<Rightarrow> (Done r, w'))"

fun pfold :: "('x \<Rightarrow> 'a \<Rightarrow> ('s, 'a) prog) \<Rightarrow> 'x list \<Rightarrow> 'a \<Rightarrow> ('s, 'a) prog" where
  "pfold body [] acc = pret acc"
| "pfold body (x # xs) acc = pbind (body x acc) (pfold body xs)"

named_theorems solo_run "running the calls of the model alone"

lemma solo_Done [solo_run]: "solo (pret x) = gret x" "solo (pfail e) = gfail e"
  by (simp_all add: pret_def pfail_def gret_def gfail_def)

lemma solo_atom [solo_run]: "solo (atom m) = m"
  by (simp add: atom_def fun_eq_iff split: prod.split)

lemma solo_pbind [solo_run]: "solo (pbind p f) = gbind (solo p) (\<lambda>x. solo (f x))"
proof (induction p)
  case (Done r)
  then show ?case by (cases r) (simp_all add: gbind_def fun_eq_iff)
next
  case (Stmt g)
  show ?case
  proof
    fix w
    obtain p w' where g: "g w = (p, w')" by force
    then have "solo (pbind p f) w' = gbind (solo p) (\<lambda>x. solo (f x)) w'"
      using Stmt [of "(p, w')" p] by (metis fsts.intros fst_conv rangeI)
    with g show "solo (pbind (Stmt g) f) w = gbind (solo (Stmt g)) (\<lambda>x. solo (f x)) w"
      by (simp add: gbind_def)
  qed
qed

lemma solo_pfold [solo_run]: "solo (pfold body xs acc) = gfold (\<lambda>x a. solo (body x a)) xs acc"
  by (induction body xs acc rule: pfold.induct) (simp_all add: solo_run)

lemma solo_control [solo_run]:
  "solo (if b then p else q) = (if b then solo p else solo q)"
  "solo (case v of None \<Rightarrow> p | Some x \<Rightarrow> f x) = (case v of None \<Rightarrow> solo p | Some x \<Rightarrow> solo (f x))"
  by (simp_all split: option.split)

subsection \<open>Pools of calls\<close>

text \<open>
  The calls in progress by number, each with the request it answers. A step starts a call that its
  precondition allows, runs the next statement of one call, forgets a call that has returned, or is a
  move of the environment.
\<close>

record ('s, 'c, 'a) pool =
  pl_state :: 's
  pl_calls :: "nat \<rightharpoonup> 'c \<times> ('s, 'a) prog"

inductive pool_step ::
  "('c \<Rightarrow> ('s, 'a) prog) \<Rightarrow> ('c \<Rightarrow> 's \<Rightarrow> bool) \<Rightarrow> ('s \<Rightarrow> 's \<Rightarrow> bool) \<Rightarrow> ('s, 'c, 'a) pool \<Rightarrow> ('s, 'c, 'a) pool \<Rightarrow> bool"
  for code may env where
  call: "pl_calls S i = None \<Longrightarrow> may c (pl_state S) \<Longrightarrow>
    pool_step code may env S (S\<lparr>pl_calls := (pl_calls S)(i \<mapsto> (c, code c))\<rparr>)"
| statement: "pl_calls S i = Some (c, Stmt g) \<Longrightarrow> g (pl_state S) = (p, w') \<Longrightarrow>
    pool_step code may env S (S\<lparr>pl_state := w', pl_calls := (pl_calls S)(i \<mapsto> (c, p))\<rparr>)"
| forget: "pl_calls S i = Some (c, Done r) \<Longrightarrow>
    pool_step code may env S (S\<lparr>pl_calls := (pl_calls S)(i := None)\<rparr>)"
| environment: "env (pl_state S) w' \<Longrightarrow> pool_step code may env S (S\<lparr>pl_state := w'\<rparr>)"

inductive_cases pool_step_cases: "pool_step code may env S S'"

text \<open>A scheduler: the numbers of the calls whose statements run, in order.\<close>

definition advance :: "nat \<Rightarrow> ('s, 'c, 'a) pool \<Rightarrow> ('s, 'c, 'a) pool" where
  "advance i S = (case pl_calls S i of
      Some (c, Stmt g) \<Rightarrow> (case g (pl_state S) of (p, w') \<Rightarrow>
        S\<lparr>pl_state := w', pl_calls := (pl_calls S)(i \<mapsto> (c, p))\<rparr>)
    | _ \<Rightarrow> S)"

definition run_turns :: "nat list \<Rightarrow> ('s, 'c, 'a) pool \<Rightarrow> ('s, 'c, 'a) pool" where
  "run_turns turns S = fold advance turns S"

text \<open>One turn of a call whose next statement is known.\<close>

lemma pbind_assoc: "pbind (pbind p f) g = pbind p (\<lambda>x. pbind (f x) g)"
proof (induction p)
  case (Done r)
  then show ?case by (cases r) simp_all
next
  case (Stmt h)
  have "pbind (pbind (fst (h w)) f) g = pbind (fst (h w)) (\<lambda>x. pbind (f x) g)" for w
    using Stmt [of "h w" "fst (h w)"] by (metis fsts.intros rangeI)
  then have "(map_prod (\<lambda>p. pbind p g) id \<circ> (map_prod (\<lambda>p. pbind p f) id \<circ> h)) w =
      (map_prod (\<lambda>p. pbind p (\<lambda>x. pbind (f x) g)) id \<circ> h) w" for w
    by (simp add: map_prod_def split_beta)
  then show ?case unfolding pbind.simps by (intro arg_cong [where f = Stmt] ext)
qed

lemma pbind_pret: "pbind (pret x) f = f x" "pbind (pfail e) f = pfail e"
  by (simp_all add: pret_def pfail_def)

definition two_calls :: "'c \<Rightarrow> 'c \<Rightarrow> 's \<Rightarrow> ('s, 'a) prog \<Rightarrow> ('s, 'a) prog \<Rightarrow> ('s, 'c, 'a) pool" where
  "two_calls c d w p q = \<lparr>pl_state = w, pl_calls = [0 \<mapsto> (c, p), 1 \<mapsto> (d, q)]\<rparr>"

lemma advance_two:
  "advance 0 (two_calls c d w (pbind (atom m) f) q) = two_calls c d (snd (m w))
     (case fst (m w) of Ret x \<Rightarrow> f x | Fail e \<Rightarrow> Done (Fail e) | Panic \<Rightarrow> Done Panic) q"
  "advance 1 (two_calls c d w p (pbind (atom m) f)) = two_calls c d (snd (m w)) p
     (case fst (m w) of Ret x \<Rightarrow> f x | Fail e \<Rightarrow> Done (Fail e) | Panic \<Rightarrow> Done Panic)"
  by (simp_all add: two_calls_def advance_def atom_def fun_upd_twist split: prod.split)

lemma advance_steps: "(pool_step code may env)\<^sup>*\<^sup>* S (advance i S)"
  by (auto simp: advance_def intro: pool_step.statement split: option.split prog.split prod.split)

lemma run_turns_steps: "(pool_step code may env)\<^sup>*\<^sup>* S (run_turns turns S)"
proof (induction turns arbitrary: S)
  case (Cons i turns)
  then show ?case using rtranclp_trans [OF advance_steps Cons.IH] by (simp add: run_turns_def)
qed (simp add: run_turns_def)

subsection \<open>Rely and guarantee\<close>

text \<open>
  \<open>rgg rely guar p Q w\<close>: from \<open>w\<close> on, if the others only take steps in \<open>rely\<close> between the statements of \<open>p\<close>,
  every statement of \<open>p\<close> takes a step in \<open>guar\<close>, and the result satisfies \<open>Q\<close>. \<open>rg grow\<close> has one relation for
  both: everybody makes the state grow.
\<close>

primrec rgg :: "('s \<Rightarrow> 's \<Rightarrow> bool) \<Rightarrow> ('s \<Rightarrow> 's \<Rightarrow> bool) \<Rightarrow> ('s, 'a) prog \<Rightarrow> ('a outcome \<Rightarrow> 's \<Rightarrow> bool) \<Rightarrow> 's \<Rightarrow> bool" where
  "rgg rely guar (Done r) = (\<lambda>Q w. Q r w)"
| "rgg rely guar (Stmt g) = (\<lambda>Q w0. \<forall>w. rely w0 w \<longrightarrow>
     (case (map_prod (rgg rely guar) id \<circ> g) w of (k, w') \<Rightarrow> guar w w' \<and> k Q w'))"

abbreviation rg where "rg grow \<equiv> rgg grow grow"

lemma rgg_atom:
  "(\<And>w r w'. rely w0 w \<Longrightarrow> m w = (r, w') \<Longrightarrow> guar w w' \<and> Q r w') \<Longrightarrow> rgg rely guar (atom m) Q w0"
  by (simp add: atom_def split: prod.split)

lemma rgg_conseq: "rgg rely guar p Q w \<Longrightarrow> (\<And>r w. Q r w \<Longrightarrow> R r w) \<Longrightarrow> rgg rely guar p R w"
proof (induction p arbitrary: w)
  case (Stmt g)
  show ?case unfolding rgg.simps
  proof (intro allI impI)
    fix w1
    assume "rely w w1"
    obtain p w2 where g: "g w1 = (p, w2)" by force
    have "guar w1 w2 \<and> rgg rely guar p Q w2" using Stmt.prems(1) \<open>rely w w1\<close> g by auto
    moreover have "rgg rely guar p R w2" using Stmt.IH [of "(p, w2)" p w2] calculation g Stmt.prems(2)
      by (metis fsts.intros fst_conv rangeI)
    ultimately show "case (map_prod (rgg rely guar) id \<circ> g) w1 of (k, w') \<Rightarrow> guar w1 w' \<and> k R w'" using g by simp
  qed
qed simp

text \<open>What holds at the start and survives every step holds at the end as well.\<close>

lemma rgg_frame:
  assumes "\<And>w w'. I w \<Longrightarrow> rely w w' \<Longrightarrow> I w'" "\<And>w w'. I w \<Longrightarrow> guar w w' \<Longrightarrow> I w'"
  shows "rgg rely guar p Q w \<Longrightarrow> I w \<Longrightarrow> rgg rely guar p (\<lambda>r w. Q r w \<and> I w) w"
proof (induction p arbitrary: w)
  case (Stmt g)
  show ?case unfolding rgg.simps
  proof (intro allI impI)
    fix w1
    assume w1: "rely w w1"
    obtain p w2 where g: "g w1 = (p, w2)" by force
    have "guar w1 w2 \<and> rgg rely guar p Q w2" using Stmt.prems(1) w1 g by auto
    moreover have "I w2" using assms w1 calculation Stmt.prems(2) by blast
    moreover have "rgg rely guar p (\<lambda>r w. Q r w \<and> I w) w2" using Stmt.IH [of "(p, w2)" p w2] calculation g
      by (metis fsts.intros fst_conv rangeI)
    ultimately show "case (map_prod (rgg rely guar) id \<circ> g) w1 of (k, w') \<Rightarrow> guar w1 w' \<and> k (\<lambda>r w. Q r w \<and> I w) w'"
      using g by simp
  qed
qed simp

text \<open>What follows a program runs from where it ends.\<close>

primrec pcase :: "('s, 'a) prog \<Rightarrow> ('a outcome \<Rightarrow> ('s, 'b) prog) \<Rightarrow> ('s, 'b) prog" where
  "pcase (Done r) f = f r"
| "pcase (Stmt g) f = Stmt (map_prod (\<lambda>p. pcase p f) id \<circ> g)"

lemma rgg_pcase: "rgg rely guar p (\<lambda>r. rgg rely guar (f r) Q) w0 \<Longrightarrow> rgg rely guar (pcase p f) Q w0"
proof (induction p arbitrary: w0)
  case (Stmt g)
  show ?case unfolding rgg.simps pcase.simps
  proof (intro allI impI)
    fix w1
    assume "rely w0 w1"
    obtain p w2 where g: "g w1 = (p, w2)" by force
    with Stmt.prems \<open>rely w0 w1\<close> have "guar w1 w2" "rgg rely guar p (\<lambda>r. rgg rely guar (f r) Q) w2" by auto
    then have "rgg rely guar (pcase p f) Q w2" using Stmt.IH [of "(p, w2)" p w2] g by (metis fsts.intros fst_conv rangeI)
    with \<open>guar w1 w2\<close> g show "case (map_prod (rgg rely guar) id \<circ> (map_prod (\<lambda>p. pcase p f) id \<circ> g)) w1 of
        (k, w') \<Rightarrow> guar w1 w' \<and> k Q w'" by simp
  qed
qed simp

lemma solo_pcase [solo_run]: "solo (pcase p f) = (\<lambda>w. case solo p w of (r, w') \<Rightarrow> solo (f r) w')"
proof (induction p)
  case (Stmt g)
  show ?case
  proof
    fix w
    obtain p w' where g: "g w = (p, w')" by force
    then have "solo (pcase p f) w' = (case solo p w' of (r, w'') \<Rightarrow> solo (f r) w'')"
      using Stmt [of "(p, w')" p] by (metis fsts.intros fst_conv rangeI)
    with g show "solo (pcase (Stmt g) f) w = (case solo (Stmt g) w of (r, w') \<Rightarrow> solo (f r) w')" by simp
  qed
qed simp

lemma pbind_pcase: "pbind p f = pcase p (\<lambda>r. case r of Ret x \<Rightarrow> f x | Fail e \<Rightarrow> Done (Fail e) | Panic \<Rightarrow> Done Panic)"
proof (induction p)
  case (Stmt g)
  have "pbind (fst (g w)) f = pcase (fst (g w)) (\<lambda>r. case r of Ret x \<Rightarrow> f x | Fail e \<Rightarrow> Done (Fail e) | Panic \<Rightarrow> Done Panic)" for w
    using Stmt [of "g w" "fst (g w)"] by (metis fsts.intros rangeI)
  then show ?case by (simp add: fun_eq_iff map_prod_def split_beta)
qed simp

text \<open>A call whose error is handled.\<close>

definition ptry :: "('s, 'a) prog \<Rightarrow> (go_error \<Rightarrow> ('s, 'b) prog) \<Rightarrow> ('a \<Rightarrow> ('s, 'b) prog) \<Rightarrow> ('s, 'b) prog" where
  "ptry p h f = pcase p (\<lambda>r. case r of Ret x \<Rightarrow> f x | Fail e \<Rightarrow> h e | Panic \<Rightarrow> Done Panic)"

lemma solo_ptry [solo_run]: "solo (ptry p h f) = gtry (solo p) (\<lambda>e. solo (h e)) (\<lambda>x. solo (f x))"
  by (simp add: ptry_def solo_pcase gtry_def fun_eq_iff split: prod.split outcome.split)

text \<open>
  The logic of \<open>triple\<close> for programs under interference: an assertion in front of a statement must survive
  what the others do, and the statement must be a step in \<open>guar\<close>.
\<close>

definition ends_as :: "('a \<Rightarrow> 's \<Rightarrow> bool) \<Rightarrow> ('s \<Rightarrow> bool) \<Rightarrow> 'a outcome \<Rightarrow> 's \<Rightarrow> bool" where
  "ends_as Q E r s = (case r of Ret x \<Rightarrow> Q x s | _ \<Rightarrow> E s)"

lemma ends_as_simps [simp]: "ends_as Q E (Ret x) = Q x" "ends_as Q E (Fail e) = E" "ends_as Q E Panic = E"
  by (simp_all add: ends_as_def fun_eq_iff)

definition ptriple :: "('s \<Rightarrow> 's \<Rightarrow> bool) \<Rightarrow> ('s \<Rightarrow> 's \<Rightarrow> bool) \<Rightarrow> ('s \<Rightarrow> bool) \<Rightarrow> ('s, 'a) prog \<Rightarrow> ('a \<Rightarrow> 's \<Rightarrow> bool) \<Rightarrow> ('s \<Rightarrow> bool) \<Rightarrow> bool" where
  "ptriple rely guar P p Q E \<longleftrightarrow> (\<forall>s. P s \<longrightarrow> rgg rely guar p (ends_as Q E) s)"

lemma ptripleD: "ptriple rely guar P p Q E \<Longrightarrow> P s \<Longrightarrow> rgg rely guar p (ends_as Q E) s"
  by (simp add: ptriple_def)

lemma ptriple_atom:
  assumes "triple P m Q E" "\<And>s s'. P s \<Longrightarrow> rely s s' \<Longrightarrow> P s'" "\<And>s. P s \<Longrightarrow> guar s (snd (m s))"
  shows "ptriple rely guar P (atom m) Q E"
  unfolding ptriple_def
proof (intro allI impI rgg_atom)
  fix s s1 r s2
  assume "P s" "rely s s1" "m s1 = (r, s2)"
  moreover from this have "P s1" using assms(2) by blast
  ultimately show "guar s1 s2 \<and> ends_as Q E r s2"
    using assms(1) assms(3) [of s1] by (fastforce simp: triple_def ends_as_def split: outcome.splits)
qed

lemma ptriple_pcase:
  assumes "ptriple rely guar P p M E" "\<And>x. ptriple rely guar (M x) (f (Ret x)) Q E'"
    "\<And>r. r = Panic \<or> (\<exists>e. r = Fail e) \<Longrightarrow> ptriple rely guar E (f r) Q E'"
  shows "ptriple rely guar P (pcase p f) Q E'"
  unfolding ptriple_def
proof (intro allI impI rgg_pcase)
  fix s
  assume "P s"
  from ptripleD [OF assms(1) this] show "rgg rely guar p (\<lambda>r. rgg rely guar (f r) (ends_as Q E')) s"
  proof (rule rgg_conseq)
    fix r s1
    assume "ends_as M E r s1"
    then show "rgg rely guar (f r) (ends_as Q E') s1"
      using assms(2,3) by (cases r) (auto simp: ptriple_def)
  qed
qed

lemma ptriple_pbind:
  assumes "ptriple rely guar P p M E" "\<And>x. ptriple rely guar (M x) (f x) Q E"
  shows "ptriple rely guar P (pbind p f) Q E"
  unfolding pbind_pcase by (rule ptriple_pcase [OF assms(1)]) (auto simp: assms(2), auto simp: ptriple_def)

lemma ptriple_ptry:
  assumes "ptriple rely guar P p M E" "\<And>e. ptriple rely guar E (h e) Q E'" "\<And>x. ptriple rely guar (M x) (f x) Q E'"
    and "\<And>s. E s \<Longrightarrow> E' s"
  shows "ptriple rely guar P (ptry p h f) Q E'"
  unfolding ptry_def by (rule ptriple_pcase [OF assms(1)]) (auto simp: assms(2,3), auto simp: ptriple_def assms(4))

lemma ptriple_Done: "(\<And>s. P s \<Longrightarrow> Q x s) \<Longrightarrow> ptriple rely guar P (pret x) Q E" "(\<And>s. P s \<Longrightarrow> E s) \<Longrightarrow> ptriple rely guar P (pfail e) Q E"
  by (simp_all add: ptriple_def pret_def pfail_def)

lemma ptriple_conseq:
  assumes "ptriple rely guar P p Q E" "\<And>s. P' s \<Longrightarrow> P s" "\<And>x s. Q x s \<Longrightarrow> Q' x s" "\<And>s. E s \<Longrightarrow> E' s"
  shows "ptriple rely guar P' p Q' E'"
  unfolding ptriple_def
proof (intro allI impI)
  fix s
  assume "P' s"
  from ptripleD [OF assms(1) assms(2) [OF this]] show "rgg rely guar p (ends_as Q' E') s"
  proof (rule rgg_conseq)
    show "ends_as Q' E' r w" if "ends_as Q E r w" for r w using that assms(3,4) by (cases r) auto
  qed
qed

lemma ptriple_if:
  "(b \<Longrightarrow> ptriple rely guar P p Q E) \<Longrightarrow> (\<not> b \<Longrightarrow> ptriple rely guar P q Q E) \<Longrightarrow> ptriple rely guar P (if b then p else q) Q E"
  by simp

lemma ptriple_case_option:
  "(v = None \<Longrightarrow> ptriple rely guar P p Q E) \<Longrightarrow> (\<And>x. v = Some x \<Longrightarrow> ptriple rely guar P (f x) Q E) \<Longrightarrow>
   ptriple rely guar P (case v of None \<Rightarrow> p | Some x \<Rightarrow> f x) Q E"
  by (cases v) auto

lemma ptriple_pfold:
  assumes "\<And>x acc. ptriple rely guar I (body x acc) (\<lambda>_. I) I"
  shows "ptriple rely guar I (pfold body xs acc) (\<lambda>_. I) I"
  by (induction xs arbitrary: acc) (auto intro: ptriple_Done(1) ptriple_pbind [OF assms])

definition stable :: "('s \<Rightarrow> 's \<Rightarrow> bool) \<Rightarrow> ('a \<Rightarrow> 's \<Rightarrow> bool) \<Rightarrow> bool" where
  "stable grow Q \<longleftrightarrow> (\<forall>r w w'. Q r w \<longrightarrow> grow w w' \<longrightarrow> Q r w')"

locale rely_guarantee =
  fixes grow :: "'s \<Rightarrow> 's \<Rightarrow> bool"
  assumes grow_refl: "grow w w" and grow_trans: "grow w1 w2 \<Longrightarrow> grow w2 w3 \<Longrightarrow> grow w1 w3"
begin

lemma rg_pret: "Q (Ret x) w \<Longrightarrow> rg grow (pret x) Q w"
  by (simp add: pret_def)

lemma rg_pfail: "Q (Fail e) w \<Longrightarrow> rg grow (pfail e) Q w"
  by (simp add: pfail_def)

lemma rg_atom:
  "(\<And>w r w'. grow w0 w \<Longrightarrow> m w = (r, w') \<Longrightarrow> grow w w' \<and> Q r w') \<Longrightarrow> rg grow (atom m) Q w0"
  by (simp add: atom_def split: prod.split)

lemmas rg_conseq = rgg_conseq [of grow grow]

lemma rg_pbind:
  "rg grow p (\<lambda>r w. case r of Ret x \<Rightarrow> rg grow (f x) Q w | Fail e \<Rightarrow> Q (Fail e) w | Panic \<Rightarrow> Q Panic w) w0 \<Longrightarrow>
   rg grow (pbind p f) Q w0"
  unfolding pbind_pcase by (rule rgg_pcase, erule rgg_conseq) (auto split: outcome.splits)

lemma rg_pfold:
  assumes "stable grow (\<lambda>(_ :: unit). I)" "I w"
    and "\<And>x acc w. I w \<Longrightarrow> rg grow (body x acc) (\<lambda>r w. I w) w"
  shows "rg grow (pfold body xs acc) (\<lambda>r w. I w) w"
  using assms(2)
proof (induction xs arbitrary: acc w)
  case (Cons x xs)
  have "rg grow (body x acc) (\<lambda>r w. case r of Ret y \<Rightarrow> rg grow (pfold body xs y) (\<lambda>r. I) w | Fail e \<Rightarrow> I w | Panic \<Rightarrow> I w) w"
    by (rule rg_conseq [OF assms(3) [OF Cons.prems]]) (simp add: Cons.IH split: outcome.split)
  then show ?case by (simp add: rg_pbind)
qed (simp add: rg_pret)

text \<open>What others do meanwhile cannot spoil a call.\<close>

lemma rg_grow:
  assumes "stable grow Q" "grow w0 w1"
  shows "rg grow p Q w0 \<Longrightarrow> rg grow p Q w1"
  using assms by (cases p) (auto simp: stable_def intro: grow_trans)

end

text \<open>
  A pool whose calls, once allowed, meet their rely-guarantee specification: the state only grows, and
  every call that has returned has established its postcondition, which still holds.
\<close>

locale concurrent_calls = rely_guarantee grow for grow :: "'s \<Rightarrow> 's \<Rightarrow> bool" +
  fixes code :: "'c \<Rightarrow> ('s, 'a) prog" and may :: "'c \<Rightarrow> 's \<Rightarrow> bool"
    and env :: "'s \<Rightarrow> 's \<Rightarrow> bool" and post :: "'c \<Rightarrow> 'a outcome \<Rightarrow> 's \<Rightarrow> bool"
  assumes meets: "may c w \<Longrightarrow> rg grow (code c) (post c) w"
    and lasting: "stable grow (post c)"
    and environment_grows: "env w w' \<Longrightarrow> grow w w'"
begin

definition pool_ok :: "('s, 'c, 'a) pool \<Rightarrow> bool" where
  "pool_ok S \<longleftrightarrow> (\<forall>i c p. pl_calls S i = Some (c, p) \<longrightarrow> rg grow p (post c) (pl_state S))"

lemma pool_okD: "pool_ok S \<Longrightarrow> pl_calls S i = Some (c, p) \<Longrightarrow> rg grow p (post c) (pl_state S)"
  unfolding pool_ok_def by blast

lemma pool_step_ok:
  assumes "pool_step code may env S S'" "pool_ok S"
  shows "grow (pl_state S) (pl_state S') \<and> pool_ok S'"
  using assms(1)
proof cases
  case (call i c)
  with assms(2) meets show ?thesis by (auto simp: pool_ok_def grow_refl)
next
  case (statement i c g p w')
  have "rg grow (Stmt g) (post c) (pl_state S)" using assms(2) statement(2) by (rule pool_okD)
  then have "case (map_prod (rg grow) id \<circ> g) (pl_state S) of (k, w') \<Rightarrow> grow (pl_state S) w' \<and> k (post c) w'"
    using grow_refl by simp
  then have "grow (pl_state S) w'" "rg grow p (post c) w'" using statement(3) by auto
  with assms(2) statement(1) show ?thesis
    by (auto simp: pool_ok_def intro: rg_grow [OF lasting])
next
  case (forget i c r)
  with assms(2) show ?thesis by (auto simp: pool_ok_def grow_refl)
next
  case (environment w')
  with assms(2) show ?thesis
    by (auto simp: pool_ok_def intro: rg_grow [OF lasting] environment_grows)
qed

lemma pool_reachable:
  assumes "(pool_step code may env)\<^sup>*\<^sup>* S S'" "pl_calls S = Map.empty"
  shows "grow (pl_state S) (pl_state S')"
    and "pl_calls S' i = Some (c, Done r) \<Longrightarrow> post c r (pl_state S')"
proof -
  have "grow (pl_state S) (pl_state S') \<and> pool_ok S'" using assms(1)
  proof (induction rule: rtranclp_induct)
    case base
    then show ?case using assms(2) by (simp add: pool_ok_def grow_refl)
  next
    case (step S1 S2)
    then show ?case using pool_step_ok grow_trans by blast
  qed
  then show "grow (pl_state S) (pl_state S')" "pl_calls S' i = Some (c, Done r) \<Longrightarrow> post c r (pl_state S')"
    using pool_okD [of S' i c "Done r"] by simp_all
qed

end

end
