(* ===== verification/Concurrency.thy ===== *)
theory Concurrency
  imports Interleave Safety
begin

text \<open>
  The store under concurrent sessions (\<open>server/storage/storage.go\<close>). Each connection has a goroutine of
  its own, and the methods of \<open>Store\<close> that need several statements run them without a transaction, so
  the statements of different sessions interleave. Here every method that writes is a sequence of
  statements, which run alone is the method as modelled elsewhere, and the schema's constraints and the
  ownership of names are proved for every interleaving.
\<close>

subsection \<open>The methods statement by statement\<close>

definition CreateAccount_steps :: "string \<Rightarrow> string \<Rightarrow> (world, Account option) prog" where
  "CreateAccount_steps nuid password =
     pbind (atom (draw 16)) (\<lambda>salt.
     pbind (atom (stmt (\<lambda>w. let w' = insert_account nuid (hashPassword salt password) w
                            in (Ret (length (accounts w') - length (accounts w)), w')))) (\<lambda>affected.
     if affected = 0 then pfail ErrAccountExists
     else atom (GetAccountByNUID nuid)))"

definition ValidateAccount_steps :: "string \<Rightarrow> string \<Rightarrow> (world, Account option) prog" where
  "ValidateAccount_steps nuid password =
     pbind (atom (GetAccountByNUID nuid)) (\<lambda>found. case found of
       None \<Rightarrow> pret None
     | Some account \<Rightarrow>
        if \<not> verifyPassword password (acc_Password account) then pret None
        else if \<not> prefix (passwordScheme @ ''$'') (acc_Password account) then
          pbind (atom (draw 16)) (\<lambda>salt.
          pbind (atom (exec_sql (update_password (acc_ID account) (hashPassword salt password)))) (\<lambda>_.
          atom (GetAccountByNUID nuid)))
        else pret (Some account))"

definition IssueLoginToken_steps :: "int \<Rightarrow> (world, string) prog" where
  "IssueLoginToken_steps aid =
     pbind (atom (draw loginTokenBytes)) (\<lambda>buf.
     pbind (atom (RevokeLoginTokens aid)) (\<lambda>_.
     pbind (atom (insert_token (hashLoginToken (generateLoginToken buf)) aid)) (\<lambda>_.
     pret (generateLoginToken buf))))"

definition AccountByLoginToken_steps :: "string \<Rightarrow> (world, Account option) prog" where
  "AccountByLoginToken_steps token =
     (if \<not> ValidLoginToken token then pret None
      else pbind (atom (query (token_account token))) (\<lambda>found. case found of
             None \<Rightarrow> pret None
           | Some account \<Rightarrow> pbind (atom (exec_sql (touch_token token))) (\<lambda>_. pret (Some account))))"

definition GetOrCreatePersona_steps :: "int \<Rightarrow> string \<Rightarrow> (world, Persona) prog" where
  "GetOrCreatePersona_steps aid name =
     pbind (atom (LookupPersonaByName name)) (\<lambda>found. case found of
       Some existing \<Rightarrow>
         if per_AccountID existing \<noteq> aid then pfail ErrPersonaNameTaken else pret existing
     | None \<Rightarrow>
         pbind (atom (exec_sql (insert_persona aid name))) (\<lambda>_.
         pbind (atom (LookupPersonaByName name)) (\<lambda>again. case again of
             None \<Rightarrow> pfail ErrNoRows
           | Some persona \<Rightarrow>
               if per_AccountID persona \<noteq> aid then pfail ErrPersonaNameTaken
               else pret persona)))"

definition UpdateStats_steps :: "int \<Rightarrow> (string \<times> float64) list \<Rightarrow> int \<Rightarrow> (world, unit) prog" where
  "UpdateStats_steps pid values periodID =
     pfold (\<lambda>(key, v) _. atom (upsert_stat pid key v periodID)) values ()"

definition AddHistoricalRun_steps ::
  "string \<Rightarrow> string \<Rightarrow> int \<Rightarrow> string \<Rightarrow> float64 \<Rightarrow> int \<Rightarrow> string \<Rightarrow> string \<Rightarrow> string \<Rightarrow> (world, unit) prog" where
  "AddHistoricalRun_steps sourceKey name stretchID key v periodID runID weblink updatedAt =
     pbind (atom (exec_sql (insert_player sourceKey name))) (\<lambda>_.
     atom (stmt (\<lambda>w. case query_row (\<lambda>hp. hp_source_key hp = sourceKey) (historical_players w) of
         None \<Rightarrow> (Fail ErrNotNull, w)
       | Some hp \<Rightarrow>
           if v = NaN then (Fail ErrNotNull, w)
           else (Ret (), w\<lparr>historical_runs := insert_or_replace run_key
             \<lparr>hr_player_id = hp_id hp, hr_stretch_id = stretchID, hr_key = key, hr_value = real_column v,
              hr_period_id = periodID, hr_run_id = runID, hr_weblink = weblink,
              hr_updated_at = updatedAt\<rparr> (historical_runs w)\<rparr>))))"

definition LinkHistoricalAccount_steps :: "string \<Rightarrow> int \<Rightarrow> (world, unit) prog" where
  "LinkHistoricalAccount_steps sourceKey pid =
     pbind (atom (PersonaByID pid)) (\<lambda>persona. case persona of
       None \<Rightarrow> pfail ErrNoRows
     | Some _ \<Rightarrow>
        pbind (atom (query (\<lambda>w. query_row (\<lambda>hp. hp_source_key hp = sourceKey) (historical_players w)))) (\<lambda>player.
        case player of
          None \<Rightarrow> pfail ErrNoRows
        | Some _ \<Rightarrow> atom (exec_sql (\<lambda>w. w\<lparr>historical_account_links := insert_or_update ln_source_key
            \<lparr>ln_source_key = sourceKey, ln_persona_id = pid\<rparr> (historical_account_links w)\<rparr>))))"

text \<open>Run alone, they are the methods.\<close>

lemma steps_solo:
  "solo (CreateAccount_steps nuid pw) = CreateAccount nuid pw"
  "solo (ValidateAccount_steps nuid pw) = ValidateAccount nuid pw"
  "solo (IssueLoginToken_steps aid) = IssueLoginToken aid"
  "solo (AccountByLoginToken_steps token) = AccountByLoginToken token"
  "solo (GetOrCreatePersona_steps aid name) = GetOrCreatePersona aid name"
  "solo (UpdateStats_steps pid vs period) = UpdateStats pid vs period"
  "solo (AddHistoricalRun_steps sk name stretch key v period rid link upd) = AddHistoricalRun sk name stretch key v period rid link upd"
  "solo (LinkHistoricalAccount_steps sk pid) = LinkHistoricalAccount sk pid"
  by (simp_all add: CreateAccount_steps_def CreateAccount_def ValidateAccount_steps_def ValidateAccount_def
      IssueLoginToken_steps_def IssueLoginToken_def AccountByLoginToken_steps_def AccountByLoginToken_def
      GetOrCreatePersona_steps_def GetOrCreatePersona_def UpdateStats_steps_def UpdateStats_def
      AddHistoricalRun_steps_def AddHistoricalRun_def LinkHistoricalAccount_steps_def LinkHistoricalAccount_def
      solo_run Let_def prod.case_distrib [where h = solo] case_prod_beta' cong: if_cong option.case_cong)

subsection \<open>Calls of the store\<close>

datatype store_call =
    CreateAccountCall string string
  | ValidateAccountCall string string
  | IssueLoginTokenCall int
  | AccountByLoginTokenCall string
  | GetOrCreatePersonaCall int string
  | AddAssociationCall int int string
  | DeleteAssociationCall int int string
  | UpdateStatsCall int "(string \<times> float64) list" int
  | AddHistoricalRunCall string string int string float64 int string string string
  | LinkHistoricalAccountCall string int
  | UnlinkHistoricalAccountCall string

datatype store_value =
    AccountValue "Account option" | TokenValue string | PersonaValue Persona | BoolValue bool | NoValue

abbreviation returns :: "('a \<Rightarrow> 'b) \<Rightarrow> ('s, 'a) prog \<Rightarrow> ('s, 'b) prog" where
  "returns f p \<equiv> pbind p (\<lambda>x. pret (f x))"

fun store_code :: "store_call \<Rightarrow> (world, store_value) prog" where
  "store_code (CreateAccountCall nuid pw) = returns AccountValue (CreateAccount_steps nuid pw)"
| "store_code (ValidateAccountCall nuid pw) = returns AccountValue (ValidateAccount_steps nuid pw)"
| "store_code (IssueLoginTokenCall aid) = returns TokenValue (IssueLoginToken_steps aid)"
| "store_code (AccountByLoginTokenCall token) = returns AccountValue (AccountByLoginToken_steps token)"
| "store_code (GetOrCreatePersonaCall aid name) = returns PersonaValue (GetOrCreatePersona_steps aid name)"
| "store_code (AddAssociationCall pid fid t) = returns BoolValue (atom (AddAssociation pid fid t))"
| "store_code (DeleteAssociationCall pid fid t) = returns (\<lambda>_. NoValue) (atom (DeleteAssociation pid fid t))"
| "store_code (UpdateStatsCall pid vs period) = returns (\<lambda>_. NoValue) (UpdateStats_steps pid vs period)"
| "store_code (AddHistoricalRunCall sk name stretch key v period rid link upd) =
     returns (\<lambda>_. NoValue) (AddHistoricalRun_steps sk name stretch key v period rid link upd)"
| "store_code (LinkHistoricalAccountCall sk pid) = returns (\<lambda>_. NoValue) (LinkHistoricalAccount_steps sk pid)"
| "store_code (UnlinkHistoricalAccountCall sk) = returns (\<lambda>_. NoValue) (atom (UnlinkHistoricalAccount sk))"

text \<open>A session passes on ids that it has read: the account it is logged in to, personas it has looked up.\<close>

fun may_call :: "store_call \<Rightarrow> world \<Rightarrow> bool" where
  "may_call (IssueLoginTokenCall aid) w \<longleftrightarrow> aid \<in> account_ids w"
| "may_call (GetOrCreatePersonaCall aid name) w \<longleftrightarrow> aid \<in> account_ids w"
| "may_call (AddAssociationCall pid fid t) w \<longleftrightarrow> pid \<in> persona_ids w \<and> fid \<in> persona_ids w"
| "may_call (UpdateStatsCall pid vs period) w \<longleftrightarrow> pid \<in> persona_ids w"
| "may_call _ w \<longleftrightarrow> True"

text \<open>Time passes, statements fail, SQLite orders rows as it likes.\<close>

definition db_moves :: "world \<Rightarrow> world \<Rightarrow> bool" where
  "db_moves w w' \<longleftrightarrow> (\<exists>t fs rows rnd n f. w' = w\<lparr>clock := t, faults := fs, row_order := rows, random := rnd,
     random_pos := n, scan_timestamp := f\<rparr>)"

abbreviation store_step :: "(world, store_call, store_value) pool \<Rightarrow> (world, store_call, store_value) pool \<Rightarrow> bool" where
  "store_step \<equiv> pool_step store_code may_call db_moves"

subsection \<open>What every statement preserves\<close>

text \<open>
  The database only grows: the constraints stay, no account and no imported player is lost or renamed,
  and the row of a persona (its id, its owner, its name) never changes.
\<close>

definition identities :: "world \<Rightarrow> (int \<times> string) set" where
  "identities w = (\<lambda>a. (acc_ID a, acc_NUID a)) ` set (accounts w)"

definition grows :: "world \<Rightarrow> world \<Rightarrow> bool" where
  "grows w w' \<longleftrightarrow> (tables_ok w \<longrightarrow> tables_ok w') \<and> identities w \<subseteq> identities w'
     \<and> set (personas w) \<subseteq> set (personas w') \<and> player_keys w \<subseteq> player_keys w'"

interpretation store_rg: rely_guarantee grows
  by unfold_locales (auto simp: grows_def)

lemma grows_ids:
  assumes "grows w w'"
  shows "account_ids w \<subseteq> account_ids w'" "persona_ids w \<subseteq> persona_ids w'"
proof -
  have "account_ids v = fst ` identities v" for v by (force simp: account_ids_def identities_def)
  with assms show "account_ids w \<subseteq> account_ids w'" unfolding grows_def by (metis image_mono)
  from assms show "persona_ids w \<subseteq> persona_ids w'" unfolding grows_def persona_ids_def by (metis image_mono)
qed

lemma grows_oracle [simp]: "grows w (w\<lparr>faults := fs\<rparr>)" "grows w (w\<lparr>random_pos := n\<rparr>)"
  using tables_ok_invariant by (simp_all add: grows_def identities_def player_keys_def table_invariant_def)

lemma db_moves_grows: "db_moves w w' \<Longrightarrow> grows w w'"
  by (auto simp: db_moves_def grows_def identities_def player_keys_def tables_ok_defs)

lemma grows_stmt:
  assumes "\<And>v. grows w v \<Longrightarrow> grows v (snd (m v))"
  shows "grows w (snd (stmt m w))"
proof -
  have "grows w (snd (m v))" if "grows w v" for v using assms that store_rg.grow_trans by blast
  then show ?thesis using store_rg.grow_refl by (auto simp: stmt_def split: list.splits bool.splits)
qed

lemma grows_query [simp]: "grows w (snd (query f w))"
  unfolding query_def by (rule grows_stmt) (simp add: store_rg.grow_refl)

lemma grows_exec: "(\<And>v. grows w v \<Longrightarrow> grows v (f v)) \<Longrightarrow> grows w (snd (exec_sql f w))"
  unfolding exec_sql_def by (rule grows_stmt) simp

lemma grows_draw [simp]: "grows w (snd (draw n w))"
  by (simp add: draw_def)

text \<open>The single statements that write.\<close>

lemma grows_update_password [simp]: "grows w (update_password aid hash w)"
proof -
  have "map (\<lambda>a. (acc_ID a, acc_NUID a)) (accounts (update_password aid hash w)) = map (\<lambda>a. (acc_ID a, acc_NUID a)) (accounts w)"
    by (simp add: update_password_def)
  then have "identities (update_password aid hash w) = identities w"
    unfolding identities_def by (metis list.set_map)
  then show ?thesis
    using tables_ok_update_password by (simp add: grows_def player_keys_def) (simp add: update_password_def)
qed

lemma grows_insert_account [simp]: "grows w (insert_account nuid hash w)"
  using tables_ok_insert_account
  by (auto simp: grows_def identities_def player_keys_def insert_account_def set_insert_or_ignore)

lemma grows_touch_token [simp]: "grows w (touch_token token w)"
  using tables_ok_touch_token [of w token] by (simp add: grows_def identities_def player_keys_def touch_token_def)

text \<open>A statement on other tables grows the database when it keeps the constraints.\<close>

lemma grows_frame:
  assumes "keeps (db_ok (account_ids w) (persona_ids w)) m"
    and "accounts (snd (m w)) = accounts w" "personas (snd (m w)) = personas w"
    "historical_players (snd (m w)) = historical_players w"
  shows "grows w (snd (m w))"
proof -
  have "tables_ok (snd (m w))" if "tables_ok w"
    using assms(1) that by (auto simp: keeps_def db_ok_def)
  with assms(2-4) show ?thesis by (simp add: grows_def identities_def player_keys_def)
qed

lemma grows_tokens: "grows w (snd (RevokeLoginTokens aid w))" "aid \<in> account_ids w \<Longrightarrow> grows w (snd (insert_token h aid w))"
proof -
  show "grows w (snd (RevokeLoginTokens aid w))"
    by (rule grows_frame [OF keeps_RevokeLoginTokens])
       (auto simp: RevokeLoginTokens_def exec_sql_def stmt_def split: list.splits bool.splits)
  show "grows w (snd (insert_token h aid w))" if "aid \<in> account_ids w"
    by (rule grows_frame [OF keeps_insert_token [OF that]])
       (auto simp: insert_token_def stmt_def split: list.splits bool.splits)
qed

lemma grows_associations:
  "pid \<in> persona_ids w \<Longrightarrow> fid \<in> persona_ids w \<Longrightarrow> grows w (snd (AddAssociation pid fid t w))"
  "grows w (snd (DeleteAssociation pid fid t w))"
proof -
  show "grows w (snd (AddAssociation pid fid t w))" if "pid \<in> persona_ids w" "fid \<in> persona_ids w"
    by (rule grows_frame [OF keeps_AddAssociation [OF that]])
       (auto simp: AddAssociation_def stmt_def Let_def split: list.splits bool.splits)
  show "grows w (snd (DeleteAssociation pid fid t w))"
    by (rule grows_frame [OF keeps_DeleteAssociation])
       (auto simp: DeleteAssociation_def exec_sql_def stmt_def split: list.splits bool.splits)
qed

lemma grows_stats: "pid \<in> persona_ids w \<Longrightarrow> grows w (snd (upsert_stat pid key v period w))"
  by (rule grows_frame [OF keeps_upsert_stat]) (auto simp: upsert_stat_def stmt_def split: list.splits bool.splits)

lemma grows_unlink: "grows w (snd (UnlinkHistoricalAccount sk w))"
  by (rule grows_frame [OF keeps_UnlinkHistoricalAccount])
     (auto simp: UnlinkHistoricalAccount_def exec_sql_def stmt_def split: list.splits bool.splits)

lemma grows_insert_persona: "aid \<in> account_ids w \<Longrightarrow> grows w (insert_persona aid name w)"
  using tables_ok_insert_persona [of w aid name]
  by (auto simp: grows_def identities_def player_keys_def insert_persona_def set_insert_or_ignore)

lemma grows_insert_player: "grows w (insert_player sk name w)"
  using tables_ok_insert_player [of w sk name]
  by (auto simp: grows_def identities_def player_keys_def insert_player_def set_insert_or_ignore)

lemma grows_run:
  "grows w (snd (case query_row (\<lambda>hp. hp_source_key hp = sk) (historical_players w) of
         None \<Rightarrow> (Fail ErrNotNull, w)
       | Some hp \<Rightarrow>
           if v = NaN then (Fail ErrNotNull, w)
           else (Ret (), w\<lparr>historical_runs := insert_or_replace run_key
             \<lparr>hr_player_id = hp_id hp, hr_stretch_id = stretch, hr_key = key, hr_value = real_column v,
              hr_period_id = period, hr_run_id = rid, hr_weblink = link, hr_updated_at = upd\<rparr> (historical_runs w)\<rparr>)))"
  by (auto simp: grows_def identities_def player_keys_def tables_ok_def historical_ok_def query_row_def
      set_insert_or_replace split: option.splits dest: find_SomeD intro: distinct_insert_or_replace)

lemma grows_link:
  "pid \<in> persona_ids w \<Longrightarrow> sk \<in> player_keys w \<Longrightarrow>
   grows w (w\<lparr>historical_account_links := insert_or_update ln_source_key
     \<lparr>ln_source_key = sk, ln_persona_id = pid\<rparr> (historical_account_links w)\<rparr>)"
  by (auto simp: grows_def identities_def player_keys_def tables_ok_def links_ok_def set_insert_or_update
      intro: distinct_insert_or_update)

subsection \<open>Every method meets its specification\<close>

definition persona_of :: "int \<Rightarrow> string \<Rightarrow> Persona \<Rightarrow> world \<Rightarrow> bool" where
  "persona_of aid name p w \<longleftrightarrow> (\<exists>q \<in> set (personas w). per_ID q = per_ID p \<and> per_Name q = name \<and> per_AccountID q = aid)"

definition taken_from :: "int \<Rightarrow> string \<Rightarrow> world \<Rightarrow> bool" where
  "taken_from aid name w \<longleftrightarrow> (\<exists>q \<in> set (personas w). per_Name q = name \<and> per_AccountID q \<noteq> aid)"

definition claimed :: "int \<Rightarrow> string \<Rightarrow> Persona outcome \<Rightarrow> world \<Rightarrow> bool" where
  "claimed aid name r w \<longleftrightarrow> (\<forall>p. r = Ret p \<longrightarrow> persona_of aid name p w)
     \<and> (r = Fail ErrPersonaNameTaken \<longrightarrow> taken_from aid name w)"

text \<open>What a returned call leaves for good.\<close>

fun store_post :: "store_call \<Rightarrow> store_value outcome \<Rightarrow> world \<Rightarrow> bool" where
  "store_post (CreateAccountCall nuid pw) r w \<longleftrightarrow>
     (r = Fail ErrAccountExists \<or> (\<exists>a. r = Ret (AccountValue (Some a))) \<longrightarrow> nuid \<in> snd ` identities w)"
| "store_post (GetOrCreatePersonaCall aid name) r w \<longleftrightarrow>
     (\<forall>p. r = Ret (PersonaValue p) \<longrightarrow> persona_of aid name p w)
     \<and> (r = Fail ErrPersonaNameTaken \<longrightarrow> taken_from aid name w)"
| "store_post _ r w \<longleftrightarrow> True"

lemma store_post_stable: "stable grows (store_post c)"
proof -
  have "store_post c r w'" if "store_post c r w" "grows w w'" for r w w'
  proof (cases c)
    case (CreateAccountCall nuid pw)
    have "snd ` identities w \<subseteq> snd ` identities w'" using that(2) by (auto simp: grows_def)
    with that(1) CreateAccountCall show ?thesis by auto
  next
    case (GetOrCreatePersonaCall aid name)
    have "set (personas w) \<subseteq> set (personas w')" using that(2) by (simp add: grows_def)
    with that(1) show ?thesis
      unfolding GetOrCreatePersonaCall store_post.simps persona_of_def taken_from_def by blast
  qed simp_all
  then show ?thesis unfolding stable_def by blast
qed

text \<open>Statements whose result does not matter, and the queries whose result does.\<close>

lemma rg_next:
  assumes "\<And>w. grows w0 w \<Longrightarrow> grows w (snd (m w))"
    and "\<And>x w. grows w0 w \<Longrightarrow> rg grows (f x) Q w" "\<And>e w. grows w0 w \<Longrightarrow> Q (Fail e) w" "\<And>w. grows w0 w \<Longrightarrow> Q Panic w"
  shows "rg grows (pbind (atom m) f) Q w0"
proof (intro store_rg.rg_pbind store_rg.rg_atom conjI)
  fix w r w'
  assume w: "grows w0 w" "m w = (r, w')"
  then show g: "grows w w'" using assms(1) [of w] by simp
  have "grows w0 w'" using store_rg.grow_trans [OF w(1) g] .
  with assms(2-4) show "case r of Ret x \<Rightarrow> rg grows (f x) Q w' | Fail e \<Rightarrow> Q (Fail e) w' | Panic \<Rightarrow> Q Panic w'"
    by (cases r) simp_all
qed

lemma rg_query:
  assumes "\<And>w. grows w0 w \<Longrightarrow> rg grows (k (f w)) Q w" "\<And>w v. grows w0 w \<Longrightarrow> f (w\<lparr>faults := v\<rparr>) = f w"
    "\<And>e w. grows w0 w \<Longrightarrow> Q (Fail e) w"
  shows "rg grows (pbind (atom (query f)) k) Q w0"
proof (intro store_rg.rg_pbind store_rg.rg_atom conjI)
  fix w r w'
  assume w: "grows w0 w" "query f w = (r, w')"
  then show g: "grows w w'" using grows_query [of w f] by simp
  have g0: "grows w0 w'" using store_rg.grow_trans [OF w(1) g] .
  show "case r of Ret x \<Rightarrow> rg grows (k x) Q w' | Fail e \<Rightarrow> Q (Fail e) w' | Panic \<Rightarrow> Q Panic w'"
  proof (cases r)
    case (Ret x)
    with w(2) obtain fs where "w' = w\<lparr>faults := fs\<rparr>" "x = f w'" using query_returns [of f w x w'] by auto
    then show ?thesis using assms(1) [OF g0] Ret by simp
  next
    case (Fail e)
    then show ?thesis using assms(3) g0 by simp
  next
    case Panic
    then show ?thesis using no_panic_sql(1) [of f] w(2) by (metis fst_conv no_panic_def)
  qed
qed

lemma rg_last:
  assumes "\<And>w r w'. grows w0 w \<Longrightarrow> m w = (r, w') \<Longrightarrow> grows w w'" "\<And>r w. grows w0 w \<Longrightarrow> Q r w"
  shows "rg grows (atom m) Q w0"
  using assms store_rg.grow_trans by (intro store_rg.rg_atom) blast

lemma grows_lookups [simp]:
  "grows w (snd (GetAccountByNUID nuid w))" "grows w (snd (LookupPersonaByName name w))" "grows w (snd (PersonaByID pid w))"
  by (simp_all add: GetAccountByNUID_def LookupPersonaByName_def PersonaByID_def)

lemma rg_returns:
  assumes "rg grows p (\<lambda>r w. Q (case r of Ret x \<Rightarrow> Ret (f x) | Fail e \<Rightarrow> Fail e | Panic \<Rightarrow> Panic) w) w"
  shows "rg grows (returns f p) Q w"
  by (rule store_rg.rg_pbind, rule store_rg.rg_conseq [OF assms]) (auto simp: pret_def split: outcome.splits)

abbreviation grow_only :: "'a outcome \<Rightarrow> world \<Rightarrow> bool" where
  "grow_only \<equiv> \<lambda>r w. True"

lemma rg_accounts:
  "rg grows (ValidateAccount_steps nuid pw) grow_only w" "rg grows (AccountByLoginToken_steps token) grow_only w"
  "aid \<in> account_ids w \<Longrightarrow> rg grows (IssueLoginToken_steps aid) grow_only w"
proof -
  have get: "rg grows (atom (GetAccountByNUID nuid)) grow_only v" for v
    by (rule rg_last) (metis grows_lookups(1) snd_conv, simp)
  show "rg grows (ValidateAccount_steps nuid pw) grow_only w"
    unfolding ValidateAccount_steps_def
    by (intro rg_next; (auto split: option.split intro!: store_rg.rg_pret rg_next get grows_exec)?)
  show "rg grows (AccountByLoginToken_steps token) grow_only w"
    unfolding AccountByLoginToken_steps_def
    by (auto split: option.split intro!: store_rg.rg_pret rg_next grows_exec)
  have tok: "grows v (snd (insert_token h aid v))" if "aid \<in> account_ids w" "grows w v" for h v
    using grows_ids(1) [OF that(2)] that(1) by (intro grows_tokens(2)) auto
  show "rg grows (IssueLoginToken_steps aid) grow_only w" if aid: "aid \<in> account_ids w"
    unfolding IssueLoginToken_steps_def
  proof (intro rg_next store_rg.rg_pret TrueI grows_draw grows_tokens(1))
    fix buf w1 x w2 w3
    assume "grows w w1" "grows w1 w2" "grows w2 w3"
    then show "grows w3 (snd (insert_token (hashLoginToken (generateLoginToken buf)) aid w3))"
      using tok [OF aid] store_rg.grow_trans by meson
  qed
qed

lemma CreateAccount_insert:
  assumes "stmt (\<lambda>w. let w' = insert_account nuid h w in (Ret (length (accounts w') - length (accounts w)), w')) w = (r, w')"
  shows "grows w w' \<and> (\<forall>n. r = Ret n \<longrightarrow> nuid \<in> snd ` identities w') \<and> r \<noteq> Fail ErrAccountExists"
proof -
  have "nuid \<in> snd ` identities (insert_account nuid h v)" for v
    by (force simp: identities_def insert_account_def set_insert_or_ignore)
  then have "(\<forall>n. r = Ret n \<longrightarrow> nuid \<in> snd ` identities w') \<and> r \<noteq> Fail ErrAccountExists"
    using assms by (auto simp: stmt_def Let_def split: list.splits bool.splits)
  moreover have "grows w (snd (stmt (\<lambda>w. let w' = insert_account nuid h w in (Ret (length (accounts w') - length (accounts w)), w')) w))"
    by (rule grows_stmt) (simp add: Let_def)
  ultimately show ?thesis using assms by simp
qed

lemma identity_stable: "nuid \<in> snd ` identities w \<Longrightarrow> grows w w' \<Longrightarrow> nuid \<in> snd ` identities w'"
  by (auto simp: grows_def)

lemma rg_CreateAccount:
  "rg grows (CreateAccount_steps nuid pw)
     (\<lambda>r w. (\<exists>a. r = Ret (Some a)) \<or> r = Fail ErrAccountExists \<longrightarrow> nuid \<in> snd ` identities w) w"
proof -
  let ?Q = "\<lambda>r w. (\<exists>a :: Account. r = Ret (Some a)) \<or> r = Fail ErrAccountExists \<longrightarrow> nuid \<in> snd ` identities w"
  have last: "rg grows (if n = 0 then pfail ErrAccountExists else atom (GetAccountByNUID nuid)) ?Q v"
    if "nuid \<in> snd ` identities v" for n :: nat and v
  proof -
    have "rg grows (atom (GetAccountByNUID nuid)) ?Q v"
    proof (rule rg_last)
      show "grows w w'" if "GetAccountByNUID nuid w = (r, w')" for w r w'
        using grows_lookups(1) [where w = w and nuid = nuid] that by simp
      show "?Q r w" if "grows v w" for r w using identity_stable [OF \<open>nuid \<in> snd ` identities v\<close> that] by blast
    qed
    with that show ?thesis by (simp add: store_rg.rg_pfail)
  qed
  have ins: "rg grows (pbind (atom (stmt (\<lambda>w. let w' = insert_account nuid (hashPassword salt pw) w
        in (Ret (length (accounts w') - length (accounts w)), w')))) (\<lambda>n. if n = 0 then pfail ErrAccountExists
        else atom (GetAccountByNUID nuid))) ?Q v" for salt v
  proof (intro store_rg.rg_pbind store_rg.rg_atom)
    fix w1 r w2
    assume "stmt (\<lambda>w. let w' = insert_account nuid (hashPassword salt pw) w
        in (Ret (length (accounts w') - length (accounts w)), w')) w1 = (r, w2)"
    from CreateAccount_insert [OF this] last
    show "grows w1 w2 \<and> (case r of Ret x \<Rightarrow> rg grows (if x = 0 then pfail ErrAccountExists else atom (GetAccountByNUID nuid)) ?Q w2
        | Fail e \<Rightarrow> ?Q (Fail e) w2 | Panic \<Rightarrow> ?Q Panic w2)"
      by (cases r) simp_all
  qed
  show ?thesis unfolding CreateAccount_steps_def
  proof (intro store_rg.rg_pbind [of "atom (draw _)"] store_rg.rg_atom)
    fix w1 r w2
    assume "draw 16 w1 = (r, w2)"
    then show "grows w1 w2 \<and> (case r of Ret x \<Rightarrow> rg grows (pbind (atom (stmt (\<lambda>w. let w' = insert_account nuid (hashPassword x pw) w
        in (Ret (length (accounts w') - length (accounts w)), w')))) (\<lambda>n. if n = 0 then pfail ErrAccountExists
        else atom (GetAccountByNUID nuid))) ?Q w2 | Fail e \<Rightarrow> ?Q (Fail e) w2 | Panic \<Rightarrow> ?Q Panic w2)"
      using ins by (auto simp: draw_def)
  qed
qed

lemma rg_lookup:
  assumes "\<And>v. grows w v \<Longrightarrow> rg grows none (claimed aid name) v"
    and "\<And>p v. persona_of (per_AccountID p) name p v \<Longrightarrow> rg grows (some p) (claimed aid name) v"
  shows "rg grows (pbind (atom (LookupPersonaByName name)) (\<lambda>found. case found of None \<Rightarrow> none | Some p \<Rightarrow> some p))
    (claimed aid name) w"
proof (intro store_rg.rg_pbind store_rg.rg_atom conjI)
  fix v r v'
  assume v: "grows w v" "LookupPersonaByName name v = (r, v')"
  then show g: "grows v v'" using grows_lookups(2) [of v name] by simp
  have wv: "grows w v'" using store_rg.grow_trans [OF v(1) g] .
  show "case r of Ret found \<Rightarrow> rg grows (case found of None \<Rightarrow> none | Some p \<Rightarrow> some p) (claimed aid name) v'
    | Fail e \<Rightarrow> claimed aid name (Fail e) v' | Panic \<Rightarrow> claimed aid name Panic v'"
  proof (cases r)
    case (Ret found)
    have "rg grows (some p) (claimed aid name) v'" if "found = Some p" for p
      using LookupPersonaByName_returns [of name v p v'] v(2) Ret that
      by (intro assms(2)) (auto simp: persona_of_def)
    with Ret assms(1) [OF wv] show ?thesis by (cases found) simp_all
  qed (use v(2) in \<open>auto simp: claimed_def LookupPersonaByName_def query_def stmt_def split: list.splits bool.splits\<close>)
qed

lemma rg_GetOrCreatePersona:
  assumes "aid \<in> account_ids w"
  shows "rg grows (GetOrCreatePersona_steps aid name) (claimed aid name) w"
proof -
  have owner: "rg grows (if per_AccountID p \<noteq> aid then pfail ErrPersonaNameTaken else pret p) (claimed aid name) v"
    if "persona_of (per_AccountID p) name p v" for p v
  proof -
    have "taken_from aid name v" if "per_AccountID p \<noteq> aid"
      using that \<open>persona_of (per_AccountID p) name p v\<close> unfolding persona_of_def taken_from_def by metis
    with that show ?thesis by (auto simp: claimed_def intro!: store_rg.rg_pfail store_rg.rg_pret)
  qed
  have none: "rg grows (pfail ErrNoRows) (claimed aid name) v" for v
    by (rule store_rg.rg_pfail) (simp add: claimed_def)
  have ins: "grows v (snd (exec_sql (insert_persona aid name) v))" if "grows w v" for v
  proof (rule grows_exec)
    fix u
    assume "grows v u"
    with that have "grows w u" using store_rg.grow_trans by blast
    with assms show "grows u (insert_persona aid name u)" using grows_ids(1) by (intro grows_insert_persona) blast
  qed
  have create: "rg grows (pbind (atom (exec_sql (insert_persona aid name))) k) (claimed aid name) v"
    if "grows w v" "\<And>u. rg grows (k ()) (claimed aid name) u" for k v
  proof (intro store_rg.rg_pbind [of "atom _"] store_rg.rg_atom conjI)
    fix w1 r w2
    assume w1: "grows v w1" "exec_sql (insert_persona aid name) w1 = (r, w2)"
    show "grows w1 w2" using ins [of w1] w1 that(1) store_rg.grow_trans by force
    show "case r of Ret x \<Rightarrow> rg grows (k x) (claimed aid name) w2
      | Fail e \<Rightarrow> claimed aid name (Fail e) w2 | Panic \<Rightarrow> claimed aid name Panic w2"
      using w1(2) that(2) by (auto simp: claimed_def exec_sql_def stmt_def split: list.splits bool.splits)
  qed
  show ?thesis unfolding GetOrCreatePersona_steps_def
    by (intro rg_lookup create owner none)
qed

lemma rg_UpdateStats: "pid \<in> persona_ids w \<Longrightarrow> rg grows (UpdateStats_steps pid vs period) grow_only w"
proof -
  let ?I = "\<lambda>w. pid \<in> persona_ids w"
  assume "?I w"
  moreover have "stable grows (\<lambda>(_ :: unit). ?I)" using grows_ids(2) by (auto simp: stable_def)
  moreover have "rg grows (atom (upsert_stat pid key v period)) (\<lambda>r. ?I) w" if "?I w" for key v w
  proof (rule store_rg.rg_atom)
    fix w1 r w2
    assume w1: "grows w w1" "upsert_stat pid key v period w1 = (r, w2)"
    then have "grows w1 w2" using that grows_stats [of pid w1 key v period] grows_ids(2) [OF w1(1)] by auto
    with w1(1) that show "grows w1 w2 \<and> ?I w2" using grows_ids(2) store_rg.grow_trans by blast
  qed
  ultimately have "rg grows (UpdateStats_steps pid vs period) (\<lambda>r. ?I) w"
    unfolding UpdateStats_steps_def by (intro store_rg.rg_pfold) (auto split: prod.split)
  then show ?thesis by (rule store_rg.rg_conseq) simp
qed

lemma rg_AddHistoricalRun:
  "rg grows (AddHistoricalRun_steps sk name stretch key v period rid link upd) grow_only w"
  unfolding AddHistoricalRun_steps_def
proof (intro rg_next grows_exec grows_insert_player rg_last TrueI)
  fix w1 r w2
  assume "stmt (\<lambda>w. case query_row (\<lambda>hp. hp_source_key hp = sk) (historical_players w) of
         None \<Rightarrow> (Fail ErrNotNull, w)
       | Some hp \<Rightarrow> if v = NaN then (Fail ErrNotNull, w)
           else (Ret (), w\<lparr>historical_runs := insert_or_replace run_key
             \<lparr>hr_player_id = hp_id hp, hr_stretch_id = stretch, hr_key = key, hr_value = real_column v, hr_period_id = period,
              hr_run_id = rid, hr_weblink = link, hr_updated_at = upd\<rparr> (historical_runs w)\<rparr>)) w1 = (r, w2)"
    (is "stmt ?m w1 = _")
  moreover have "grows w1 (snd (stmt ?m w1))" by (rule grows_stmt) (rule grows_run)
  ultimately show "grows w1 w2" by simp
qed

lemma rg_LinkHistoricalAccount: "rg grows (LinkHistoricalAccount_steps sk pid) grow_only w"
proof -
  let ?link = "\<lambda>w. w\<lparr>historical_account_links := insert_or_update ln_source_key
      \<lparr>ln_source_key = sk, ln_persona_id = pid\<rparr> (historical_account_links w)\<rparr>"
  let ?player = "\<lambda>w. query_row (\<lambda>hp. hp_source_key hp = sk) (historical_players w)"
  have link: "rg grows (atom (exec_sql ?link)) grow_only v" if "pid \<in> persona_ids v" "sk \<in> player_keys v" for v
  proof (rule rg_last)
    fix w1 r w2
    assume w1: "grows v w1" "exec_sql ?link w1 = (r, w2)"
    have "grows w1 (snd (exec_sql ?link w1))"
    proof (rule grows_exec)
      fix u
      assume "grows w1 u"
      then have "grows v u" using w1(1) store_rg.grow_trans by blast
      then show "grows u (?link u)" using that grows_ids(2) by (intro grows_link) (auto simp: grows_def)
    qed
    with w1(2) show "grows w1 w2" by simp
  qed simp
  have player: "rg grows (pbind (atom (query ?player)) (\<lambda>player. case player of None \<Rightarrow> pfail ErrNoRows
      | Some _ \<Rightarrow> atom (exec_sql ?link))) grow_only v" if "pid \<in> persona_ids v" for v
  proof (rule rg_query)
    fix u
    assume "grows v u"
    then have "pid \<in> persona_ids u" using that grows_ids(2) by blast
    moreover have "sk \<in> player_keys u" if "?player u = Some p" for p
      using that by (auto simp: player_keys_def query_row_def dest: find_SomeD)
    ultimately show "rg grows (case ?player u of None \<Rightarrow> pfail ErrNoRows | Some _ \<Rightarrow> atom (exec_sql ?link)) grow_only u"
      using link by (auto intro: store_rg.rg_pfail split: option.split)
  qed simp_all
  show ?thesis unfolding LinkHistoricalAccount_steps_def PersonaByID_def
  proof (rule rg_query)
    fix u
    have "pid \<in> persona_ids u" if "query_row (\<lambda>p. per_ID p = pid) (personas u) = Some p" for p
      using that by (auto simp: persona_ids_def query_row_def dest: find_SomeD)
    with player [of u] show "rg grows (case map_option (scan_persona u) (query_row (\<lambda>p. per_ID p = pid) (personas u)) of
        None \<Rightarrow> pfail ErrNoRows | Some _ \<Rightarrow> pbind (atom (query ?player)) (\<lambda>player. case player of None \<Rightarrow> pfail ErrNoRows
          | Some _ \<Rightarrow> atom (exec_sql ?link))) grow_only u"
      by (auto intro: store_rg.rg_pfail split: option.split)
    have "scan_persona (w\<lparr>faults := fs\<rparr>) = scan_persona w" for w fs by (simp add: scan_persona_def fun_eq_iff)
    then show "map_option (scan_persona (v\<lparr>faults := fs\<rparr>)) (query_row (\<lambda>p. per_ID p = pid) (personas (v\<lparr>faults := fs\<rparr>))) =
        map_option (scan_persona v) (query_row (\<lambda>p. per_ID p = pid) (personas v))" for v fs by simp
  qed simp
qed

lemma rg_store_code: "may_call c w \<Longrightarrow> rg grows (store_code c) (store_post c) w"
proof (cases c)
  case (CreateAccountCall nuid pw)
  show ?thesis unfolding CreateAccountCall store_code.simps
    by (rule rg_returns, rule store_rg.rg_conseq [OF rg_CreateAccount]) (auto split: outcome.splits)
next
  case (GetOrCreatePersonaCall aid name)
  assume "may_call c w"
  then have "rg grows (GetOrCreatePersona_steps aid name) (claimed aid name) w"
    using GetOrCreatePersonaCall rg_GetOrCreatePersona by simp
  then show ?thesis unfolding GetOrCreatePersonaCall store_code.simps
    by (intro rg_returns) (erule store_rg.rg_conseq, auto simp: claimed_def split: outcome.splits)
next
  case (AddAssociationCall pid fid t)
  assume "may_call c w"
  then have "rg grows (atom (AddAssociation pid fid t)) grow_only w"
    using AddAssociationCall grows_associations(1) grows_ids(2) by (intro rg_last) (auto, metis snd_conv subsetD)
  then show ?thesis unfolding AddAssociationCall store_code.simps store_post.simps by (rule rg_returns)
next
  case (DeleteAssociationCall pid fid t)
  have "rg grows (atom (DeleteAssociation pid fid t)) grow_only w"
    by (rule rg_last) (metis grows_associations(2) snd_conv, simp)
  then show ?thesis unfolding DeleteAssociationCall store_code.simps store_post.simps by (rule rg_returns)
next
  case (UnlinkHistoricalAccountCall sk)
  have "rg grows (atom (UnlinkHistoricalAccount sk)) grow_only w"
    by (rule rg_last) (metis grows_unlink snd_conv, simp)
  then show ?thesis unfolding UnlinkHistoricalAccountCall store_code.simps store_post.simps by (rule rg_returns)
qed (auto intro!: rg_returns rg_accounts rg_UpdateStats rg_AddHistoricalRun rg_LinkHistoricalAccount)

interpretation store_calls: concurrent_calls grows store_code may_call db_moves store_post
  by unfold_locales (auto intro: rg_store_code store_post_stable db_moves_grows)

subsection \<open>Properties of every interleaving\<close>

lemma interleaved_tables:
  assumes "store_step\<^sup>*\<^sup>* S S'" "pl_calls S = Map.empty" "tables_ok (pl_state S)"
  shows "tables_ok (pl_state S')"
  using store_calls.pool_reachable(1) [OF assms(1,2)] assms(3) by (simp add: grows_def)

text \<open>
  Sessions that use the store at the same time cannot corrupt it. Whichever methods they call, however
  the statements interleave and whichever of them fail, the schema's constraints hold at every moment,
  no account is lost or renamed, and no persona changes its id, its name or its owner.
\<close>

theorem interleaved_calls:
  assumes "store_step\<^sup>*\<^sup>* S S'" "pl_calls S = Map.empty" "tables_ok (pl_state S)"
  shows "tables_ok (pl_state S') \<and> identities (pl_state S) \<subseteq> identities (pl_state S')
    \<and> set (personas (pl_state S)) \<subseteq> set (personas (pl_state S'))"
  using store_calls.pool_reachable(1) [OF assms(1,2)] assms(3) by (simp add: grows_def)

text \<open>
  C6. A persona name has one owner even when accounts race for it: of any two calls of
  \<open>GetOrCreatePersona\<close> for one name that have returned a persona, both were for the same account and
  returned the same persona, which is in the table under that name and account; a call that was refused
  was refused because another account has the name.
\<close>

theorem persona_name_race:
  assumes "store_step\<^sup>*\<^sup>* S S'" "pl_calls S = Map.empty" "tables_ok (pl_state S)"
    and i: "pl_calls S' i = Some (GetOrCreatePersonaCall a name, Done ri)"
    and j: "pl_calls S' j = Some (GetOrCreatePersonaCall b name, Done rj)"
  shows "(\<forall>p. ri = Ret (PersonaValue p) \<longrightarrow> persona_of a name p (pl_state S'))
    \<and> (\<forall>p q. ri = Ret (PersonaValue p) \<and> rj = Ret (PersonaValue q) \<longrightarrow> a = b \<and> per_ID p = per_ID q)
    \<and> (ri = Fail ErrPersonaNameTaken \<longrightarrow> taken_from a name (pl_state S'))"
proof -
  note post = store_calls.pool_reachable(2) [OF assms(1,2) i, simplified] store_calls.pool_reachable(2) [OF assms(1,2) j, simplified]
  have "distinct (map per_Name (personas (pl_state S')))"
    using interleaved_tables [OF assms(1-3)] by (simp add: tables_ok_def personas_ok_def)
  then have "x = y" if "x \<in> set (personas (pl_state S'))" "y \<in> set (personas (pl_state S'))" "per_Name x = per_Name y" for x y
    using that by (auto simp: distinct_map dest: inj_onD)
  then have "a = b \<and> per_ID p = per_ID q" if "persona_of a name p (pl_state S')" "persona_of b name q (pl_state S')" for p q
    using that unfolding persona_of_def by metis
  with post show ?thesis by blast
qed

subsection \<open>Every call returns\<close>

fun store_method :: "store_call \<Rightarrow> (world, store_value) go" where
  "store_method (CreateAccountCall nuid pw) = gbind (CreateAccount nuid pw) (\<lambda>x. gret (AccountValue x))"
| "store_method (ValidateAccountCall nuid pw) = gbind (ValidateAccount nuid pw) (\<lambda>x. gret (AccountValue x))"
| "store_method (IssueLoginTokenCall aid) = gbind (IssueLoginToken aid) (\<lambda>x. gret (TokenValue x))"
| "store_method (AccountByLoginTokenCall token) = gbind (AccountByLoginToken token) (\<lambda>x. gret (AccountValue x))"
| "store_method (GetOrCreatePersonaCall aid name) = gbind (GetOrCreatePersona aid name) (\<lambda>x. gret (PersonaValue x))"
| "store_method (AddAssociationCall pid fid t) = gbind (AddAssociation pid fid t) (\<lambda>x. gret (BoolValue x))"
| "store_method (DeleteAssociationCall pid fid t) = gbind (DeleteAssociation pid fid t) (\<lambda>_. gret NoValue)"
| "store_method (UpdateStatsCall pid vs period) = gbind (UpdateStats pid vs period) (\<lambda>_. gret NoValue)"
| "store_method (AddHistoricalRunCall sk name stretch key v period rid link upd) =
     gbind (AddHistoricalRun sk name stretch key v period rid link upd) (\<lambda>_. gret NoValue)"
| "store_method (LinkHistoricalAccountCall sk pid) = gbind (LinkHistoricalAccount sk pid) (\<lambda>_. gret NoValue)"
| "store_method (UnlinkHistoricalAccountCall sk) = gbind (UnlinkHistoricalAccount sk) (\<lambda>_. gret NoValue)"

lemma store_code_solo: "solo (store_code c) = store_method c"
  by (cases c) (simp_all add: solo_run steps_solo)

text \<open>Two accounts ask for one free name; their statements alternate.\<close>

definition race_start :: "(world, store_call, store_value) pool" where
  "race_start = two_calls (GetOrCreatePersonaCall 1 ''Kate'') (GetOrCreatePersonaCall 2 ''Kate'') two_personas
     (store_code (GetOrCreatePersonaCall 1 ''Kate'')) (store_code (GetOrCreatePersonaCall 2 ''Kate''))"

definition race_end :: "(world, store_call, store_value) pool" where
  "race_end = run_turns [0, 1, 0, 1, 0, 1] race_start"

lemma race_reached: "store_step\<^sup>*\<^sup>* \<lparr>pl_state = two_personas, pl_calls = Map.empty\<rparr> race_end"
proof -
  let ?c = "\<lambda>i. GetOrCreatePersonaCall i ''Kate''"
  let ?S0 = "\<lparr>pl_state = two_personas, pl_calls = Map.empty\<rparr> :: (world, store_call, store_value) pool"
  let ?S1 = "\<lparr>pl_state = two_personas, pl_calls = [0 \<mapsto> (?c 1, store_code (?c 1))]\<rparr>"
  have ids: "account_ids two_personas = {1, 2}"
    by (auto simp: two_personas_def one_account_def empty_world_def account_ids_def)
  have "store_step ?S0 (?S0\<lparr>pl_calls := (pl_calls ?S0)(0 \<mapsto> (?c 1, store_code (?c 1)))\<rparr>)"
    by (rule pool_step.call) (simp_all add: ids)
  moreover have "store_step ?S1 (?S1\<lparr>pl_calls := (pl_calls ?S1)(1 \<mapsto> (?c 2, store_code (?c 2)))\<rparr>)"
    by (rule pool_step.call) (simp_all add: ids)
  ultimately have "store_step\<^sup>*\<^sup>* ?S0 race_start" by (simp add: race_start_def two_calls_def del: store_code.simps)
  moreover have "store_step\<^sup>*\<^sup>* race_start race_end" unfolding race_end_def by (rule run_turns_steps)
  ultimately show ?thesis by (rule rtranclp_trans)
qed

text \<open>The statements of the two calls, as far as they go.\<close>

definition persona_verdict :: "int \<Rightarrow> Persona option \<Rightarrow> (world, store_value) prog" where
  "persona_verdict aid again = (case again of
       None \<Rightarrow> pfail ErrNoRows
     | Some p \<Rightarrow> if per_AccountID p \<noteq> aid then pfail ErrPersonaNameTaken else pret (PersonaValue p))"

lemma persona_code:
  "store_code (GetOrCreatePersonaCall aid name) = pbind (atom (LookupPersonaByName name)) (\<lambda>found. case found of
       Some p \<Rightarrow> persona_verdict aid (Some p)
     | None \<Rightarrow> pbind (atom (exec_sql (insert_persona aid name))) (\<lambda>_. pbind (atom (LookupPersonaByName name)) (persona_verdict aid)))"
  unfolding store_code.simps GetOrCreatePersona_steps_def pbind_assoc
  by (auto simp: persona_verdict_def pbind_assoc pbind_pret fun_eq_iff intro!: arg_cong [where f = "pbind _"] split: option.split)

definition kate :: Persona where
  "kate = \<lparr>per_ID = 3, per_AccountID = 1, per_Name = ''Kate'', per_CreatedAt = current_timestamp two_personas\<rparr>"

lemma race_results:
  "race_end = two_calls (GetOrCreatePersonaCall 1 ''Kate'') (GetOrCreatePersonaCall 2 ''Kate'')
     (insert_persona 1 ''Kate'' two_personas) (Done (Ret (PersonaValue (scan_persona two_personas kate)))) (Done (Fail ErrPersonaNameTaken))"
proof -
  let ?w = two_personas and ?v = "insert_persona 1 ''Kate'' two_personas"
  have free: "query_row (\<lambda>p. per_Name p = ''Kate'') (personas ?w) = None"
    by (simp add: query_row_def two_personas_def)
  then have "''Kate'' \<notin> per_Name ` set (personas ?w)" by (auto simp: query_row_def find_None_iff')
  then have row: "personas ?v = personas ?w @ [kate]"
    by (simp add: insert_persona_def insert_or_ignore_def kate_def) (simp add: two_personas_def next_rowid_def)
  have faults: "faults ?w = []" "faults ?v = []" using two_personas_ok by (simp_all add: insert_persona_def)
  have lookup: "LookupPersonaByName ''Kate'' ?w = (Ret None, ?w)"
    "LookupPersonaByName ''Kate'' ?v = (Ret (Some (scan_persona ?w kate)), ?v)"
    using LookupPersonaByName_run [OF faults(1)] LookupPersonaByName_run [OF faults(2)] free
    by (simp_all add: row query_row_def find_append kate_def) (simp add: insert_persona_def)
  have "insert_persona 2 ''Kate'' ?v = ?v"
    by (simp add: insert_persona_def [of 2] insert_or_ignore_def row kate_def)
  then have insert: "exec_sql (insert_persona 1 ''Kate'') ?w = (Ret (), ?v)" "exec_sql (insert_persona 2 ''Kate'') ?v = (Ret (), ?v)"
    using faults by (simp_all add: exec_sql_ok)
  have verdicts: "persona_verdict 1 (Some (scan_persona ?w kate)) = Done (Ret (PersonaValue (scan_persona ?w kate)))"
    "persona_verdict 2 (Some (scan_persona ?w kate)) = Done (Fail ErrPersonaNameTaken)"
    by (simp_all add: persona_verdict_def kate_def pret_def pfail_def)
  show ?thesis
    unfolding race_end_def race_start_def run_turns_def persona_code
    by (simp only: fold_simps comp_apply id_apply advance_two lookup insert
        fst_conv snd_conv outcome.case option.case verdicts)
qed

lemma race_begin:
  "pl_calls \<lparr>pl_state = two_personas, pl_calls = Map.empty\<rparr> = Map.empty"
  "tables_ok (pl_state \<lparr>pl_state = two_personas, pl_calls = Map.empty\<rparr>)"
  using two_personas_ok by simp_all

theorem persona_name_race_witness:
  "persona_of 1 ''Kate'' (scan_persona two_personas kate) (pl_state race_end) \<and> taken_from 2 ''Kate'' (pl_state race_end)"
proof -
  have calls: "pl_calls race_end 0 = Some (GetOrCreatePersonaCall 1 ''Kate'', Done (Ret (PersonaValue (scan_persona two_personas kate))))"
    "pl_calls race_end 1 = Some (GetOrCreatePersonaCall 2 ''Kate'', Done (Fail ErrPersonaNameTaken))"
    by (simp_all add: race_results two_calls_def)
  show ?thesis
    using persona_name_race [OF race_reached race_begin calls] persona_name_race [OF race_reached race_begin calls(2,1)]
    by blast
qed

theorem interleaved_calls_witness: "tables_ok (pl_state race_end) \<and> set (personas two_personas) \<subseteq> set (personas (pl_state race_end))"
  using interleaved_calls [OF race_reached race_begin] unfolding pool.simps by blast

subsection \<open>Two logins at once\<close>

text \<open>
  A login revokes the account's tokens and then stores its own, in two statements. Between them a second
  login may do the same: then the account ends up with two valid tokens, which one login after the
  other never leaves (\<open>IssueLoginToken_logs_in\<close>).
\<close>

lemma token_code:
  "store_code (IssueLoginTokenCall aid) = pbind (atom (draw loginTokenBytes)) (\<lambda>buf.
     pbind (atom (RevokeLoginTokens aid)) (\<lambda>_. pbind (atom (insert_token (hashLoginToken (generateLoginToken buf)) aid))
       (\<lambda>_. pret (TokenValue (generateLoginToken buf)))))"
  by (simp add: IssueLoginToken_steps_def pbind_assoc pbind_pret)

lemma two_tokens:
  assumes "faults w = []" "login_tokens w = []"
    and "t = next_token w" "u = next_token (w\<lparr>random_pos := random_pos w + loginTokenBytes\<rparr>)" "hashLoginToken t \<noteq> hashLoginToken u"
  shows "\<exists>w'. run_turns [0, 1, 0, 1, 0, 1] (two_calls (IssueLoginTokenCall aid) (IssueLoginTokenCall aid) w
       (store_code (IssueLoginTokenCall aid)) (store_code (IssueLoginTokenCall aid))) =
     two_calls (IssueLoginTokenCall aid) (IssueLoginTokenCall aid) w' (Done (Ret (TokenValue t))) (Done (Ret (TokenValue u)))
   \<and> token_owner (hashLoginToken t) w' = Some aid \<and> token_owner (hashLoginToken u) w' = Some aid"
proof -
  let ?n = loginTokenBytes
  let ?w1 = "w\<lparr>random_pos := random_pos w + ?n\<rparr>"
  let ?w2 = "?w1\<lparr>random_pos := random_pos ?w1 + ?n\<rparr>"
  let ?row = "\<lambda>x. \<lparr>tk_token_hash = hashLoginToken x, tk_account_id = aid, tk_created_at = current_timestamp w, tk_last_used_at = current_timestamp w\<rparr>"
  let ?w3 = "?w2\<lparr>login_tokens := [?row t]\<rparr>" and ?w4 = "?w2\<lparr>login_tokens := [?row t, ?row u]\<rparr>"
  have draws: "draw ?n w = (Ret (next_bytes ?n w), ?w1)" "draw ?n ?w1 = (Ret (next_bytes ?n ?w1), ?w2)"
    by (simp_all add: draw_def next_bytes_def)
  have tokens: "generateLoginToken (next_bytes ?n w) = t" "generateLoginToken (next_bytes ?n ?w1) = u"
    using assms(3,4) by (simp_all add: next_token_def)
  have revoke: "RevokeLoginTokens aid ?w2 = (Ret (), ?w2)"
    using assms(1,2) by (simp add: RevokeLoginTokens_def exec_sql_ok)
  have ins: "insert_token (hashLoginToken t) aid ?w2 = (Ret (), ?w3)" "insert_token (hashLoginToken u) aid ?w3 = (Ret (), ?w4)"
    using assms(1,2,5) by (simp_all add: insert_token_def stmt_ok current_timestamp_def)
  have "run_turns [0, 1, 0, 1, 0, 1] (two_calls (IssueLoginTokenCall aid) (IssueLoginTokenCall aid) w
       (store_code (IssueLoginTokenCall aid)) (store_code (IssueLoginTokenCall aid))) =
     two_calls (IssueLoginTokenCall aid) (IssueLoginTokenCall aid) ?w4 (pret (TokenValue t)) (pret (TokenValue u))"
    unfolding run_turns_def token_code
    by (simp only: fold_simps comp_apply id_apply advance_two draws tokens revoke ins
        fst_conv snd_conv outcome.case)
  moreover have "token_owner (hashLoginToken t) ?w4 = Some aid" "token_owner (hashLoginToken u) ?w4 = Some aid"
    using assms(5) by (simp_all add: token_owner_def query_row_def)
  ultimately show ?thesis unfolding pret_def by blast
qed

end
