(* ===== verification/Process.thy ===== *)
theory Process
  imports Migration Mlog Config
begin

text \<open>
  The process (\<open>server/main.go\<close>) and the accept loops of its two servers (\<open>server/fesl/server.go\<close>, lines
  42-70, \<open>server/locker/server.go\<close>, lines 37-66): the order of the start-up, when a loop ends, and with
  which status the process exits.
\<close>

subsection \<open>The accept loop\<close>

text \<open>
  What the network does to one server: \<open>bind_error\<close> is the failure of \<open>net.Listen\<close>, if it fails;
  \<open>accepts n\<close> is the outcome of the \<open>n\<close>th \<open>Accept\<close> (an error, or the peer's address), and \<open>shut n\<close> tells
  whether the context is cancelled when the loop looks after that error. The loop may run for ever, so its
  result is an option. \<open>started\<close> are the peers that got a session of their own, in order, and \<open>logged\<close>
  the lines written to the log.
\<close>

record network =
  bind_error :: "string option"
  accepts :: "nat \<Rightarrow> string + string"
  shut :: "nat \<Rightarrow> bool"

record serving =
  started :: "string list"
  logged :: "(string \<times> string) list"

partial_function (option) accept_loop :: "network \<Rightarrow> string \<Rightarrow> nat \<Rightarrow> serving \<Rightarrow> serving option" where
  "accept_loop net tag n st =
     (case accepts net n of
        Inr peer \<Rightarrow> accept_loop net tag (Suc n) (st\<lparr>started := started st @ [peer]\<rparr>)
      | Inl err \<Rightarrow>
          if shut net n then Some st
          else accept_loop net tag (Suc n) (st\<lparr>logged := logged st @ [(tag, ''Accept error: '' @ err)]\<rparr>))"

text \<open>The result is the error that \<open>Listen\<close> returns, \<open>None\<close> for \<open>nil\<close>, with what the server has done.\<close>

definition listen_on :: "string \<Rightarrow> string \<Rightarrow> network \<Rightarrow> (string option \<times> serving) option" where
  "listen_on tag addr net =
     (case bind_error net of
        Some err \<Rightarrow> Some (Some err, \<lparr>started = [], logged = []\<rparr>)
      | None \<Rightarrow> map_option (Pair None)
          (accept_loop net tag 0 \<lparr>started = [], logged = [(tag, ''Listening on '' @ addr)]\<rparr>))"

definition fesl_Listen :: "Config \<Rightarrow> network \<Rightarrow> (string option \<times> serving) option" where
  "fesl_Listen cfg = listen_on ''FESL'' (BindHost cfg @ '':'' @ itoa (FESLPort cfg))"

definition locker_Listen :: "Config \<Rightarrow> network \<Rightarrow> (string option \<times> serving) option" where
  "locker_Listen cfg = listen_on ''HTTP'' (BindHost cfg @ '':'' @ itoa (HTTPPort cfg))"

text \<open>The accepts up to the first that fails after a shutdown.\<close>

definition stops_at :: "network \<Rightarrow> nat \<Rightarrow> bool" where
  "stops_at net n \<longleftrightarrow> shut net n \<and> (\<exists>err. accepts net n = Inl err)"

definition peers :: "network \<Rightarrow> nat \<Rightarrow> nat \<Rightarrow> string list" where
  "peers net m n = concat (map (\<lambda>i. case accepts net i of Inr peer \<Rightarrow> [peer] | Inl _ \<Rightarrow> []) [m..<n])"

definition accept_errors :: "network \<Rightarrow> string \<Rightarrow> nat \<Rightarrow> nat \<Rightarrow> (string \<times> string) list" where
  "accept_errors net tag m n = concat (map (\<lambda>i. case accepts net i of
     Inl err \<Rightarrow> [(tag, ''Accept error: '' @ err)] | Inr _ \<Rightarrow> []) [m..<n])"

lemma upto_Cons: "m < n \<Longrightarrow> peers net m n = (case accepts net m of Inr peer \<Rightarrow> [peer] | Inl _ \<Rightarrow> []) @ peers net (Suc m) n"
  "m < n \<Longrightarrow> accept_errors net tag m n = (case accepts net m of
     Inl err \<Rightarrow> [(tag, ''Accept error: '' @ err)] | Inr _ \<Rightarrow> []) @ accept_errors net tag (Suc m) n"
  by (simp_all add: peers_def accept_errors_def upt_rec [of m n])

lemma accept_loop_stops:
  assumes "stops_at net n" "\<And>i. m \<le> i \<Longrightarrow> i < n \<Longrightarrow> \<not> stops_at net i" "m \<le> n"
  shows "accept_loop net tag m st = Some (st\<lparr>started := started st @ peers net m n, logged := logged st @ accept_errors net tag m n\<rparr>)"
  using assms(2,3)
proof (induction "n - m" arbitrary: m st)
  case 0
  then have "m = n" by simp
  with assms(1) show ?case
    by (subst accept_loop.simps) (auto simp: stops_at_def peers_def accept_errors_def)
next
  case (Suc k)
  then have m: "m < n" "\<not> stops_at net m" by auto
  have IH: "accept_loop net tag (Suc m) st' = Some (st'\<lparr>started := started st' @ peers net (Suc m) n,
      logged := logged st' @ accept_errors net tag (Suc m) n\<rparr>)" for st'
    using Suc.hyps Suc.prems m by (intro Suc.hyps(1)) auto
  show ?case using m(2) IH upto_Cons [OF m(1)]
    by (subst accept_loop.simps) (auto simp: stops_at_def split: sum.splits)
qed

lemma accept_loop_returns: "accept_loop net tag m st = Some st' \<Longrightarrow> \<exists>n\<ge>m. stops_at net n"
proof (erule accept_loop.raw_induct [rotated])
  fix loop :: "network \<Rightarrow> string \<Rightarrow> nat \<Rightarrow> serving \<Rightarrow> serving option" and net tag n st st'
  assume IH: "\<And>net tag n st st'. loop net tag n st = Some st' \<Longrightarrow> \<exists>k\<ge>n. stops_at net k"
    and run: "(case accepts net n of
        Inl err \<Rightarrow> if shut net n then Some st
          else loop net tag (Suc n) (st\<lparr>logged := logged st @ [(tag, ''Accept error: '' @ err)]\<rparr>)
      | Inr peer \<Rightarrow> loop net tag (Suc n) (st\<lparr>started := started st @ [peer]\<rparr>)) = Some st'"
  show "\<exists>k\<ge>n. stops_at net k"
  proof (cases "stops_at net n")
    case False
    then obtain v where "loop net tag (Suc n) v = Some st'"
      using run by (cases "accepts net n") (auto simp: stops_at_def)
    from IH [OF this] show ?thesis using Suc_leD by blast
  qed blast
qed

text \<open>
  C18. A server's \<open>Listen\<close> returns exactly when it has to: it cannot bind its port, or an \<open>Accept\<close> fails
  after the context was cancelled; no other failure of \<open>Accept\<close> ends it. When it stops after a shutdown it
  returns no error, and every connection accepted until then has got its session, once and in order, with
  one log line for each failed accept.
\<close>

theorem listen_returns:
  "(listen_on tag addr net \<noteq> None \<longleftrightarrow> bind_error net \<noteq> None \<or> (\<exists>n. stops_at net n))
   \<and> (\<forall>err s. listen_on tag addr net = Some (err, s) \<longrightarrow> err = bind_error net
       \<and> (err = None \<longrightarrow> (let n = (LEAST n. stops_at net n) in
            s = \<lparr>started = peers net 0 n, logged = (tag, ''Listening on '' @ addr) # accept_errors net tag 0 n\<rparr>)))"
proof (cases "\<exists>n. stops_at net n")
  case True
  define n where "n = (LEAST n. stops_at net n)"
  have "stops_at net n" "\<And>i. i < n \<Longrightarrow> \<not> stops_at net i"
    using LeastI_ex [OF True] not_less_Least unfolding n_def by auto
  then have "accept_loop net tag 0 st = Some (st\<lparr>started := started st @ peers net 0 n,
      logged := logged st @ accept_errors net tag 0 n\<rparr>)" for st
    by (intro accept_loop_stops) auto
  with True show ?thesis
    by (auto simp: listen_on_def Let_def n_def [symmetric] split: option.splits)
next
  case False
  then have "accept_loop net tag 0 st = None" for st
    using accept_loop_returns [of net tag 0 st] by (cases "accept_loop net tag 0 st") auto
  with False show ?thesis by (auto simp: listen_on_def split: option.splits)
qed

text \<open>A server that accepts two peers around a passing error, and is then shut down.\<close>

definition two_peers :: network where
  "two_peers = \<lparr>bind_error = None,
     accepts = (\<lambda>n. if n = 0 then Inr ''a'' else if n = 1 then Inl ''EMFILE'' else if n = 2 then Inr ''b'' else Inl ''closed''),
     shut = (\<lambda>n. 3 \<le> n)\<rparr>"

lemma two_peers_stop: "(LEAST n. stops_at two_peers n) = 3" "stops_at two_peers 3"
proof -
  show "stops_at two_peers 3" by (simp add: stops_at_def two_peers_def)
  then show "(LEAST n. stops_at two_peers n) = 3"
    by (intro Least_equality) (auto simp: stops_at_def two_peers_def)
qed

theorem listen_returns_witness:
  "listen_on ''FESL'' ''0.0.0.0:18680'' two_peers = Some (None, \<lparr>started = [''a'', ''b''],
     logged = [(''FESL'', ''Listening on 0.0.0.0:18680''), (''FESL'', ''Accept error: EMFILE'')]\<rparr>)"
proof -
  have "listen_on ''FESL'' ''0.0.0.0:18680'' two_peers \<noteq> None"
    using listen_returns [of "''FESL''" "''0.0.0.0:18680''" two_peers] two_peers_stop(2) by blast
  then obtain err s where "listen_on ''FESL'' ''0.0.0.0:18680'' two_peers = Some (err, s)" by auto
  moreover have "bind_error two_peers = None" "peers two_peers 0 3 = [''a'', ''b'']"
    "accept_errors two_peers ''FESL'' 0 3 = [(''FESL'', ''Accept error: EMFILE'')]"
    by (simp_all add: two_peers_def peers_def accept_errors_def upt_rec)
  ultimately show ?thesis
    using listen_returns [of "''FESL''" "''0.0.0.0:18680''" two_peers] two_peers_stop(1) by (simp add: Let_def)
qed

subsection \<open>The process\<close>

text \<open>
  What \<open>main\<close> finds: the environment variables, the files it may read, the disk for the logs with the
  clock readings and the order of ties that \<open>New\<close> uses, the database files by path, the networks of the
  two servers, which of two results reaches the channel first, and whether the context is cancelled when
  \<open>main\<close> looks at the result. \<open>served\<close> is what the sessions do to the database until then, and its outcome
  is \<open>Panic\<close> if one of them panics while \<open>main\<close> still waits for a result (\<open>Panics\<close> and \<open>Locker_Answers\<close> say which packets
  and requests do that): no session recovers, so the runtime ends the process with status 2 and a
  report on \<open>stderr\<close> (\<open>panic_report\<close>). \<open>error_text\<close> is \<open>err.Error()\<close>.
\<close>

record surroundings =
  getenvs :: "string \<Rightarrow> string"
  config_files :: "string \<Rightarrow> string option"
  log_ties :: "nat \<Rightarrow> nat list"
  log_times :: "wall_time \<times> wall_time"
  log_disk :: disk
  databases :: "string \<Rightarrow> database"
  fesl_net :: network
  locker_net :: network
  fesl_first :: bool
  cancelled :: bool
  served :: "(database, unit) go"
  panic_report :: string
  error_text :: "go_error \<Rightarrow> string"

text \<open>
  How it ends: the exit status, what went to \<open>stderr\<close>, the lines that \<open>main\<close> itself wrote to the log, the
  database as left, and which of the deferred \<open>Close\<close> calls have run (\<open>os.Exit\<close> skips them).
\<close>

record process_end =
  exit_status :: nat
  stderr :: string
  main_log :: "(string \<times> string) list"
  final_db :: database
  closed :: bool

definition first_result :: "bool \<Rightarrow> (string option \<times> serving) option \<Rightarrow> (string option \<times> serving) option \<Rightarrow> string option option" where
  "first_result left_first f h = (case (f, h) of
      (None, None) \<Rightarrow> None
    | (Some (err, _), None) \<Rightarrow> Some err
    | (None, Some (err, _)) \<Rightarrow> Some err
    | (Some (err, _), Some (err', _)) \<Rightarrow> Some (if left_first then err else err'))"

definition start_lines :: "Config \<Rightarrow> (string \<times> string) list" where
  "start_lines cfg = [
     (''INIT'', ''MedgeNet Go server starting on '' @ BindHost cfg @ '' (FESL '' @ itoa (FESLPort cfg) @ '', HTTP '' @ itoa (HTTPPort cfg) @ '')''),
     (''INIT'', ''DB='' @ DBPath cfg @ '' GhostDir='' @ GhostDir cfg @ '' LockerURL='' @ LockerURL cfg)]"

text \<open>From the start of the two servers on.\<close>

definition serve_all :: "surroundings \<Rightarrow> Config \<Rightarrow> database \<Rightarrow> process_end option" where
  "serve_all s cfg db = (case served s db of
       (Panic, db') \<Rightarrow> Some \<lparr>exit_status = 2, stderr = panic_report s, main_log = start_lines cfg, final_db = db', closed = False\<rparr>
     | (_, db') \<Rightarrow> map_option (\<lambda>err. if err \<noteq> None \<and> \<not> cancelled s
           then \<lparr>exit_status = 1, stderr = [], main_log = start_lines cfg @ [(''INIT'', ''server error: '' @ the err)],
                  final_db = db', closed = False\<rparr>
           else \<lparr>exit_status = 0, stderr = [], main_log = start_lines cfg @ [(''INIT'', ''Server stopped'')],
                  final_db = snd (Store_Close db'), closed = True\<rparr>)
         (first_result (fesl_first s) (fesl_Listen cfg (fesl_net s)) (locker_Listen cfg (locker_net s))))"

definition main :: "surroundings \<Rightarrow> process_end option" where
  "main s = (let cfg = Load (getenvs s) (config_files s); file = databases s (DBPath cfg) in
     case fst (New (log_ties s) (fst (log_times s)) (snd (log_times s)) (LogPath cfg) (log_disk s)) of
       Ret _ \<Rightarrow> (case Open file of
           (Ret _, db) \<Rightarrow> serve_all s cfg db
         | (Fail e, db) \<Rightarrow> Some \<lparr>exit_status = 1, stderr = [],
             main_log = [(''INIT'', ''failed to open database: '' @ error_text s e)], final_db = db, closed = False\<rparr>
         | (Panic, db) \<Rightarrow> Some \<lparr>exit_status = 2, stderr = [], main_log = [], final_db = db, closed = False\<rparr>)
     | Fail e \<Rightarrow> Some \<lparr>exit_status = 1, stderr = ''failed to initialize log: '' @ error_text s e @ [LF],
         main_log = [], final_db = file, closed = False\<rparr>
     | Panic \<Rightarrow> Some \<lparr>exit_status = 2, stderr = [], main_log = [], final_db = file, closed = False\<rparr>)"

lemma New_no_panic: "fst (New ties now1 now2 path d) \<noteq> Panic"
proof -
  have "no_panic (New ties now1 now2 path)"
    unfolding New_def Write_def cleanupOldLogs_def remove_old_def Let_def by (intro no_panic_intro)
  then show ?thesis by (simp add: no_panic_def)
qed

text \<open>What the start-up needs: a log file and a database.\<close>

definition log_opens :: "surroundings \<Rightarrow> bool" where
  "log_opens s \<longleftrightarrow> (\<exists>l. fst (New (log_ties s) (fst (log_times s)) (snd (log_times s))
     (LogPath (Load (getenvs s) (config_files s))) (log_disk s)) = Ret l)"

definition db_file :: "surroundings \<Rightarrow> database" where
  "db_file s = databases s (DBPath (Load (getenvs s) (config_files s)))"

definition db_opens :: "surroundings \<Rightarrow> bool" where
  "db_opens s \<longleftrightarrow> fst (Open (db_file s)) = Ret ()"

definition binds :: "surroundings \<Rightarrow> bool" where
  "binds s \<longleftrightarrow> bind_error (fesl_net s) = None \<and> bind_error (locker_net s) = None"

definition shut_down :: "surroundings \<Rightarrow> bool" where
  "shut_down s \<longleftrightarrow> (\<exists>n. stops_at (fesl_net s) n \<or> stops_at (locker_net s) n)"

lemma listen_cases:
  "listen_on tag addr net = None \<longleftrightarrow> bind_error net = None \<and> (\<nexists>n. stops_at net n)"
  "listen_on tag addr net = Some (err, s) \<Longrightarrow> err = bind_error net"
proof -
  show "listen_on tag addr net = None \<longleftrightarrow> bind_error net = None \<and> (\<nexists>n. stops_at net n)"
  proof (cases "\<exists>n. stops_at net n")
    case True
    then obtain n where "stops_at net n" "\<And>i. i < n \<Longrightarrow> \<not> stops_at net i" by (metis LeastI not_less_Least)
    then show ?thesis using accept_loop_stops [of net n 0 tag] by (auto simp: listen_on_def split: option.splits)
  next
    case False
    then have "accept_loop net tag 0 st = None" for st
      using accept_loop_returns [of net tag 0 st] by (cases "accept_loop net tag 0 st") auto
    with False show ?thesis by (auto simp: listen_on_def split: option.splits)
  qed
  show "listen_on tag addr net = Some (err, s) \<Longrightarrow> err = bind_error net"
    by (auto simp: listen_on_def split: option.splits)
qed

lemma first_result_cases:
  "first_result b (listen_on t a n) (listen_on t' a' n') = None \<longleftrightarrow> listen_on t a n = None \<and> listen_on t' a' n' = None"
  "first_result b (listen_on t a n) (listen_on t' a' n') = Some err \<Longrightarrow>
     err = bind_error n \<and> listen_on t a n \<noteq> None \<or> err = bind_error n' \<and> listen_on t' a' n' \<noteq> None"
  by (cases "listen_on t a n"; cases "listen_on t' a' n'"; force simp: first_result_def dest: listen_cases(2) split: if_splits)+

text \<open>A session panics.\<close>

definition session_run :: "surroundings \<Rightarrow> unit outcome \<times> database" where
  "session_run s = served s (snd (Open (db_file s)))"

definition crashes :: "surroundings \<Rightarrow> bool" where
  "crashes s \<longleftrightarrow> log_opens s \<and> db_opens s \<and> fst (session_run s) = Panic"

definition config_of :: "surroundings \<Rightarrow> Config" where
  "config_of s = Load (getenvs s) (config_files s)"

definition server_result :: "surroundings \<Rightarrow> string option option" where
  "server_result s = first_result (fesl_first s) (fesl_Listen (config_of s) (fesl_net s)) (locker_Listen (config_of s) (locker_net s))"

lemma result_cases:
  "server_result s = None \<longleftrightarrow> binds s \<and> \<not> shut_down s"
  "server_result s = Some (Some err) \<Longrightarrow> \<not> binds s"
  "server_result s = Some None \<Longrightarrow> shut_down s"
proof -
  note first = server_result_def fesl_Listen_def locker_Listen_def
  show "server_result s = None \<longleftrightarrow> binds s \<and> \<not> shut_down s"
    unfolding first first_result_cases(1) by (auto simp: listen_cases(1) binds_def shut_down_def)
  show "\<not> binds s" if "server_result s = Some (Some err)"
    using first_result_cases(2) [OF that [unfolded first]] by (auto simp: binds_def)
  show "shut_down s" if "server_result s = Some None"
    using first_result_cases(2) [OF that [unfolded first]] by (auto simp: listen_cases(1) shut_down_def)
qed

lemma main_serves:
  assumes "log_opens s" "db_opens s"
  shows "main s = serve_all s (config_of s) (snd (Open (db_file s)))"
proof -
  obtain l where l: "fst (New (log_ties s) (fst (log_times s)) (snd (log_times s)) (LogPath (config_of s)) (log_disk s)) = Ret l"
    using assms(1) by (auto simp: log_opens_def config_of_def)
  obtain db where o: "Open (databases s (DBPath (config_of s))) = (Ret (), db)"
    using assms(2) by (cases "Open (db_file s)") (simp add: db_opens_def db_file_def config_of_def)
  then have "snd (Open (db_file s)) = db" by (simp add: db_file_def config_of_def)
  then show ?thesis
    by (simp only: main_def Let_def config_of_def [symmetric] l o outcome.case prod.case)
qed

lemma main_crashes:
  assumes "crashes s"
  shows "\<exists>e. main s = Some e \<and> exit_status e = 2 \<and> \<not> closed e \<and> final_db e = snd (session_run s)"
proof -
  have "log_opens s" "db_opens s" "fst (session_run s) = Panic" using assms by (simp_all add: crashes_def)
  moreover obtain d where "session_run s = (Panic, d)" using calculation(3) by (cases "session_run s") simp
  ultimately show ?thesis by (simp add: main_serves serve_all_def session_run_def)
qed

text \<open>Otherwise, after a successful start, \<open>main\<close> waits for the first of the two results.\<close>

lemma main_started:
  assumes "log_opens s" "db_opens s" "\<not> crashes s"
  shows "main s = None \<longleftrightarrow> server_result s = None"
    "main s = Some e \<Longrightarrow> exit_status e = (if closed e then 0 else 1)
       \<and> (closed e \<longleftrightarrow> the (server_result s) = None \<or> cancelled s)
       \<and> final_db e = (if closed e then snd (Store_Close (snd (session_run s))) else snd (session_run s))"
proof -
  obtain r d where d: "session_run s = (r, d)" "r \<noteq> Panic" using assms by (cases "session_run s") (auto simp: crashes_def)
  then have m: "main s = map_option (\<lambda>err. if err \<noteq> None \<and> \<not> cancelled s
           then \<lparr>exit_status = 1, stderr = [], main_log = start_lines (config_of s) @ [(''INIT'', ''server error: '' @ the err)],
                  final_db = d, closed = False\<rparr>
           else \<lparr>exit_status = 0, stderr = [], main_log = start_lines (config_of s) @ [(''INIT'', ''Server stopped'')],
                  final_db = snd (Store_Close d), closed = True\<rparr>) (server_result s)"
    using main_serves [OF assms(1,2)] by (cases r) (simp_all add: serve_all_def session_run_def server_result_def)
  show "main s = None \<longleftrightarrow> server_result s = None" by (simp add: m)
  assume "main s = Some e"
  then show "exit_status e = (if closed e then 0 else 1) \<and> (closed e \<longleftrightarrow> the (server_result s) = None \<or> cancelled s)
       \<and> final_db e = (if closed e then snd (Store_Close (snd (session_run s))) else snd (session_run s))"
    by (cases "server_result s"; cases "the (server_result s)"; cases "cancelled s"; clarsimp simp: m d(1))
qed

text \<open>Otherwise it exits at once.\<close>

lemma main_not_started:
  "\<not> log_opens s \<Longrightarrow> \<exists>e. main s = Some e \<and> exit_status e = 1 \<and> final_db e = db_file s \<and> \<not> closed e"
  "log_opens s \<Longrightarrow> Open (db_file s) = (Fail err, db) \<Longrightarrow> \<exists>e. main s = Some e \<and> exit_status e = 1 \<and> final_db e = db \<and> \<not> closed e"
  using New_no_panic by (auto simp: main_def Let_def log_opens_def db_file_def split: outcome.splits)

text \<open>
  C19. How the server process ends. It runs for ever exactly if log file, database and both ports could be
  opened, no shutdown ends an accept loop, and no session panics. If a session does, the process ends
  with status 2 and leaves the database as the sessions have it. Otherwise it exits with status 1 if the
  log or the database could not be opened, or a port could not be bound and nobody had asked it to stop,
  else with status 0. Status 0 is the only case in which the store is closed, which keeps everything
  the sessions have committed and leaves no transaction open; a start that fails on the log leaves the
  database alone, and one that fails on the database loses no link.
\<close>

theorem main_exits:
  assumes "pending (db_file s) = None" "file_ok (saved (db_file s))" "shut_down s \<Longrightarrow> cancelled s"
  shows "(main s = None \<longleftrightarrow> log_opens s \<and> db_opens s \<and> binds s \<and> \<not> shut_down s \<and> \<not> crashes s)
    \<and> (\<forall>e. main s = Some e \<longrightarrow>
        exit_status e = (if crashes s then 2 else if closed e then 0 else 1)
        \<and> (closed e \<longleftrightarrow> log_opens s \<and> db_opens s \<and> (binds s \<or> cancelled s) \<and> \<not> crashes s)
        \<and> (closed e \<longrightarrow> saved (final_db e) = saved (snd (session_run s)) \<and> pending (final_db e) = None)
        \<and> (log_opens s \<longrightarrow> db_opens s \<longrightarrow> \<not> closed e \<longrightarrow> final_db e = snd (session_run s))
        \<and> (\<not> log_opens s \<longrightarrow> final_db e = db_file s)
        \<and> (log_opens s \<longrightarrow> \<not> db_opens s \<longrightarrow> pending (final_db e) = None
             \<and> link_pairs (saved (final_db e)) = link_pairs (saved (db_file s))))"
proof -
  obtain r db where o: "Open (db_file s) = (r, db)" by force
  note kept = Open_kept [OF o assms(1,2)]
  consider "\<not> log_opens s" | err where "log_opens s" "r = Fail err" | "crashes s" | "log_opens s" "db_opens s" "\<not> crashes s"
    using kept o by (cases r) (auto simp: db_opens_def)
  then show ?thesis
  proof cases
    case 1
    then have "\<not> crashes s" by (simp add: crashes_def)
    with 1 main_not_started(1) [OF 1] show ?thesis by auto
  next
    case 2
    then have "\<not> db_opens s" "\<not> crashes s" using o by (simp_all add: db_opens_def crashes_def)
    with main_not_started(2) [OF 2(1)] o 2 kept show ?thesis by fastforce
  next
    case 3
    then have "log_opens s" "db_opens s" by (simp_all add: crashes_def)
    with 3 main_crashes [OF 3] show ?thesis by auto
  next
    case 4
    have close: "saved (snd (Store_Close d)) = saved d \<and> pending (snd (Store_Close d)) = None" for d
      using Store_Close_run [of d] by (auto simp: disconnect_db_def)
    have ends: "the (server_result s) = None \<or> cancelled s \<longleftrightarrow> binds s \<or> cancelled s" if "main s \<noteq> None"
      using that main_started(1) [OF 4] result_cases [of s] assms(3) by (cases "server_result s"; cases "the (server_result s)") auto
    show ?thesis
      using main_started [OF 4] result_cases(1) [of s] ends 4 close by auto
  qed
qed

text \<open>The first statement on an old file fails: the server does not start, and the link is still there.\<close>

definition bad_start :: surroundings where
  "bad_start = \<lparr>getenvs = (\<lambda>_. []), config_files = Map.empty, log_ties = (\<lambda>_. []), log_times = (some_time, some_time), log_disk = failing_disk,
     databases = (\<lambda>_. \<lparr>saved = old_file, pending = None, foreign_keys = False, db_faults = [True]\<rparr>),
     fesl_net = two_peers, locker_net = two_peers, fesl_first = True, cancelled = True, served = gret (), panic_report = [], error_text = (\<lambda>_. [])\<rparr>"

theorem main_exits_witness:
  "\<exists>e. main bad_start = Some e \<and> exit_status e = 1 \<and> link_pairs (saved (final_db e)) = [(SqlText ''player-7'', SqlInt 1)]"
proof -
  have db: "db_file bad_start = \<lparr>saved = old_file, pending = None, foreign_keys = False, db_faults = [True]\<rparr>"
    by (simp only: bad_start_def db_file_def surroundings.select_convs)
  then have fails: "\<not> db_opens bad_start"
    by (simp add: db_opens_def Open_def gbind_def db_stmt_def)
  have start: "pending (db_file bad_start) = None" "file_ok (saved (db_file bad_start))"
    "link_pairs (saved (db_file bad_start)) = [(SqlText ''player-7'', SqlInt 1)]"
    by (simp_all add: db old_file_facts)
  have "cancelled bad_start" by (simp add: bad_start_def)
  note facts = main_exits [OF start(1,2) this] fails
  have not_crashes: "\<not> crashes bad_start" using fails by (simp add: crashes_def)
  have "main bad_start \<noteq> None" using facts by simp
  then obtain e where e: "main bad_start = Some e" by auto
  with facts not_crashes have "exit_status e = 1" by simp
  moreover have "link_pairs (saved (final_db e)) = link_pairs (saved (db_file bad_start))"
    using e facts by (cases "log_opens bad_start") simp_all
  ultimately show ?thesis using e start(3) by auto
qed

end
