(* ===== verification/Codec.thy ===== *)
theory Codec
  imports Stream
begin

text \<open>
  Both ends of a connection: a peer that writes whole messages one after the other, and the receive loop
  that takes them off the stream. The contract between writer and parser is the locale \<open>framed_codec\<close>;
  under it the loop handles exactly the messages that were written, in order, however the bytes are cut.
\<close>

text \<open>A handler on a list of messages, until it stops.\<close>

fun serve :: "('m \<Rightarrow> 's \<Rightarrow> bool \<times> 's) \<Rightarrow> 'm list \<Rightarrow> 's \<Rightarrow> bool \<times> 's" where
  "serve step [] s = (True, s)"
| "serve step (m # ms) s = (case step m s of (True, s') \<Rightarrow> serve step ms s' | (False, s') \<Rightarrow> (False, s'))"

text \<open>\<open>sent c\<close> are the bytes of a message, \<open>received c\<close> is what the other end makes of them.\<close>

locale framed_codec = incremental_parser parse for parse :: "string \<Rightarrow> 'm parse_result" +
  fixes sent :: "'c \<Rightarrow> string" and received :: "'c \<Rightarrow> 'm" and sendable :: "'c \<Rightarrow> bool"
  assumes parse_sent: "sendable c \<Longrightarrow> parse (sent c @ rest) = Inr (Some (received c, rest))"
    and parse_empty: "parse [] = Inr None"
begin

lemma messages_sent:
  "\<forall>c \<in> set cs. sendable c \<Longrightarrow> messages parse (concat (map sent cs)) = (Waiting [], map received cs)"
proof (induction cs)
  case Nil
  then show ?case by (subst messages.simps) (simp add: parse_empty)
next
  case (Cons c cs)
  then have "parse (sent c @ concat (map sent cs)) = Inr (Some (received c, concat (map sent cs)))"
    by (intro parse_sent) simp
  with Cons rest_shorter [OF this] show ?case by (subst messages.simps) simp
qed

lemma pump_sent:
  "\<forall>c \<in> set cs. sendable c \<Longrightarrow> pump parse step (concat (map sent cs) @ tail) s =
     (case serve step (map received cs) s of
        (True, s') \<Rightarrow> pump parse step tail s'
      | (False, s') \<Rightarrow> (Stopped, s'))"
proof (induction cs arbitrary: s)
  case (Cons c cs)
  then have "parse (sent c @ (concat (map sent cs) @ tail)) = Inr (Some (received c, concat (map sent cs) @ tail))"
    by (intro parse_sent) simp
  note first = pump_complete [OF this, of step s]
  obtain goes_on s1 where "step (received c) s = (goes_on, s1)" by force
  with first Cons show ?case by (cases goes_on) simp_all
qed simp

lemma feed_sent:
  assumes "\<forall>c \<in> set cs. sendable c" "concat chunks = concat (map sent cs)" "chunks \<noteq> []"
  shows "feed parse step chunks (Waiting [], s) =
     (case serve step (map received cs) s of (goes_on, s') \<Rightarrow> (if goes_on then Waiting [] else Stopped, s'))"
proof -
  obtain goes_on s' where "serve step (map received cs) s = (goes_on, s')" by force
  with pump_sent [OF assms(1), of step "[]" s] show ?thesis
    by (cases goes_on) (simp_all add: feed_concat assms(2,3) pump_more [OF parse_empty])
qed

end

end
