(* ===== verification/Exchange.thy ===== *)
theory Exchange
  imports Codec Replies Locker_Answers
begin

text \<open>
  Whole exchanges between a client and the two servers: the packets and requests that a client writes,
  cut into reads in any way, go through the receive loop and the handlers, and what the server writes is
  read back by the client.
\<close>

subsection \<open>FESL\<close>

definition sent_packet :: "packet \<Rightarrow> string" where
  "sent_packet p = Encode (Type p) (ID p) (Params p)"

text \<open>What arrives of a packet: the payload of a packet with unsafe values is read otherwise, but it ends where it ended.\<close>

definition received_packet :: "packet \<Rightarrow> packet" where
  "received_packet p = \<lparr>Type = trim_right_char NUL (type_field (Type p)), ID = ID p, Params = decode_payload (payload (Params p))\<rparr>"

definition packet_fits :: "packet \<Rightarrow> bool" where
  "packet_fits p \<longleftrightarrow> length (sent_packet p) < 4294967296"

definition packet_safe :: "packet \<Rightarrow> bool" where
  "packet_safe p \<longleftrightarrow> type_safe (Type p) \<and> (\<forall>x \<in> set (Params p). wire_safe x)"

interpretation fesl_codec: framed_codec Decode sent_packet received_packet packet_fits
proof
  fix p rest assume "packet_fits p"
  then have fits: "HeaderLen + length (payload (Params p)) < 4294967296"
    by (simp add: packet_fits_def sent_packet_def length_Encode)
  show "Decode (sent_packet p @ rest) = Inr (Some (received_packet p, rest))"
    using Decode_sent [OF fits] by (simp add: sent_packet_def received_packet_def)
next
  show "Decode [] = Inr None" by (simp add: Decode_def HeaderLen_def)
qed

lemma received_safe: "packet_safe p \<Longrightarrow> received_packet p = p"
  by (cases p) (simp add: received_packet_def packet_safe_def trim_padded_type decode_payload_payload)

text \<open>The one packet that a session takes in silence.\<close>

definition memcheck_answer :: "packet \<Rightarrow> bool" where
  "memcheck_answer p \<longleftrightarrow> packet_txn p = ''MemCheck'' \<and> ID p = 0x80000000"

lemma process_crashed: "process cfg now pkt c = (goes_on, c') \<Longrightarrow> \<not> crashed c \<Longrightarrow> crashed c' \<longleftrightarrow> \<not> goes_on"
  by (auto simp: process_def split: if_splits prod.splits outcome.splits)

lemma serve_replies:
  assumes "serve (process cfg now) pkts c = (goes_on, c')" "\<not> crashed c"
  shows "(crashed c' \<longleftrightarrow> \<not> goes_on) \<and> (\<exists>n new. n \<le> length pkts \<and> (goes_on \<longrightarrow> n = length pkts)
    \<and> written c' = written c @ map sent_packet new \<and> map ID new = map ID (filter (\<lambda>p. \<not> memcheck_answer p) (take n pkts)))"
  using assms
proof (induction pkts arbitrary: c)
  case Nil
  then show ?case by (intro conjI exI [of _ 0] exI [of _ "[]"]) simp_all
next
  case (Cons p pkts)
  obtain more_to_come c1 where p: "process cfg now p c = (more_to_come, c1)" by force
  note crash = process_crashed [OF p Cons.prems(2)]
  show ?case
  proof (cases more_to_come)
    case False
    then have "goes_on = False" "c' = c1" using Cons.prems(1) p by auto
    moreover have "written c1 = written c" using process_reply [OF p] False by (auto split: if_splits)
    ultimately show ?thesis using crash False by (intro conjI exI [of _ 0] exI [of _ "[]"]) simp_all
  next
    case True
    obtain now_sent where s: "written c1 = written c @ map sent_packet now_sent"
      "map ID now_sent = map ID (filter (\<lambda>p. \<not> memcheck_answer p) [p])"
    proof (cases "memcheck_answer p")
      case True
      with process_reply [OF p] that [of "[]"] show ?thesis by (simp add: memcheck_answer_def)
    next
      case False
      then obtain t ps where "written c1 = written c @ [Encode t (ID p) ps]"
        using process_reply [OF p] True unfolding memcheck_answer_def by auto
      with False that [of "[\<lparr>Type = t, ID = ID p, Params = ps\<rparr>]"] show ?thesis by (simp add: sent_packet_def)
    qed
    have "serve (process cfg now) pkts c1 = (goes_on, c')" using Cons.prems(1) p True by simp
    then obtain n new where IH: "crashed c' \<longleftrightarrow> \<not> goes_on" "n \<le> length pkts" "goes_on \<longrightarrow> n = length pkts"
      "written c' = written c1 @ map sent_packet new" "map ID new = map ID (filter (\<lambda>p. \<not> memcheck_answer p) (take n pkts))"
      using Cons.IH [of c1] crash True by blast
    with s show ?thesis
      by (intro conjI exI [of _ "Suc n"] exI [of _ "now_sent @ new"]) (auto split: if_splits)
  qed
qed

text \<open>
  C4. A FESL client and a session understand each other over any connection. However the stream of
  the client's packets is cut into reads, the session handles exactly these packets, in order; and what
  it writes is a stream that the client decodes to the last byte into one packet for each packet it sent
  (those that answer a memory check aside), with the same ids in the same order. Only a panic of a handler cuts
  this short, and then the replies are those to the packets before it.
\<close>

theorem session_exchange:
  assumes "\<forall>p \<in> set pkts. packet_safe p \<and> packet_fits p" "chunks \<noteq> []" "concat chunks = concat (map sent_packet pkts)"
    "feed Decode (process cfg now) chunks (Waiting [], c) = (e, c')" "\<not> crashed c" "written c = []"
    "\<forall>r \<in> set (written c'). length r < 4294967296"
  shows "serve (process cfg now) pkts c = (\<not> crashed c', c') \<and> e = (if crashed c' then Stopped else Waiting [])
    \<and> (\<exists>n resps. n \<le> length pkts \<and> (\<not> crashed c' \<longrightarrow> n = length pkts)
        \<and> messages Decode (concat (written c')) = (Waiting [], resps)
        \<and> map ID resps = map ID (filter (\<lambda>p. \<not> memcheck_answer p) (take n pkts)))"
proof -
  have "map received_packet pkts = pkts"
    using assms(1) received_safe by (simp add: map_idI)
  moreover obtain goes_on c'' where s: "serve (process cfg now) pkts c = (goes_on, c'')" by force
  ultimately have e: "c'' = c'" "e = (if goes_on then Waiting [] else Stopped)"
    using fesl_codec.feed_sent [of pkts chunks "process cfg now" c] assms(1-4) by auto
  obtain n new where r: "crashed c' \<longleftrightarrow> \<not> goes_on" "n \<le> length pkts" "goes_on \<longrightarrow> n = length pkts"
    "written c' = map sent_packet new" "map ID new = map ID (filter (\<lambda>p. \<not> memcheck_answer p) (take n pkts))"
    using serve_replies [OF s assms(5)] e(1) assms(6) by auto
  have "\<forall>p \<in> set new. packet_fits p" using assms(7) r(4) by (simp add: packet_fits_def)
  from fesl_codec.messages_sent [OF this] have "messages Decode (concat (written c')) = (Waiting [], map received_packet new)"
    using r(4) by simp
  moreover have "map ID (map received_packet new) = map ID new" by (simp add: received_packet_def)
  ultimately show ?thesis using s e r by auto
qed

text \<open>The answer to a memory check and a transaction the server does not know, byte by byte.\<close>

definition two_packets :: "packet list" where
  "two_packets = [\<lparr>Type = ''fsys'', ID = 0x80000000, Params = kvs [''TXN'', ''MemCheck'']\<rparr>, \<lparr>Type = ''abcd'', ID = 7, Params = kvs [''TXN'', ''Nothing'']\<rparr>]"

definition fresh_connection :: connection where
  "fresh_connection = \<lparr>srv = \<lparr>db = empty_world, sess = new_session\<rparr>, written = [], last_memcheck = 0, crashed = False\<rparr>"

lemma two_packets_served: "serve (process defaults 5) two_packets fresh_connection =
  (True, fresh_connection\<lparr>last_memcheck := 5, written := [Encode ''abcd'' 7 (kvs [''TXN'', ''Nothing''])]\<rparr>)"
proof -
  have "packet_txn (two_packets ! 0) = ''MemCheck''" "packet_txn (two_packets ! 1) = ''Nothing''" "map_of handlers ''Nothing'' = None"
    by code_simp+
  then show ?thesis
    by (simp add: two_packets_def fresh_connection_def process_def dispatch_def gret_def Encode_def be32_def Let_def)
qed

theorem session_exchange_witness:
  "\<exists>c' rs. feed Decode (process defaults 5) (map (\<lambda>b. [b]) (concat (map sent_packet two_packets))) (Waiting [], fresh_connection) = (Waiting [], c')
    \<and> messages Decode (concat (written c')) = (Waiting [], rs) \<and> map ID rs = [7]"
proof -
  let ?reads = "map (\<lambda>b. [b]) (concat (map sent_packet two_packets))"
  obtain e c' where f: "feed Decode (process defaults 5) ?reads (Waiting [], fresh_connection) = (e, c')" by force
  have p: "\<forall>p \<in> set two_packets. packet_safe p \<and> packet_fits p"
    by (auto simp: two_packets_def packet_safe_def packet_fits_def sent_packet_def length_Encode HeaderLen_def type_safe_def
        wire_safe_def payload_def encode_line_def kvs.simps)
  have c: "concat (map (\<lambda>b. [b]) x) = x" for x :: string by (induction x) auto
  have r: "?reads \<noteq> []" by (simp add: two_packets_def sent_packet_def Encode_def be32_def Let_def)
  have s: "map received_packet two_packets = two_packets" using p received_safe by (simp add: map_idI)
  have "(e, c') = (Waiting [], fresh_connection\<lparr>last_memcheck := 5, written := [Encode ''abcd'' 7 (kvs [''TXN'', ''Nothing''])]\<rparr>)"
    using fesl_codec.feed_sent [of two_packets ?reads "process defaults 5" fresh_connection] p c r f s two_packets_served by simp
  then have c': "\<forall>r \<in> set (written c'). length r < 4294967296" "\<not> crashed c'" "e = Waiting []"
    by (auto simp: fresh_connection_def length_Encode HeaderLen_def payload_def encode_line_def kvs.simps)
  have m: "map ID (filter (\<lambda>p. \<not> memcheck_answer p) (take 2 two_packets)) = [7]" "length two_packets = 2"
  proof -
    have "packet_txn (two_packets ! 0) = ''MemCheck''" "packet_txn (two_packets ! 1) = ''Nothing''" by code_simp+
    then show "map ID (filter (\<lambda>p. \<not> memcheck_answer p) (take 2 two_packets)) = [7]" "length two_packets = 2"
      by (simp_all add: two_packets_def memcheck_answer_def)
  qed
  obtain n rs where "messages Decode (concat (written c')) = (Waiting [], rs)" "n = length two_packets"
    "map ID rs = map ID (filter (\<lambda>p. \<not> memcheck_answer p) (take n two_packets))"
    using session_exchange [OF p r c f _ _ c'(1)] c'(2) by (auto simp: fresh_connection_def)
  with f c'(3) m show ?thesis by simp
qed

subsection \<open>The locker\<close>

record client_message =
  cm_method :: string
  cm_target :: string
  cm_headers :: "string list"
  cm_body :: string

definition sent_request :: "client_message \<Rightarrow> string" where
  "sent_request r = client_request (cm_method r) (cm_target r) (cm_headers r) (cm_body r)"

definition received_request :: "client_message \<Rightarrow> http_request" where
  "received_request r = \<lparr>rq_method = cm_method r, rq_path = cm_target r,
     rq_headers = foldl header_line Map.empty (cm_headers r @ [content_length (cm_body r)]), rq_body = cm_body r\<rparr>"

definition request_ok :: "client_message \<Rightarrow> bool" where
  "request_ok r \<longleftrightarrow> CR \<notin> set (cm_method r) \<and> CHR '' '' \<notin> set (cm_method r) \<and> CR \<notin> set (cm_target r) \<and> CHR '' '' \<notin> set (cm_target r)
     \<and> (\<forall>h \<in> set (cm_headers r). h \<noteq> [] \<and> CR \<notin> set h) \<and> length (sent_request r) < 9223372036854775808"

interpretation http_requests: framed_codec parseHTTPRequest sent_request received_request request_ok
proof
  fix r rest assume "request_ok r"
  then show "parseHTTPRequest (sent_request r @ rest) = Inr (Some (received_request r, rest))"
    unfolding sent_request_def received_request_def by (intro client_request_parses) (auto simp: request_ok_def sent_request_def)
next
  show "parseHTTPRequest [] = Inr None" by (simp add: parseHTTPRequest_def CRLF_def index_of.simps)
qed

definition sent_response :: "http_result \<Rightarrow> string" where
  "sent_response = (\<lambda>(code, body, ct). buildHTTPResponse code body ct)"

definition received_response :: "http_result \<Rightarrow> http_request" where
  "received_response = (\<lambda>(code, body, ct). \<lparr>rq_method = ''HTTP/1.1'', rq_path = itoa code, rq_headers = [''content-type'' \<mapsto> ct,
     ''connection'' \<mapsto> ''keep-alive'', ''content-length'' \<mapsto> itoa (int (length body))], rq_body = body\<rparr>)"

definition response_ok :: "http_result \<Rightarrow> bool" where
  "response_ok a \<longleftrightarrow> framed a \<and> length (sent_response a) < 9223372036854775808"

interpretation http_responses: framed_codec parseHTTPRequest sent_response received_response response_ok
proof
  fix a rest assume "response_ok a"
  then show "parseHTTPRequest (sent_response a @ rest) = Inr (Some (received_response a, rest))"
    by (cases a) (auto simp: response_ok_def framed_def sent_response_def received_response_def intro!: response_parses)
next
  show "parseHTTPRequest [] = Inr None" by (rule http_requests.parse_empty)
qed

text \<open>The answers to a list of requests, handled one after the other.\<close>

fun answer_all :: "(string \<Rightarrow> bool) \<Rightarrow> Config \<Rightarrow> client_message list \<Rightarrow> locker_state \<Rightarrow> http_result list \<times> locker_state" where
  "answer_all ok cfg [] s = ([], s)"
| "answer_all ok cfg (r # rs) s = (case serve_request ok cfg (cm_method r) (cm_target r) (cm_body r) s of
      (Ret a, s') \<Rightarrow> (case answer_all ok cfg rs s' of (as, s'') \<Rightarrow> (a # as, s''))
    | (_, s') \<Rightarrow> ([], s'))"

lemma serve_answers:
  "answer_all ok cfg rs s = (as, s') \<Longrightarrow>
   serve (http_step ok cfg) (map received_request rs) (s, out) = (True, s', out @ map sent_response as)
   \<and> length as = length rs \<and> (\<forall>a \<in> set as. framed a)"
proof (induction rs arbitrary: s out as)
  case (Cons r rs)
  obtain a s1 where a: "serve_request ok cfg (cm_method r) (cm_target r) (cm_body r) s = (Ret a, s1)" "framed a"
    using answers_serve_request [of ok cfg "cm_method r" "cm_target r" "cm_body r"] unfolding answers_def by blast
  then obtain bs where bs: "answer_all ok cfg rs s1 = (bs, s')" "as = a # bs"
    using Cons.prems by (auto split: prod.splits)
  have "http_step ok cfg (received_request r) (s, out) = (True, s1, out @ [sent_response a])"
    using a(1) by (cases a) (simp add: http_step_def received_request_def sent_response_def)
  with Cons.IH [OF bs(1), of "out @ [sent_response a]"] bs(2) a(2) show ?case by simp
qed simp

text \<open>
  C17. A client of the locker and a connection understand each other. However the client's requests
  are cut into reads, the locker handles exactly these requests, in order and each with its own body,
  and keeps the connection open; the response stream splits to the last byte into the answers of the
  handlers, status, type and body, one for each request.
\<close>

theorem locker_exchange:
  assumes "\<forall>r \<in> set rs. request_ok r" "reads \<noteq> []" "concat reads = concat (map sent_request rs)"
    "answer_all ok cfg rs s = (resps, s')" "\<forall>a \<in> set resps. length (sent_response a) < 9223372036854775808"
  shows "\<exists>out. handleConnection ok cfg reads s = (Waiting [], s', out) \<and> length resps = length rs
    \<and> messages parseHTTPRequest (concat out) = (Waiting [], map received_response resps)"
proof -
  note r = serve_answers [OF assms(4), of "[]"]
  have "\<forall>a \<in> set resps. response_ok a" using r assms(5) by (simp add: response_ok_def)
  note parsed = http_responses.messages_sent [OF this]
  have "handleConnection ok cfg reads s = (Waiting [], s', map sent_response resps)"
    using http_requests.feed_sent [OF assms(1,3,2), of "http_step ok cfg" "(s, [])"] r by (simp add: handleConnection_def)
  with parsed r show ?thesis by simp
qed

text \<open>A put whose body looks like a request, and a check of the server's health.\<close>

definition two_messages :: "client_message list" where
  "two_messages = [\<lparr>cm_method = ''POST'', cm_target = ''/easo/locker?cmd=none'', cm_headers = [''Host: x''], cm_body = ''GET / HTTP/1.1'' @ CRLF @ CRLF\<rparr>,
     \<lparr>cm_method = ''GET'', cm_target = ''/healthz'', cm_headers = [], cm_body = []\<rparr>]"

definition empty_store :: locker_state where
  "empty_store = \<lparr>lk_db = empty_world, lk_disk = \<lparr>nodes = [], io = [], unix_now = 0\<rparr>, lk_log = sample_log\<rparr>"

theorem locker_exchange_witness:
  "\<exists>s' out rs. handleConnection (\<lambda>_. False) defaults (map (\<lambda>c. [c]) (concat (map sent_request two_messages))) empty_store = (Waiting [], s', out)
    \<and> messages parseHTTPRequest (concat out) = (Waiting [], rs) \<and> length rs = 2"
proof -
  obtain resps s' where a: "answer_all (\<lambda>_. False) defaults two_messages empty_store = (resps, s')" by force
  have "list_all (\<lambda>a. length (sent_response a) < 9223372036854775808) (fst (answer_all (\<lambda>_. False) defaults two_messages empty_store))"
    by code_simp
  then have short: "\<forall>a \<in> set resps. length (sent_response a) < 9223372036854775808" by (simp add: a list_all_iff)
  have ok: "list_all request_ok two_messages" by code_simp
  have "map (\<lambda>c. [c]) (concat (map sent_request two_messages)) \<noteq> []"
    by (simp add: two_messages_def sent_request_def client_request_def message_def)
  moreover have "concat (map (\<lambda>c. [c]) x) = x" for x :: string by (induction x) auto
  moreover have "\<forall>r \<in> set two_messages. request_ok r" using ok by (simp only: list_all_iff)
  ultimately obtain out where "handleConnection (\<lambda>_. False) defaults (map (\<lambda>c. [c]) (concat (map sent_request two_messages))) empty_store
      = (Waiting [], s', out)" "length resps = length two_messages" "messages parseHTTPRequest (concat out) = (Waiting [], map received_response resps)"
    using locker_exchange [OF _ _ _ a short, of "map (\<lambda>c. [c]) (concat (map sent_request two_messages))"] by blast
  then show ?thesis by (intro exI conjI) (assumption, assumption, simp add: two_messages_def)
qed

end
