(* ===== verification/Readonly.thy ===== *)
theory Readonly
  imports Dispatch
begin

text \<open>
  The requests that only read: they leave every row of the database and the session as they were. The
  invariant is a fixed content of the tables and a fixed session.
\<close>

definition rows_of :: "world \<Rightarrow> Account list \<times> Persona list \<times> stat_row list \<times> friend_row list \<times> token_row list
    \<times> player_row list \<times> run_row list \<times> link_row list" where
  "rows_of w = (accounts w, personas w, stats w, friends w, login_tokens w, historical_players w, historical_runs w,
     historical_account_links w)"

abbreviation rows_are where "rows_are R \<equiv> \<lambda>w. rows_of w = R"

lemma rows_are_invariant [keeps_intro]: "table_invariant (rows_are R)"
  by (simp add: table_invariant_def rows_of_def)

text \<open>The reading methods of the store.\<close>

lemma rows_personas [keeps_intro]:
  "keeps (rows_are R) (Personas aid)" "keeps (rows_are R) (LookupPersonaByName name)"
  "keeps (rows_are R) (PersonaExists pid)" "keeps (rows_are R) (GetAssociations pid t)" "keeps (rows_are R) (PersonaByID pid)"
  unfolding Personas_def LookupPersonaByName_def PersonaByID_def PersonaExists_def GetAssociations_def
  by (intro keeps_intro)+

lemma rows_stats [keeps_intro]:
  "keeps (rows_are R) (GetStats pid keys period)" "keeps (rows_are R) (RankedStats pid key period)"
  "keeps (rows_are R) (HistoricalStats oid keys period)" "keeps (rows_are R) (HistoricalRankedStats oid key period)"
  unfolding bestPersonaIDForKey_def bestPersonaIDForKeys_def linkedHistoricalStats_def linkedHistoricalTime_def
    GetStats_def rankForValue_def RankedStats_def HistoricalStats_def HistoricalRankedStats_def
  by (intro keeps_intro; auto intro!: keeps_intro split: prod.splits)+

lemma rows_TopN [keeps_intro]: "keeps (rows_are R) (TopN key minRank maxRank extraKeys period)"
proof -
  have "keeps (rows_are R) (top_entry key extraKeys period offset row)" for offset row
    by (cases row) (auto simp: top_entry_def intro!: keeps_intro)
  then show ?thesis unfolding TopN_def by (intro keeps_intro)
qed

subsection \<open>The handlers\<close>

definition untouched :: "world \<Rightarrow> Session \<Rightarrow> server_state \<Rightarrow> bool" where
  "untouched w ss s \<longleftrightarrow> rows_of (db s) = rows_of w \<and> sess s = ss"

lemma untouched_on_store [keeps_intro]:
  "keeps (rows_are (rows_of w)) m \<Longrightarrow> keeps (untouched w ss) (on_store m)"
  by (auto simp: keeps_def untouched_def on_store_def split: prod.splits)

lemma untouched_validate [keeps_intro]: "keeps (untouched w ss) (validateAssociationRequest req rs)"
  unfolding validateAssociationRequest_def Let_def by (intro keeps_intro)

lemma untouched_response [keeps_intro]:
  "keeps (untouched w ss) (associationMutationResponse pkt txn pre p t oid roid ot rs)"
  unfolding associationMutationResponse_def emitAssociationResult_def Let_def
  by (intro keeps_intro; auto intro!: keeps_intro split: prod.splits)

lemma untouched_rank_helpers [keeps_intro]:
  "keeps (untouched w ss) (owner_ranked oid key period)" "keeps (untouched w ss) (owner_stats oid keys period)"
  "keeps (untouched w ss) (statGroupRankValue oid keys period)"
  unfolding owner_ranked_def owner_stats_def statGroupRankValue_def by (intro keeps_intro)+

lemma untouched_ranked_key [keeps_intro]: "keeps (untouched w ss) (ranked_key persona period ik resp)"
  unfolding ranked_key_def by (cases ik) (auto intro!: keeps_intro)

lemma untouched_stats_owner [keeps_intro]: "keeps (untouched w ss) (stats_owner s keys period io resp)"
  unfolding stats_owner_def by (cases io) (auto intro!: keeps_intro)

lemma untouched_ranked_owner_key [keeps_intro]: "keeps (untouched w ss) (ranked_owner_key oid period pre jk resp)"
  unfolding ranked_owner_key_def by (cases jk) (auto intro!: keeps_intro)

lemma untouched_ranked_owner [keeps_intro]: "keeps (untouched w ss) (ranked_owner s keys period io resp)"
  by (cases io) (auto simp: ranked_owner_def Let_def intro!: keeps_intro)

lemma untouched_readers [keeps_intro]:
  "keeps (untouched w ss) (handleNuGetPersonas cfg pkt)" "keeps (untouched w ss) (handleNuLookupUserInfo cfg pkt)"
  "keeps (untouched w ss) (handleGetAssociations cfg pkt)"
  "keeps (untouched w ss) (handleGetStats cfg pkt)" "keeps (untouched w ss) (handleGetRankedStats cfg pkt)"
  "keeps (untouched w ss) (handleGetStatsForOwners cfg pkt)" "keeps (untouched w ss) (handleGetRankedStatsForOwners cfg pkt)"
  "keeps (untouched w ss) (handleGetTopNAndStats cfg pkt)"
  unfolding handleNuGetPersonas_def handleNuLookupUserInfo_def lookup_user_def handleGetAssociations_def handleGetStats_def
    handleGetRankedStats_def handleGetStatsForOwners_def handleGetRankedStatsForOwners_def handleGetTopNAndStats_def Let_def
  by (intro keeps_intro)+

text \<open>The transactions that write: logins, new accounts and personas, friend lists and stats.\<close>

definition writers :: "string list" where
  "writers = [''NuLogin'', ''Login'', ''NuAddAccount'', ''NuLoginPersona'', ''NuAddPersona'', ''AddAssociations'',
     ''DeleteAssociations'', ''UpdateStats'', ''SubmitStats'']"

lemma dispatch_untouched:
  assumes "packet_txn pkt \<notin> set writers"
  shows "keeps (untouched w ss) (dispatch cfg pkt)"
proof (cases "map_of handlers (packet_txn pkt)")
  case None
  then show ?thesis by (simp add: dispatch_def keeps_gret)
next
  case (Some h)
  then have "(packet_txn pkt, h) \<in> set handlers" by (rule map_of_SomeD)
  with assms have "keeps (untouched w ss) (h cfg pkt)"
    unfolding handlers_def writers_def by (auto intro!: keeps_intro)
  with Some show ?thesis by (simp add: dispatch_def)
qed

end
