(* ===== verification/Requests.thy ===== *)
theory Requests
  imports Concurrency Readonly Isolation
begin

text \<open>
  Whole requests under concurrency. The handlers that write are given statement by statement
  (\<open>server/fesl/server.go\<close>, \<open>associations.go\<close>, \<open>rank.go\<close>), on a state that has the database, which all
  sessions share, beside the session, which belongs to one connection. A handler that only reads is one
  step: however its queries interleave with the statements of others, it changes nothing (\<open>Readonly\<close>).
\<close>

subsection \<open>Programs of a session\<close>

text \<open>A call of the store inside a handler.\<close>

primrec on_store_steps :: "(world, 'a) prog \<Rightarrow> (server_state, 'a) prog" where
  "on_store_steps (Done r) = Done r"
| "on_store_steps (Stmt g) = Stmt (\<lambda>s. case (map_prod on_store_steps id \<circ> g) (db s) of (p, w) \<Rightarrow> (p, s\<lparr>db := w\<rparr>))"

lemma solo_on_store [solo_run]: "solo (on_store_steps p) = on_store (solo p)"
proof (induction p)
  case (Done r)
  then show ?case by (simp add: on_store_def fun_eq_iff)
next
  case (Stmt g)
  show ?case
  proof
    fix s :: server_state
    obtain p w where g: "g (db s) = (p, w)" by force
    then have "solo (on_store_steps p) = on_store (solo p)" using Stmt by (metis fsts.intros fst_conv rangeI)
    with g show "solo (on_store_steps (Stmt g)) s = on_store (solo (Stmt g)) s"
      by (simp add: on_store_def split: prod.split)
  qed
qed

text \<open>
  A handler of one session as a program on the database alone: the session goes along with it and comes
  out with the result.
\<close>

primrec thread :: "(server_state, 'a) prog \<Rightarrow> Session \<Rightarrow> (world, 'a outcome \<times> Session) prog" where
  "thread (Done r) = (\<lambda>ss. Done (Ret (r, ss)))"
| "thread (Stmt g) = (\<lambda>ss. Stmt (\<lambda>w. case (map_prod thread id \<circ> g) \<lparr>db = w, sess = ss\<rparr> of (k, s) \<Rightarrow> (k (sess s), db s)))"

lemma solo_thread: "solo (thread p ss) w = (case solo p \<lparr>db = w, sess = ss\<rparr> of (r, s) \<Rightarrow> (Ret (r, sess s), db s))"
proof (induction p arbitrary: ss w)
  case (Stmt g)
  obtain p s where g: "g \<lparr>db = w, sess = ss\<rparr> = (p, s)" by force
  have IH: "solo (thread p (sess s)) (db s) = (case solo p \<lparr>db = db s, sess = sess s\<rparr> of (r, s) \<Rightarrow> (Ret (r, sess s), db s))"
  proof (rule Stmt)
    show "(p, s) \<in> range g" unfolding g [symmetric] by (rule rangeI)
    show "p \<in> Basic_BNFs.fsts (p, s)" by (simp add: prod_set_simps)
  qed
  have "solo (thread (Stmt g) ss) w = solo (thread p (sess s)) (db s)" by (simp add: g)
  also have "\<dots> = (case solo p s of (r, s) \<Rightarrow> (Ret (r, sess s), db s))" unfolding IH by (cases s) simp
  also have "solo p s = solo (Stmt g) \<lparr>db = w, sess = ss\<rparr>" by (simp add: g)
  finally show ?case .
qed simp

subsection \<open>The handlers that write, statement by statement\<close>

type_synonym handler_steps = "Config \<Rightarrow> packet \<Rightarrow> (server_state, string) prog"

definition handleNuLogin_steps :: handler_steps where
  "handleNuLogin_steps cfg pkt =
     (let p = ParamsMap (Params pkt); token = mget p ''encryptedInfo'';
          refused = atom (reply ''acct'' pkt (kvs [''TXN'', ''NuLogin'', ''errorCode'', ''122''])) in
      if token \<noteq> [] then
        pbind (on_store_steps (AccountByLoginToken_steps token)) (\<lambda>account. case account of
            None \<Rightarrow> refused
          | Some account \<Rightarrow> atom (loginResponse pkt account []))
      else
        pbind (on_store_steps (ValidateAccount_steps (mget p ''nuid'') (mget p ''password''))) (\<lambda>account. case account of
            None \<Rightarrow> refused
          | Some account \<Rightarrow>
              pbind (if mget p ''returnEncryptedInfo'' = ''1'' then on_store_steps (IssueLoginToken_steps (acc_ID account))
                     else pret []) (\<lambda>encryptedLoginInfo.
              atom (loginResponse pkt account encryptedLoginInfo))))"

definition handleNuAddAccount_steps :: handler_steps where
  "handleNuAddAccount_steps cfg pkt =
     (let p = ParamsMap (Params pkt); nuid = mget p ''nuid''; password = mget p ''password'';
          refused = atom (reply ''acct'' pkt (kvs [''TXN'', ''NuAddAccount'', ''errorCode'', ''122''])) in
      if validateAccountNUID nuid (MaxIdentifierLength cfg) \<noteq> [] then refused
      else if validateAccountPassword password \<noteq> [] then refused
      else ptry (on_store_steps (CreateAccount_steps nuid password))
        (\<lambda>err. if err = ErrAccountExists then refused else pfail err)
        (\<lambda>account. case account of
            None \<Rightarrow> refused
          | Some _ \<Rightarrow> atom (reply ''acct'' pkt (kvs [''TXN'', ''NuAddAccount'']))))"

text \<open>What follows a successful \<open>GetOrCreatePersona\<close> in a login touches the session only.\<close>

definition personaResponse :: "packet \<Rightarrow> int \<Rightarrow> Persona \<Rightarrow> string fesl" where
  "personaResponse pkt account persona =
     gbind (gmodify (\<lambda>s. s\<lparr>sess := (sess s)\<lparr>personaID := per_ID persona, personaName := per_Name persona\<rparr>\<rparr>)) (\<lambda>_.
     gbind (randomHex 20) (\<lambda>key.
     gbind (gmodify (\<lambda>s. s\<lparr>sess := (sess s)\<lparr>lkey := key\<rparr>\<rparr>)) (\<lambda>_.
     reply ''acct'' pkt (kvs [
       ''TXN'', ''NuLoginPersona'',
       ''lkey'', key,
       ''profileId'', itoa64 (per_ID persona),
       ''userId'', itoa64 account]))))"

definition handleNuLoginPersona_steps :: handler_steps where
  "handleNuLoginPersona_steps cfg pkt = pbind (atom (gget (\<lambda>s. accountID (sess s)))) (\<lambda>account.
     let name = mget (ParamsMap (Params pkt)) ''name'';
         refused = atom (reply ''acct'' pkt (kvs [''TXN'', ''NuLoginPersona'', ''errorCode'', ''122''])) in
     if account = 0 then atom (reply ''acct'' pkt (kvs [''TXN'', ''NuLoginPersona'']))
     else if validatePersonaName name (MaxIdentifierLength cfg) \<noteq> [] then refused
     else ptry (on_store_steps (GetOrCreatePersona_steps account name))
       (\<lambda>err. if err = ErrPersonaNameTaken then refused else pfail err)
       (\<lambda>persona. atom (personaResponse pkt account persona)))"

definition handleNuAddPersona_steps :: handler_steps where
  "handleNuAddPersona_steps cfg pkt = pbind (atom (gget (\<lambda>s. accountID (sess s)))) (\<lambda>account.
     let name = mget (ParamsMap (Params pkt)) ''name'';
         refused = atom (reply ''acct'' pkt (kvs [''TXN'', ''NuAddPersona'', ''errorCode'', ''122'']));
         added = atom (reply ''acct'' pkt (kvs [''TXN'', ''NuAddPersona''])) in
     if account \<noteq> 0 then
       (if validatePersonaName name (MaxIdentifierLength cfg) \<noteq> [] then refused
        else ptry (on_store_steps (GetOrCreatePersona_steps account name))
          (\<lambda>err. if err = ErrPersonaNameTaken then refused else pfail err)
          (\<lambda>_. added))
     else added)"

text \<open>The two look-ups of a validation are statements of their own.\<close>

definition validateAssociationRequest_steps :: "associationRequest \<Rightarrow> bool \<Rightarrow> (server_state, string \<times> string) prog" where
  "validateAssociationRequest_steps req rejectSelf =
     (let refused = (\<lambda>reason. pret (associationOutcomeRefused, reason)) in
      pbind (atom (gget sess)) (\<lambda>s.
      if ar_ownerID req = 0 then refused ''missing owner persona''
      else if ar_memberID req = 0 then refused ''missing member persona''
      else if rejectSelf \<and> ar_ownerID req = ar_memberID req then refused ''self association''
      else if IsHistoricalOwner (ar_ownerID req) then refused ''historical owner persona''
      else if IsHistoricalOwner (ar_memberID req) then refused ''historical member persona''
      else if personaID s \<noteq> 0 \<and> ar_ownerID req \<noteq> personaID s then
        refused ''owner does not match logged-in persona''
      else
        pbind (on_store_steps (atom (PersonaExists (ar_ownerID req)))) (\<lambda>ownerExists.
        if \<not> ownerExists then refused ''owner persona does not exist''
        else
          pbind (on_store_steps (atom (PersonaExists (ar_memberID req)))) (\<lambda>memberExists.
          if \<not> memberExists then refused ''member persona does not exist''
          else pret (associationOutcomeOK, [])))))"

definition add_request_steps :: "params \<Rightarrow> string \<Rightarrow> nat \<Rightarrow> assoc_acc \<Rightarrow> (server_state, assoc_acc) prog" where
  "add_request_steps p assocType i = (\<lambda>(_, _, _, results).
     pbind (atom (gget sess)) (\<lambda>s.
     let req = parseAssociationRequest s p ''addRequests'' i in
     pbind (validateAssociationRequest_steps req True) (\<lambda>(outcome, reason).
     pbind (if outcome = associationOutcomeOK
            then pbind (on_store_steps (atom (AddAssociation (ar_ownerID req) (ar_memberID req) assocType))) (\<lambda>_. pret ())
            else pret ()) (\<lambda>_.
     pret (ar_ownerID req, ar_responseOwnerID req, ar_ownerType req, results @ [result_of req outcome])))))"

definition delete_request_steps :: "params \<Rightarrow> string \<Rightarrow> nat \<Rightarrow> assoc_acc \<Rightarrow> (server_state, assoc_acc) prog" where
  "delete_request_steps p assocType i = (\<lambda>(_, _, _, results).
     pbind (atom (gget sess)) (\<lambda>s.
     let req = parseAssociationRequest s p ''deleteRequests'' i in
     pbind (validateAssociationRequest_steps req False) (\<lambda>(outcome, reason).
     pbind (if outcome = associationOutcomeOK
            then on_store_steps (atom (DeleteAssociation (ar_ownerID req) (ar_memberID req) assocType))
            else pret ()) (\<lambda>_.
     pret (ar_ownerID req, ar_responseOwnerID req, ar_ownerType req, results @ [result_of req outcome])))))"

definition handleAddAssociations_steps :: handler_steps where
  "handleAddAssociations_steps cfg pkt =
     (let p = ParamsMap (Params pkt);
          assocType = associationType p;
          count = atoi (mget p ''addRequests.[]'') in
      pbind (pfold (add_request_steps p assocType) [0..<nat count] (0, 0, ''1'', []))
        (\<lambda>(ownerID, responseOwnerID, ownerType, results).
      atom (associationMutationResponse pkt ''AddAssociations'' ''addRequests'' p assocType ownerID
        responseOwnerID ownerType results)))"

definition handleDeleteAssociations_steps :: handler_steps where
  "handleDeleteAssociations_steps cfg pkt =
     (let p = ParamsMap (Params pkt);
          assocType = associationType p;
          count = atoi (mget p ''deleteRequests.[]'') in
      pbind (pfold (delete_request_steps p assocType) [0..<nat count] (0, 0, ''1'', []))
        (\<lambda>(ownerID, responseOwnerID, ownerType, results).
      atom (associationMutationResponse pkt ''DeleteAssociations'' ''deleteRequests'' p assocType ownerID
        responseOwnerID ownerType results)))"

definition submit_periods_steps :: "string \<Rightarrow> float64 \<Rightarrow> int \<Rightarrow> int list \<Rightarrow> (server_state, unit) prog" where
  "submit_periods_steps key v persona periods =
     pfold (\<lambda>periodID _. on_store_steps (UpdateStats_steps persona [(key, v)] periodID)) periods ()"

definition submit_stat_steps :: "params \<Rightarrow> int \<Rightarrow> nat \<Rightarrow> nat \<Rightarrow> int \<Rightarrow> (server_state, int) prog" where
  "submit_stat_steps p persona oi si persisted =
     (let pre = indexed (indexed ''u'' oi @ ''.s'') si; key = mget p (pre @ ''.k'') in
      if key = [] then pret persisted
      else
        let v = atof (mget p (pre @ ''.v''));
            parsed = parsePeriods (mget p (pre @ ''.pt''));
            periods = (if parsed = [] then [0] else parsed) in
        if persona \<noteq> 0 then pbind (submit_periods_steps key v persona periods) (\<lambda>_. pret (i64 (persisted + 1)))
        else pret persisted)"

definition submit_owner_steps :: "params \<Rightarrow> int \<Rightarrow> nat \<Rightarrow> int \<Rightarrow> (server_state, int) prog" where
  "submit_owner_steps p persona oi persisted =
     pfold (submit_stat_steps p persona oi) [0..<nat (atoi (mget p (indexed ''u'' oi @ ''.s.[]'')))] persisted"

definition handleUpdateStats_steps :: handler_steps where
  "handleUpdateStats_steps cfg pkt =
     (let p = ParamsMap (Params pkt); ownerCount = atoi (mget p ''u.[]'') in
      pbind (atom (gget (\<lambda>s. personaID (sess s)))) (\<lambda>persona.
      pbind (pfold (submit_owner_steps p persona) [0..<nat ownerCount] 0) (\<lambda>persisted.
      atom (reply ''rank'' pkt (kvs [''TXN'', withDefault (mget p ''TXN'') ''UpdateStats''])))))"

definition writing_handlers :: "(string \<times> handler_steps) list" where
  "writing_handlers = [
     (''NuLogin'', handleNuLogin_steps),
     (''Login'', handleNuLogin_steps),
     (''NuAddAccount'', handleNuAddAccount_steps),
     (''NuLoginPersona'', handleNuLoginPersona_steps),
     (''NuAddPersona'', handleNuAddPersona_steps),
     (''AddAssociations'', handleAddAssociations_steps),
     (''DeleteAssociations'', handleDeleteAssociations_steps),
     (''UpdateStats'', handleUpdateStats_steps),
     (''SubmitStats'', handleUpdateStats_steps)]"

definition dispatch_steps :: handler_steps where
  "dispatch_steps cfg pkt = (case map_of writing_handlers (packet_txn pkt) of
      None \<Rightarrow> atom (dispatch cfg pkt)
    | Some h \<Rightarrow> h cfg pkt)"

subsection \<open>Run alone, they are the handlers\<close>

lemma solo_case_pair [solo_run]: "solo (case x of (a, b) \<Rightarrow> f a b) = (case x of (a, b) \<Rightarrow> solo (f a b))"
  by (simp split: prod.split)

lemma solo_associations:
  "solo (handleAddAssociations_steps cfg pkt) = handleAddAssociations cfg pkt"
  "solo (handleDeleteAssociations_steps cfg pkt) = handleDeleteAssociations cfg pkt"
proof -
  have valid: "solo (validateAssociationRequest_steps req b) = validateAssociationRequest req b" for req b
    unfolding validateAssociationRequest_steps_def validateAssociationRequest_def Let_def by (simp only: solo_run)
  have "solo (add_request_steps p t i acc) = add_request p t i acc" "solo (delete_request_steps p t i acc) = delete_request p t i acc"
    for p t i acc
    unfolding add_request_steps_def add_request_def delete_request_steps_def delete_request_def Let_def
    by (cases acc; simp only: prod.case solo_run valid)+
  then show "solo (handleAddAssociations_steps cfg pkt) = handleAddAssociations cfg pkt"
    "solo (handleDeleteAssociations_steps cfg pkt) = handleDeleteAssociations cfg pkt"
    by (simp_all add: handleAddAssociations_steps_def handleAddAssociations_def handleDeleteAssociations_steps_def
        handleDeleteAssociations_def solo_run Let_def)
qed

lemma solo_UpdateStats: "solo (handleUpdateStats_steps cfg pkt) = handleUpdateStats cfg pkt"
proof -
  have "solo (submit_stat_steps p persona oi si n) = submit_stat p persona oi si n" for p persona oi si n
    by (simp add: submit_stat_steps_def submit_stat_def submit_periods_steps_def submit_periods_def solo_run steps_solo Let_def)
  then have "solo (submit_owner_steps p persona oi n) = submit_owner p persona oi n" for p persona oi n
    by (simp add: submit_owner_steps_def submit_owner_def solo_run)
  then show ?thesis by (simp add: handleUpdateStats_steps_def handleUpdateStats_def solo_run Let_def)
qed

lemma solo_accounts:
  "solo (handleNuLogin_steps cfg pkt) = handleNuLogin cfg pkt" "solo (handleNuAddAccount_steps cfg pkt) = handleNuAddAccount cfg pkt"
  "solo (handleNuLoginPersona_steps cfg pkt) = handleNuLoginPersona cfg pkt"
  "solo (handleNuAddPersona_steps cfg pkt) = handleNuAddPersona cfg pkt"
  by (simp_all add: handleNuLogin_steps_def handleNuLogin_def handleNuAddAccount_steps_def handleNuAddAccount_def
      handleNuLoginPersona_steps_def handleNuLoginPersona_def personaResponse_def handleNuAddPersona_steps_def
      handleNuAddPersona_def solo_run steps_solo Let_def cong: if_cong option.case_cong)

lemma solo_dispatch: "solo (dispatch_steps cfg pkt) = dispatch cfg pkt"
proof (cases "map_of writing_handlers (packet_txn pkt)")
  case None
  then show ?thesis by (simp add: dispatch_steps_def solo_run)
next
  case (Some h)
  then have "(packet_txn pkt, h) \<in> set writing_handlers" by (rule map_of_SomeD)
  then have "\<exists>h'. map_of handlers (packet_txn pkt) = Some h' \<and> solo (h cfg pkt) = h' cfg pkt"
    unfolding writing_handlers_def
    by (auto simp: handlers_def solo_accounts solo_associations solo_UpdateStats)
  with Some show ?thesis by (auto simp: dispatch_steps_def dispatch_def)
qed

lemma writing_handlers_None: "map_of writing_handlers t = None \<longleftrightarrow> t \<notin> set writers"
  by (auto simp: writing_handlers_def writers_def)

subsection \<open>The handlers under interference\<close>

text \<open>
  What others do to a session's state (\<open>beside\<close>: they move the database and leave the session alone), and
  what a handler does to it as seen by others (\<open>shared\<close>).
\<close>

definition beside :: "(world \<Rightarrow> world \<Rightarrow> bool) \<Rightarrow> server_state \<Rightarrow> server_state \<Rightarrow> bool" where
  "beside R s s' \<longleftrightarrow> R (db s) (db s') \<and> sess s' = sess s"

definition shared :: "(world \<Rightarrow> world \<Rightarrow> bool) \<Rightarrow> server_state \<Rightarrow> server_state \<Rightarrow> bool" where
  "shared R s s' \<longleftrightarrow> R (db s) (db s')"

lemma rgg_on_store:
  "rgg R G p (\<lambda>r w. Q r (s\<lparr>db := w\<rparr>)) (db s) \<Longrightarrow> rgg (beside R) (shared G) (on_store_steps p) Q s"
proof (induction p arbitrary: s)
  case (Stmt g)
  show ?case unfolding on_store_steps.simps rgg.simps
  proof (intro allI impI)
    fix s1 :: server_state
    assume r: "beside R s s1"
    obtain p w where g: "g (db s1) = (p, w)" by force
    have s1: "s1\<lparr>db := w\<rparr> = s\<lparr>db := w\<rparr>" using r by (cases s; cases s1) (simp add: beside_def)
    have "G (db s1) w \<and> rgg R G p (\<lambda>r w. Q r (s\<lparr>db := w\<rparr>)) w"
      using Stmt.prems r g by (auto simp: beside_def)
    moreover have "p \<in> Basic_BNFs.fsts (p, w)" by (simp add: prod_set_simps)
    moreover have "(p, w) \<in> range g" using g rangeI [of g "db s1"] by simp
    ultimately have "rgg (beside R) (shared G) (on_store_steps p) Q (s\<lparr>db := w\<rparr>)"
      using Stmt.IH [of "(p, w)" p "s\<lparr>db := w\<rparr>"] by simp
    with g s1 \<open>G (db s1) w \<and> _\<close> show "case (map_prod (rgg (beside R) (shared G)) id \<circ>
        (\<lambda>s. case (map_prod on_store_steps id \<circ> g) (db s) of (p, w) \<Rightarrow> (p, s\<lparr>db := w\<rparr>))) s1 of
        (k, s') \<Rightarrow> shared G s1 s' \<and> k Q s'"
      by (simp add: shared_def)
  qed
qed simp

lemma rgg_thread:
  "rgg (beside R) (shared G) p Q s \<Longrightarrow>
   rgg R G (thread p (sess s)) (\<lambda>r w. \<exists>x ss. r = Ret (x, ss) \<and> Q x \<lparr>db = w, sess = ss\<rparr>) (db s)"
proof (induction p arbitrary: s)
  case (Stmt g)
  show ?case unfolding thread.simps rgg.simps
  proof (intro allI impI)
    fix w
    assume r: "R (db s) w"
    obtain p s1 where g: "g \<lparr>db = w, sess = sess s\<rparr> = (p, s1)" by force
    have b: "beside R s \<lparr>db = w, sess = sess s\<rparr>" using r by (simp add: beside_def)
    have "G w (db s1) \<and> rgg (beside R) (shared G) p Q s1"
      using Stmt.prems [unfolded rgg.simps, rule_format, OF b] g by (simp add: shared_def [of G "\<lparr>db = w, sess = sess s\<rparr>"])
    moreover have "p \<in> Basic_BNFs.fsts (p, s1)" by (simp add: prod_set_simps)
    moreover have "(p, s1) \<in> range g" using g rangeI [of g "\<lparr>db = w, sess = sess s\<rparr>"] by simp
    ultimately have "rgg R G (thread p (sess s1)) (\<lambda>r w. \<exists>x ss. r = Ret (x, ss) \<and> Q x \<lparr>db = w, sess = ss\<rparr>) (db s1)"
      using Stmt.IH [of "(p, s1)" p s1] by simp
    with g \<open>G w (db s1) \<and> _\<close> show "case (map_prod (rgg R G) id \<circ>
        (\<lambda>w. case (map_prod thread id \<circ> g) \<lparr>db = w, sess = sess s\<rparr> of (k, s) \<Rightarrow> (k (sess s), db s))) w of
        (k, w') \<Rightarrow> G w w' \<and> k (\<lambda>r w. \<exists>x ss. r = Ret (x, ss) \<and> Q x \<lparr>db = w, sess = ss\<rparr>) w'"
      by simp
  qed
next
  case (Done r)
  then have "Q r \<lparr>db = db s, sess = sess s\<rparr>" by (cases s) simp
  then show ?case by simp
qed

subsection \<open>The invariant of a session\<close>

abbreviation wtriple where "wtriple \<equiv> ptriple grows grows"
abbreviation striple where "striple \<equiv> ptriple (beside grows) (shared grows)"

lemma db_ok_grows: "db_ok A P w \<Longrightarrow> grows w w' \<Longrightarrow> db_ok A P w'"
  using grows_ids [of w w'] by (auto simp: db_ok_def grows_def)

lemma wtriple_atom:
  assumes "triple (db_ok A P) m Q E" "\<And>w. grows w (snd (m w))"
  shows "wtriple (db_ok A P) (atom m) Q E"
  using assms by (intro ptriple_atom) (auto intro: db_ok_grows)

lemma db_ok_frame:
  assumes "rg grows p R w" "db_ok A P w"
  shows "rg grows p (\<lambda>r w. R r w \<and> db_ok A P w) w"
  using assms by (rule rgg_frame [where I = "db_ok A P", rotated 2]) (blast intro: db_ok_grows)+

lemma wtriple_keeps:
  assumes "\<And>w. db_ok A P w \<Longrightarrow> rg grows p R w"
  shows "wtriple (db_ok A P) p (\<lambda>x. db_ok A P) (db_ok A P)"
  unfolding ptriple_def
proof (intro allI impI)
  fix w
  assume w: "db_ok A P w"
  from db_ok_frame [OF assms [OF w] w] show "rg grows p (ends_as (\<lambda>x. db_ok A P) (db_ok A P)) w"
    by (rule rgg_conseq) (auto simp: ends_as_def split: outcome.split)
qed

lemma wtriple_quiet:
  assumes "\<And>r. triple (db_ok (A \<union> B) P) m (\<lambda>_. db_ok (A \<union> B) P) (db_ok (A \<union> B) P)" "\<And>w. grows w (snd (m w))"
  shows "wtriple (db_ok (A \<union> B) P) (atom m) (\<lambda>_. db_ok (A \<union> B) P) (db_ok A P)"
  by (rule ptriple_conseq [OF wtriple_atom [OF assms]]) (auto simp: db_ok_def)

lemma wtriple_ValidateAccount: "wtriple (db_ok A P) (ValidateAccount_steps nuid pw) (account_seen A P) (db_ok A P)"
proof -
  have get: "wtriple (db_ok A P) (atom (GetAccountByNUID nuid)) (account_seen A P) (db_ok A P)"
    by (intro wtriple_atom triple_GetAccountByNUID) simp
  have salt: "wtriple (db_ok A P) (atom (draw 16)) (\<lambda>_. db_ok A P) (db_ok A P)"
    using keeps_draw [OF db_ok_invariant, of A P 16] by (intro wtriple_atom) (simp_all add: keeps_triple)
  have update: "wtriple (db_ok A P) (atom (exec_sql (update_password aid h))) (\<lambda>_. db_ok A P) (db_ok A P)" for aid h
  proof (rule wtriple_atom)
    show "triple (db_ok A P) (exec_sql (update_password aid h)) (\<lambda>_. db_ok A P) (db_ok A P)"
      unfolding keeps_triple [symmetric]
      by (intro keeps_exec_sql keeps_intro) (simp add: db_ok_def tables_ok_update_password)
  qed (simp add: grows_exec)
  have upgrade: "wtriple (db_ok A P) (pbind (atom (draw 16)) (\<lambda>salt.
      pbind (atom (exec_sql (update_password aid (hashPassword salt pw)))) (\<lambda>_. atom (GetAccountByNUID nuid))))
      (account_seen A P) (db_ok A P)" for aid
    by (intro ptriple_pbind [OF salt] ptriple_pbind [OF update] get)
  show ?thesis unfolding ValidateAccount_steps_def
    by (intro ptriple_pbind [OF get] ptriple_case_option ptriple_if ptriple_Done
        ptriple_conseq [OF upgrade]) (auto dest: account_seen_db)
qed

lemma wtriple_AccountByLoginToken: "wtriple (db_ok A P) (AccountByLoginToken_steps token) (account_seen A P) (db_ok A P)"
proof -
  have found: "wtriple (db_ok A P) (atom (query (token_account token))) (account_seen A P) (db_ok A P)"
    by (intro wtriple_atom triple_conseq [OF triple_query [OF db_ok_invariant]])
       (auto simp: account_seen_def db_ok_def account_ids_def token_account_def query_row_def
          split: option.splits dest: find_SomeD)
  have touch: "wtriple (account_seen A P r) (atom (exec_sql (touch_token token))) (\<lambda>_. account_seen A P r) (db_ok A P)" for r
    unfolding account_seen_def
  proof (rule wtriple_quiet)
    show "triple (db_ok (A \<union> B) P) (exec_sql (touch_token token)) (\<lambda>_. db_ok (A \<union> B) P) (db_ok (A \<union> B) P)" for B
      unfolding keeps_triple [symmetric]
      by (intro keeps_exec_sql keeps_intro) (simp add: db_ok_def tables_ok_touch_token)
  qed (simp add: grows_exec)
  show ?thesis unfolding AccountByLoginToken_steps_def
    by (intro ptriple_if ptriple_Done ptriple_pbind [OF found] ptriple_case_option ptriple_pbind [OF touch])
       (auto simp: account_seen_db)
qed

lemma wtriple_GetOrCreatePersona:
  assumes "aid \<in> A"
  shows "wtriple (db_ok A P) (GetOrCreatePersona_steps aid name) (\<lambda>p. db_ok A (P \<union> {per_ID p})) (db_ok A P)"
  unfolding ptriple_def
proof (intro allI impI)
  fix w
  assume w: "db_ok A P w"
  have "rg grows (GetOrCreatePersona_steps aid name) (\<lambda>r w. claimed aid name r w \<and> db_ok A P w) w"
    using w assms by (intro db_ok_frame rg_GetOrCreatePersona) (auto simp: db_ok_def)
  then show "rg grows (GetOrCreatePersona_steps aid name) (ends_as (\<lambda>p. db_ok A (P \<union> {per_ID p})) (db_ok A P)) w"
  proof (rule rgg_conseq)
    fix r v
    assume c: "claimed aid name r v \<and> db_ok A P v"
    have "per_ID p \<in> persona_ids v" if "persona_of aid name p v" for p
      using that unfolding persona_of_def persona_ids_def by (metis image_eqI)
    with c show "ends_as (\<lambda>p. db_ok A (P \<union> {per_ID p})) (db_ok A P) r v"
      by (cases r) (auto simp: claimed_def db_ok_def)
  qed
qed

lemma wtriple_writes:
  "wtriple (db_ok A P) (CreateAccount_steps nuid pw) (\<lambda>_. db_ok A P) (db_ok A P)"
  "aid \<in> A \<Longrightarrow> wtriple (db_ok A P) (IssueLoginToken_steps aid) (\<lambda>_. db_ok A P) (db_ok A P)"
  "pid \<in> P \<Longrightarrow> wtriple (db_ok A P) (UpdateStats_steps pid vs period) (\<lambda>_. db_ok A P) (db_ok A P)"
  "pid \<in> P \<Longrightarrow> fid \<in> P \<Longrightarrow> wtriple (db_ok A P) (atom (AddAssociation pid fid t)) (\<lambda>_. db_ok A P) (db_ok A P)"
  "wtriple (db_ok A P) (atom (DeleteAssociation pid fid t)) (\<lambda>_. db_ok A P) (db_ok A P)"
proof -
  show "wtriple (db_ok A P) (CreateAccount_steps nuid pw) (\<lambda>_. db_ok A P) (db_ok A P)"
    by (rule wtriple_keeps) (rule rg_CreateAccount)
  show "aid \<in> A \<Longrightarrow> wtriple (db_ok A P) (IssueLoginToken_steps aid) (\<lambda>_. db_ok A P) (db_ok A P)"
    by (rule wtriple_keeps) (rule rg_accounts(3), auto simp: db_ok_def)
  show "pid \<in> P \<Longrightarrow> wtriple (db_ok A P) (UpdateStats_steps pid vs period) (\<lambda>_. db_ok A P) (db_ok A P)"
    by (rule wtriple_keeps) (rule rg_UpdateStats, auto simp: db_ok_def)
  show "wtriple (db_ok A P) (atom (AddAssociation pid fid t)) (\<lambda>_. db_ok A P) (db_ok A P)" if "pid \<in> P" "fid \<in> P"
  proof (rule ptriple_atom)
    show "triple (db_ok A P) (AddAssociation pid fid t) (\<lambda>_. db_ok A P) (db_ok A P)"
      using keeps_AddAssociation [OF that] by (simp add: keeps_triple)
    show "grows s (snd (AddAssociation pid fid t s))" if "db_ok A P s" for s
      using that \<open>pid \<in> P\<close> \<open>fid \<in> P\<close> by (intro grows_associations) (auto simp: db_ok_def)
  qed (rule db_ok_grows)
  show "wtriple (db_ok A P) (atom (DeleteAssociation pid fid t)) (\<lambda>_. db_ok A P) (db_ok A P)"
    by (intro wtriple_atom) (simp_all add: keeps_triple [symmetric] keeps_DeleteAssociation grows_associations)
qed

text \<open>A step of a handler that leaves every row alone, and a call of the store.\<close>

abbreviation rows_stay where "rows_stay R \<equiv> \<lambda>s. rows_of (db s) = R"

lemma rows_on_store [keeps_intro]: "keeps (rows_are R) m \<Longrightarrow> keeps (rows_stay R) (on_store m)"
  by (auto simp: keeps_def on_store_def split: prod.splits)

lemma rows_randomHex [keeps_intro]: "keeps (rows_stay R) (randomHex n)"
  unfolding randomHex_def by (intro keeps_intro)

lemma rows_session [keeps_intro]: "keeps (rows_stay R) (gmodify (\<lambda>s. s\<lparr>sess := f s\<rparr>))"
  by (rule keeps_gmodify) simp

lemma grows_rows: "rows_of w' = rows_of w \<Longrightarrow> grows w w'"
  by (simp add: grows_def rows_of_def identities_def player_keys_def tables_ok_defs)

lemma session_with_beside: "session_with A P s \<Longrightarrow> beside grows s s' \<Longrightarrow> session_with A P s'"
  by (auto simp: session_with_def beside_def intro: db_ok_grows)

lemma striple_local:
  assumes "triple (session_with A P) m Q E" "\<And>R. keeps (rows_stay R) m"
  shows "striple (session_with A P) (atom m) Q E"
proof (rule ptriple_atom [OF assms(1)])
  fix s
  have "rows_of (db (snd (m s))) = rows_of (db s)" using assms(2) [of "rows_of (db s)"] by (simp add: keeps_def)
  then show "shared grows s (snd (m s))" by (simp add: shared_def grows_rows)
qed (rule session_with_beside)

lemma striple_with:
  assumes "keeps (session_with A' P') m" "\<And>R. keeps (rows_stay R) m" "A \<subseteq> A'" "P \<subseteq> P'"
  shows "striple (session_with A' P') (atom m) (\<lambda>_. session_with A P) (session_with A P)"
  by (rule striple_local [OF triple_with [OF assms(1,3,4)] assms(2)])

lemma striple_store:
  assumes "\<And>A' P'. A \<subseteq> A' \<Longrightarrow> P \<subseteq> P' \<Longrightarrow> wtriple (db_ok A' P') p (\<lambda>x. db_ok (A' \<union> fA x) (P' \<union> fP x)) (db_ok A' P')"
  shows "striple (session_with A P) (on_store_steps p) (\<lambda>x. session_with (A \<union> fA x) (P \<union> fP x)) (session_with A P)"
  unfolding ptriple_def
proof (intro allI impI rgg_on_store)
  fix s :: server_state
  let ?A = "A \<union> held (accountID (sess s))" and ?P = "P \<union> held (personaID (sess s))"
  assume "session_with A P s"
  then have "db_ok ?A ?P (db s)" by (simp add: session_with_def)
  from ptripleD [OF assms [of ?A ?P] this]
  have "rg grows p (ends_as (\<lambda>x. db_ok (?A \<union> fA x) (?P \<union> fP x)) (db_ok ?A ?P)) (db s)" by simp
  then show "rg grows p (\<lambda>r w. ends_as (\<lambda>x. session_with (A \<union> fA x) (P \<union> fP x)) (session_with A P) r (s\<lparr>db := w\<rparr>)) (db s)"
    by (rule rgg_conseq) (auto simp: ends_as_def session_with_def Un_ac split: outcome.splits)
qed

lemma striple_store_keeps:
  assumes "\<And>A' P'. A \<subseteq> A' \<Longrightarrow> P \<subseteq> P' \<Longrightarrow> wtriple (db_ok A' P') p (\<lambda>x. db_ok A' P') (db_ok A' P')" "A0 \<subseteq> A" "P0 \<subseteq> P"
  shows "striple (session_with A P) (on_store_steps p) (\<lambda>_. session_with A P) (session_with A0 P0)"
  by (rule ptriple_conseq [OF striple_store [where fA = "\<lambda>_. {}" and fP = "\<lambda>_. {}" and A = A and P = P]])
     (use assms in \<open>auto intro: session_with_mono\<close>)

lemma striple_reply:
  assumes "A \<subseteq> A'" "P \<subseteq> P'"
  shows "striple (session_with A' P') (atom (reply t pkt ps)) (\<lambda>_. session_with A P) (session_with A P)"
  by (intro striple_with keeps_reply assms)

subsection \<open>Every handler keeps it\<close>

lemma rows_responses [keeps_intro]:
  "keeps (rows_stay R) (loginResponse pkt a info)" "keeps (rows_stay R) (personaResponse pkt account p)"
  unfolding loginResponse_def personaResponse_def by (intro keeps_intro)+

lemma striple_account_store:
  assumes "\<And>A P. wtriple (db_ok A P) p (account_seen A P) (db_ok A P)"
  shows "striple (session_with A P) (on_store_steps p) (\<lambda>r. session_with (A \<union> seen_account r) P) (session_with A P)"
  using striple_store [of A P p seen_account "\<lambda>_. {}"] assms
  by (simp add: account_seen_def [abs_def] seen_account_def [abs_def])

lemma handleNuLogin_steps_ok: "striple (session_with A P) (handleNuLogin_steps cfg pkt) (\<lambda>_. session_with A P) (session_with A P)"
proof -
  have issue: "striple (session_with A' P) (if b then on_store_steps (IssueLoginToken_steps aid) else pret [])
      (\<lambda>_. session_with A' P) (session_with A P)" if "aid \<in> A'" "A \<subseteq> A'" for A' aid b
    using that by (intro ptriple_if striple_store_keeps wtriple_writes(2) ptriple_Done) auto
  have login: "striple (session_with (A \<union> seen_account r) P) (atom (loginResponse pkt a info)) (\<lambda>_. session_with A P) (session_with A P)"
    if "r = Some a" for r a info
    using that by (intro striple_with loginResponse_ok rows_responses) (auto simp: seen_account_def)
  have issued: "striple (session_with (A \<union> seen_account r) P)
      (pbind (if b then on_store_steps (IssueLoginToken_steps (acc_ID a)) else pret []) (\<lambda>info. atom (loginResponse pkt a info)))
      (\<lambda>_. session_with A P) (session_with A P)" if "r = Some a" for r a b
    using that by (intro ptriple_pbind [OF issue] login) (auto simp: seen_account_def)
  show ?thesis unfolding handleNuLogin_steps_def Let_def
    by (intro ptriple_if ptriple_pbind [OF striple_account_store] ptriple_case_option login issued striple_reply
        wtriple_AccountByLoginToken wtriple_ValidateAccount) auto
qed

lemma handleNuAddAccount_steps_ok:
  "striple (session_with A P) (handleNuAddAccount_steps cfg pkt) (\<lambda>_. session_with A P) (session_with A P)"
  unfolding handleNuAddAccount_steps_def Let_def
  by (intro ptriple_if striple_reply ptriple_ptry [OF striple_store_keeps] wtriple_writes(1) ptriple_case_option ptriple_Done) auto

lemma striple_persona_store:
  assumes "account \<noteq> 0"
  shows "striple (session_with (A \<union> held account) P) (on_store_steps (GetOrCreatePersona_steps account name))
    (\<lambda>p. session_with (A \<union> held account) (P \<union> {per_ID p})) (session_with A P)"
proof (rule ptriple_conseq)
  show "striple (session_with (A \<union> held account) P) (on_store_steps (GetOrCreatePersona_steps account name))
      (\<lambda>p. session_with (A \<union> held account \<union> {}) (P \<union> {per_ID p})) (session_with (A \<union> held account) P)"
    using wtriple_GetOrCreatePersona [of account] assms by (intro striple_store) (auto simp: held_def)
qed (auto intro: session_with_mono)

lemma personaResponse_ok: "per_ID p \<in> P \<Longrightarrow> keeps (session_with A P) (personaResponse pkt account p)"
  unfolding personaResponse_def by (intro keeps_intro keeps_set_persona)

lemma striple_account:
  "striple (session_with A P) (atom (gget (\<lambda>s. accountID (sess s)))) (\<lambda>x. session_with (A \<union> held x) P) (session_with A P)"
  by (intro striple_local triple_account keeps_intro)

lemma handleNuPersona_steps_ok:
  "striple (session_with A P) (handleNuLoginPersona_steps cfg pkt) (\<lambda>_. session_with A P) (session_with A P)"
  "striple (session_with A P) (handleNuAddPersona_steps cfg pkt) (\<lambda>_. session_with A P) (session_with A P)"
  unfolding handleNuLoginPersona_steps_def handleNuAddPersona_steps_def Let_def
  by (intro ptriple_pbind [OF striple_account] ptriple_if striple_reply ptriple_ptry [OF striple_persona_store]
      striple_with personaResponse_ok rows_responses ptriple_Done; auto)+

text \<open>The friend lists: a request that was found acceptable stays so, because no persona is ever removed.\<close>

lemma striple_exists:
  "striple (session_with A P) (on_store_steps (atom (PersonaExists pid)))
     (\<lambda>b. session_with A (P \<union> (if b then {pid} else {}))) (session_with A P)"
proof -
  have "striple (session_with A P) (on_store_steps (atom (PersonaExists pid)))
      (\<lambda>b. session_with (A \<union> {}) (P \<union> (if b then {pid} else {}))) (session_with A P)"
  proof (rule striple_store)
    show "wtriple (db_ok A' P') (atom (PersonaExists pid)) (\<lambda>b. db_ok (A' \<union> {}) (P' \<union> (if b then {pid} else {}))) (db_ok A' P')"
      for A' P'
      using triple_PersonaExists by (intro wtriple_atom) (simp_all add: PersonaExists_def grows_query)
  qed
  then show ?thesis by simp
qed

lemma striple_validate:
  "striple (session_with A P) (validateAssociationRequest_steps req rs)
     (\<lambda>r. session_with A (P \<union> request_personas req r)) (session_with A P)"
proof -
  let ?Q = "\<lambda>r. session_with A (P \<union> request_personas req r)" and ?I = "session_with A P"
  have refused: "striple (session_with A P') (pret (associationOutcomeRefused, reason)) ?Q ?I" if "P \<subseteq> P'" for P' reason
    using that by (intro ptriple_Done)
      (auto simp: request_personas_def associationOutcomeOK_def associationOutcomeRefused_def intro: session_with_mono)
  have ok: "striple (session_with A (P \<union> {ar_ownerID req} \<union> {ar_memberID req})) (pret (associationOutcomeOK, [])) ?Q ?I"
    by (intro ptriple_Done) (simp add: request_personas_def Un_ac insert_commute)
  have member: "striple (session_with A (P \<union> {ar_ownerID req})) (on_store_steps (atom (PersonaExists (ar_memberID req))))
      (\<lambda>b. session_with A (P \<union> {ar_ownerID req} \<union> (if b then {ar_memberID req} else {}))) ?I"
    by (rule ptriple_conseq [OF striple_exists [of A "P \<union> {ar_ownerID req}"]]) (assumption+, erule session_with_mono, auto)
  have last: "striple (session_with A (P \<union> {ar_ownerID req} \<union> (if b then {ar_memberID req} else {})))
      (if \<not> b then pret (associationOutcomeRefused, reason) else pret (associationOutcomeOK, [])) ?Q ?I" for b reason
    using ok refused [of "P \<union> {ar_ownerID req}"] by (cases b) auto
  have second: "striple (session_with A (P \<union> (if b then {ar_ownerID req} else {})))
      (if \<not> b then pret (associationOutcomeRefused, reason)
       else pbind (on_store_steps (atom (PersonaExists (ar_memberID req)))) (\<lambda>memberExists.
         if \<not> memberExists then pret (associationOutcomeRefused, reason') else pret (associationOutcomeOK, []))) ?Q ?I"
    for b reason reason'
  proof (cases b)
    case True
    with ptriple_pbind [OF member last] show ?thesis by simp
  qed (use refused [of P] in simp)
  have look: "striple ?I (atom (gget sess)) (\<lambda>_. ?I) ?I" by (intro striple_local triple_read keeps_intro)
  show ?thesis unfolding validateAssociationRequest_steps_def Let_def
    by (rule ptriple_pbind [OF look]) (intro ptriple_if refused subset_refl ptriple_pbind [OF striple_exists second])
qed

lemma rows_response [keeps_intro]:
  "keeps (rows_stay R) (associationMutationResponse pkt txn pre p t oid roid ot rs)"
  unfolding associationMutationResponse_def emitAssociationResult_def Let_def
  by (intro keeps_intro; auto intro!: keeps_intro split: prod.splits)

lemma striple_request:
  assumes "\<And>req r. fst r = associationOutcomeOK \<Longrightarrow> striple (session_with A (P \<union> request_personas req r)) (write req)
      (\<lambda>_. session_with A P) (session_with A P)"
  shows "striple (session_with A P)
    (pbind (atom (gget sess)) (\<lambda>s.
     let req = parse s in
     pbind (validateAssociationRequest_steps req self) (\<lambda>(outcome, reason).
     pbind (if outcome = associationOutcomeOK then write req else pret ()) (\<lambda>_.
     pret (answer req outcome))))) (\<lambda>_. session_with A P) (session_with A P)"
proof -
  have look: "striple (session_with A P) (atom (gget sess)) (\<lambda>_. session_with A P) (session_with A P)"
    by (intro striple_local triple_read keeps_intro)
  have act: "striple (session_with A (P \<union> request_personas req (outcome, reason)))
      (if outcome = associationOutcomeOK then write req else pret ()) (\<lambda>_. session_with A P) (session_with A P)"
    for req outcome reason
    using assms [of "(outcome, reason)" req] by (intro ptriple_if ptriple_Done) (auto intro: session_with_mono)
  show ?thesis unfolding Let_def
    by (intro ptriple_pbind [OF look] ptriple_pbind [OF striple_validate]) (auto intro!: ptriple_pbind [OF act] ptriple_Done)
qed

lemma association_requests_ok:
  "striple (session_with A P) (add_request_steps p t i acc) (\<lambda>_. session_with A P) (session_with A P)"
  "striple (session_with A P) (delete_request_steps p t i acc) (\<lambda>_. session_with A P) (session_with A P)"
proof -
  have add: "striple (session_with A (P \<union> request_personas req r))
      (pbind (on_store_steps (atom (AddAssociation (ar_ownerID req) (ar_memberID req) t))) (\<lambda>_. pret ()))
      (\<lambda>_. session_with A P) (session_with A P)" if "fst r = associationOutcomeOK" for req r
    using that
    by (intro ptriple_pbind [OF striple_store_keeps] wtriple_writes(4) ptriple_Done)
       (auto simp: request_personas_def intro: session_with_mono)
  have delete: "striple (session_with A (P \<union> request_personas req r))
      (on_store_steps (atom (DeleteAssociation (ar_ownerID req) (ar_memberID req) t))) (\<lambda>_. session_with A P) (session_with A P)"
    for req r
    by (rule ptriple_conseq [OF striple_store_keeps [OF wtriple_writes(5), of A A P P]]) (auto intro: session_with_mono)
  show "striple (session_with A P) (add_request_steps p t i acc) (\<lambda>_. session_with A P) (session_with A P)"
    unfolding add_request_steps_def by (cases acc; simp only: prod.case) (rule striple_request [OF add])
  show "striple (session_with A P) (delete_request_steps p t i acc) (\<lambda>_. session_with A P) (session_with A P)"
    unfolding delete_request_steps_def by (cases acc; simp only: prod.case) (rule striple_request [OF delete])
qed

lemma handleAssociations_steps_ok:
  "striple (session_with A P) (handleAddAssociations_steps cfg pkt) (\<lambda>_. session_with A P) (session_with A P)"
  "striple (session_with A P) (handleDeleteAssociations_steps cfg pkt) (\<lambda>_. session_with A P) (session_with A P)"
  unfolding handleAddAssociations_steps_def handleDeleteAssociations_steps_def Let_def
  by (rule ptriple_pbind [OF ptriple_pfold], rule association_requests_ok,
      auto intro!: striple_with keeps_associationMutationResponse rows_response split: prod.split)+

lemma handleUpdateStats_steps_ok:
  "striple (session_with A P) (handleUpdateStats_steps cfg pkt) (\<lambda>_. session_with A P) (session_with A P)"
proof -
  have persona: "striple (session_with A P) (atom (gget (\<lambda>s. personaID (sess s)))) (\<lambda>x. session_with A (P \<union> held x)) (session_with A P)"
    by (intro striple_local triple_persona keeps_intro)
  have submit: "striple (session_with A P') (submit_stat_steps p pid oi si n) (\<lambda>_. session_with A P') (session_with A P')"
    if "held pid \<subseteq> P'" for P' p pid oi si n
    using that unfolding submit_stat_steps_def submit_periods_steps_def Let_def
    by (intro ptriple_if ptriple_Done ptriple_pbind [OF ptriple_pfold] striple_store_keeps wtriple_writes(3))
       (auto simp: held_def)
  have owners: "striple (session_with A (P \<union> held pid)) (pfold (submit_owner_steps p pid) ois n)
      (\<lambda>_. session_with A (P \<union> held pid)) (session_with A P)" for p pid ois n
  proof (rule ptriple_conseq [OF ptriple_pfold])
    show "striple (session_with A (P \<union> held pid)) (submit_owner_steps p pid oi n) (\<lambda>_. session_with A (P \<union> held pid))
        (session_with A (P \<union> held pid))" for oi n
      unfolding submit_owner_steps_def by (intro ptriple_pfold submit) simp
  qed (auto intro: session_with_mono)
  show ?thesis unfolding handleUpdateStats_steps_def Let_def
    by (intro ptriple_pbind [OF persona] ptriple_pbind [OF owners] striple_reply) auto
qed

lemma dispatch_steps_ok:
  "striple (session_with A P) (dispatch_steps cfg pkt) (\<lambda>_. session_with A P) (session_with A P)"
proof (cases "map_of writing_handlers (packet_txn pkt)")
  case None
  have "keeps (rows_stay R) (dispatch cfg pkt)" for R
  proof (rule keepsI)
    fix s :: server_state
    assume "rows_stay R s"
    moreover have "keeps (untouched (db s) (sess s)) (dispatch cfg pkt)"
      using None writing_handlers_None by (intro dispatch_untouched) blast
    ultimately show "rows_stay R (snd (dispatch cfg pkt s))" by (simp add: keeps_def untouched_def)
  qed
  then show ?thesis using None dispatch_ok by (auto simp: dispatch_steps_def intro!: striple_with)
next
  case (Some h)
  then have "(packet_txn pkt, h) \<in> set writing_handlers" by (rule map_of_SomeD)
  then have "striple (session_with A P) (h cfg pkt) (\<lambda>_. session_with A P) (session_with A P)"
    unfolding writing_handlers_def
    by (auto intro: handleNuLogin_steps_ok handleNuAddAccount_steps_ok handleNuPersona_steps_ok handleAssociations_steps_ok
        handleUpdateStats_steps_ok)
  with Some show ?thesis by (simp add: dispatch_steps_def)
qed

end
