(* ===== verification/Parallel.thy ===== *)
theory Parallel
  imports Requests
begin

text \<open>
  The FESL server with all its connections at once: each works on one packet at a time, statement by
  statement, while the others do the same, imports run, and time passes. The step relation \<open>srv_step\<close>
  is the finest one of the development; \<open>sys_step\<close>, where a packet is handled in one go, is a part of it.
\<close>

subsection \<open>The stat rows of other players\<close>

definition same_others :: "int \<Rightarrow> world \<Rightarrow> world \<Rightarrow> bool" where
  "same_others P w w' \<longleftrightarrow> stats_of_others P w' = stats_of_others P w"

text \<open>Whatever the others do meanwhile, every statement of \<open>p\<close> is a step in \<open>guar\<close>.\<close>

definition guards :: "('s \<Rightarrow> 's \<Rightarrow> bool) \<Rightarrow> ('s \<Rightarrow> 's \<Rightarrow> bool) \<Rightarrow> ('s, 'a) prog \<Rightarrow> bool" where
  "guards rely guar p \<longleftrightarrow> ptriple rely guar (\<lambda>_. True) p (\<lambda>_ _. True) (\<lambda>_. True)"

named_theorems guards_intro "how a guarantee goes through a program"

lemma guards_atom: "(\<And>s. guar s (snd (m s))) \<Longrightarrow> guards rely guar (atom m)"
  unfolding guards_def by (rule ptriple_atom) (auto simp: triple_def split: prod.split outcome.split)

lemma guards_Done [guards_intro]: "guards rely guar (pret x)" "guards rely guar (pfail e)"
  unfolding guards_def by (simp_all add: ptriple_Done)

lemma guards_pbind [guards_intro]:
  "guards rely guar p \<Longrightarrow> (\<And>x. guards rely guar (f x)) \<Longrightarrow> guards rely guar (pbind p f)"
  unfolding guards_def by (rule ptriple_pbind)

lemma guards_ptry [guards_intro]:
  "guards rely guar p \<Longrightarrow> (\<And>e. guards rely guar (h e)) \<Longrightarrow> (\<And>x. guards rely guar (f x)) \<Longrightarrow> guards rely guar (ptry p h f)"
  unfolding guards_def by (rule ptriple_ptry)

lemma guards_control [guards_intro]:
  "(b \<Longrightarrow> guards rely guar p) \<Longrightarrow> (\<not> b \<Longrightarrow> guards rely guar q) \<Longrightarrow> guards rely guar (if b then p else q)"
  "guards rely guar p \<Longrightarrow> (\<And>x. guards rely guar (f x)) \<Longrightarrow> guards rely guar (case v of None \<Rightarrow> p | Some x \<Rightarrow> f x)"
  "(\<And>a b. guards rely guar (g a b)) \<Longrightarrow> guards rely guar (case v' of (a, b) \<Rightarrow> g a b)"
  by (auto split: option.split prod.split)

lemma guards_pfold [guards_intro]:
  "(\<And>x acc. guards rely guar (body x acc)) \<Longrightarrow> guards rely guar (pfold body xs acc)"
  unfolding guards_def by (rule ptriple_pfold)

abbreviation anything where "anything \<equiv> \<lambda>_ _. True"

lemma guards_store_atom [guards_intro]: "(\<And>L. keeps (others_are P L) m) \<Longrightarrow> guards anything (same_others P) (atom m)"
  by (rule guards_atom) (simp add: same_others_def others_are_def keeps_def)

lemma guards_session_atom [guards_intro]:
  "(\<And>L. keeps (others_stay P L) m) \<Longrightarrow> guards (beside anything) (shared (same_others P)) (atom m)"
  by (rule guards_atom) (simp add: shared_def same_others_def others_are_def keeps_def)

lemma guards_on_store [guards_intro]:
  "guards anything (same_others P) p \<Longrightarrow> guards (beside anything) (shared (same_others P)) (on_store_steps p)"
  unfolding guards_def ptriple_def
  by (intro allI impI rgg_on_store) (erule allE, erule impE, rule TrueI, erule rgg_conseq, auto simp: ends_as_def split: outcome.split)

lemma guards_accounts [guards_intro]:
  "guards anything (same_others P) (CreateAccount_steps nuid pw)" "guards anything (same_others P) (ValidateAccount_steps nuid pw)"
  "guards anything (same_others P) (IssueLoginToken_steps aid)" "guards anything (same_others P) (AccountByLoginToken_steps token)"
  "guards anything (same_others P) (GetOrCreatePersona_steps aid name)"
  unfolding CreateAccount_steps_def ValidateAccount_steps_def IssueLoginToken_steps_def AccountByLoginToken_steps_def
    GetOrCreatePersona_steps_def GetAccountByNUID_def RevokeLoginTokens_def insert_token_def
  by (intro guards_intro keeps_intro;
      (simp add: Let_def insert_account_def update_password_def touch_token_def insert_persona_def)?)+

lemma guards_imports [guards_intro]:
  "guards anything (same_others P) (AddHistoricalRun_steps sk name stretch key v period rid link upd)"
  "guards anything (same_others P) (LinkHistoricalAccount_steps sk pid)"
  "guards anything (same_others P) (atom (UnlinkHistoricalAccount sk))"
  unfolding AddHistoricalRun_steps_def LinkHistoricalAccount_steps_def UnlinkHistoricalAccount_def
  by (intro guards_intro keeps_intro; simp add: insert_player_def split: option.split)+

lemma guards_UpdateStats: "guards anything (same_others P) (UpdateStats_steps P vs period)"
  unfolding UpdateStats_steps_def
  by (rule guards_pfold) (auto split: prod.split intro!: guards_store_atom keeps_others_upsert)

lemma guards_submit: "guards (beside anything) (shared (same_others P)) (pfold (submit_owner_steps p P) ois n)"
  unfolding submit_owner_steps_def submit_stat_steps_def submit_periods_steps_def Let_def
  by (intro guards_intro guards_UpdateStats)

lemma others_responses [keeps_intro]:
  "keeps (others_stay P L) (loginResponse pkt a info)" "keeps (others_stay P L) (personaResponse pkt account p)"
  "keeps (others_stay P L) (associationMutationResponse pkt txn pre pm t oid roid ot rs')"
  unfolding loginResponse_def personaResponse_def associationMutationResponse_def
    emitAssociationResult_def Let_def
  by (intro keeps_intro; auto intro!: keeps_intro split: prod.splits)+

lemma guards_handlers:
  "guards (beside anything) (shared (same_others P)) (handleNuLogin_steps cfg pkt)"
  "guards (beside anything) (shared (same_others P)) (handleNuAddAccount_steps cfg pkt)"
  "guards (beside anything) (shared (same_others P)) (handleNuLoginPersona_steps cfg pkt)"
  "guards (beside anything) (shared (same_others P)) (handleNuAddPersona_steps cfg pkt)"
  "guards (beside anything) (shared (same_others P)) (handleAddAssociations_steps cfg pkt)"
  "guards (beside anything) (shared (same_others P)) (handleDeleteAssociations_steps cfg pkt)"
  unfolding handleNuLogin_steps_def handleNuAddAccount_steps_def handleNuLoginPersona_steps_def handleNuAddPersona_steps_def
    handleAddAssociations_steps_def handleDeleteAssociations_steps_def add_request_steps_def delete_request_steps_def
    validateAssociationRequest_steps_def Let_def
  by (intro guards_intro keeps_intro)+

text \<open>From a session that plays \<open>P\<close>, the statements of any packet change stat rows of \<open>P\<close> only.\<close>

lemma dispatch_steps_guards:
  "ptriple (beside anything) (shared (same_others P)) (\<lambda>s. personaID (sess s) = P) (dispatch_steps cfg pkt) (\<lambda>_ _. True) (\<lambda>_. True)"
proof -
  have weaken: "ptriple (beside anything) (shared (same_others P)) (\<lambda>s. personaID (sess s) = P) q (\<lambda>_ _. True) (\<lambda>_. True)"
    if "guards (beside anything) (shared (same_others P)) q" for q :: "(server_state, string) prog"
    using that by (simp add: guards_def ptriple_def)
  have update: "ptriple (beside anything) (shared (same_others P)) (\<lambda>s. personaID (sess s) = P)
      (handleUpdateStats_steps cfg pkt) (\<lambda>_ _. True) (\<lambda>_. True)"
    unfolding handleUpdateStats_steps_def Let_def
  proof (rule ptriple_pbind)
    show "ptriple (beside anything) (shared (same_others P)) (\<lambda>s. personaID (sess s) = P)
        (atom (gget (\<lambda>s. personaID (sess s)))) (\<lambda>x s. x = P) (\<lambda>_. True)"
      by (rule ptriple_atom) (simp_all add: triple_def go_run beside_def shared_def same_others_def)
    show "ptriple (beside anything) (shared (same_others P)) (\<lambda>s. x = P) (pbind (pfold (submit_owner_steps p x) ois 0)
        (\<lambda>persisted. atom (reply t pkt ps))) (\<lambda>_ _. True) (\<lambda>_. True)" for x p ois t ps
    proof (cases "x = P")
      case True
      have "guards (beside anything) (shared (same_others P)) (pbind (pfold (submit_owner_steps p P) ois 0)
          (\<lambda>persisted. atom (reply t pkt ps)))"
        by (intro guards_intro guards_submit keeps_intro)
      with True show ?thesis by (simp add: guards_def)
    qed (simp add: ptriple_def)
  qed
  show ?thesis
  proof (cases "map_of writing_handlers (packet_txn pkt)")
    case (Some h)
    then have "(packet_txn pkt, h) \<in> set writing_handlers" by (rule map_of_SomeD)
    then have "ptriple (beside anything) (shared (same_others P)) (\<lambda>s. personaID (sess s) = P) (h cfg pkt) (\<lambda>_ _. True) (\<lambda>_. True)"
      unfolding writing_handlers_def by (auto intro: update weaken guards_handlers)
    with Some show ?thesis by (simp add: dispatch_steps_def)
  next
    case None
    have "shared (same_others P) s (snd (dispatch cfg pkt s))" for s
    proof -
      have "keeps (untouched (db s) (sess s)) (dispatch cfg pkt)"
        using None writing_handlers_None by (intro dispatch_untouched) blast
      then have "stats (db (snd (dispatch cfg pkt s))) = stats (db s)" by (simp add: keeps_def untouched_def rows_of_def)
      then show ?thesis by (simp add: shared_def same_others_def stats_of_others_def)
    qed
    with None show ?thesis by (auto simp: dispatch_steps_def intro: weaken guards_atom)
  qed
qed

subsection \<open>The server\<close>

text \<open>
  A connection waits for the next packet, with its session; or it is busy with one: the session the packet
  found, and what is left to do. Imports (\<open>AddHistoricalRun\<close>, \<open>LinkHistoricalAccount\<close>,
  \<open>UnlinkHistoricalAccount\<close>) come from outside the protocol and have a number too while they run.
\<close>

datatype connection_state =
    Waiting_packet Session
  | Handling packet Session "(world, string outcome \<times> Session) prog"
  | Importing "(world, store_value) prog"

record server =
  sv_world :: world
  sv_conns :: "nat \<rightharpoonup> connection_state"

abbreviation put_conn :: "server \<Rightarrow> nat \<Rightarrow> connection_state \<Rightarrow> server" where
  "put_conn S i c \<equiv> S\<lparr>sv_conns := (sv_conns S)(i \<mapsto> c)\<rparr>"

fun import_call :: "store_call \<Rightarrow> bool" where
  "import_call (AddHistoricalRunCall _ _ _ _ _ _ _ _ _) \<longleftrightarrow> True"
| "import_call (LinkHistoricalAccountCall _ _) \<longleftrightarrow> True"
| "import_call (UnlinkHistoricalAccountCall _) \<longleftrightarrow> True"
| "import_call _ \<longleftrightarrow> False"

inductive srv_step :: "Config \<Rightarrow> server \<Rightarrow> server \<Rightarrow> bool" for cfg where
  accept: "sv_conns S i = None \<Longrightarrow> srv_step cfg S (put_conn S i (Waiting_packet new_session))"
| leave: "sv_conns S i = Some (Waiting_packet ss) \<Longrightarrow> srv_step cfg S (S\<lparr>sv_conns := (sv_conns S)(i := None)\<rparr>)"
| packet: "sv_conns S i = Some (Waiting_packet ss) \<Longrightarrow>
    srv_step cfg S (put_conn S i (Handling pkt ss (thread (dispatch_steps cfg pkt) ss)))"
| statement: "sv_conns S i = Some (Handling pkt ss (Stmt g)) \<Longrightarrow> g (sv_world S) = (p, w') \<Longrightarrow>
    srv_step cfg S (put_conn (S\<lparr>sv_world := w'\<rparr>) i (Handling pkt ss p))"
| answered: "sv_conns S i = Some (Handling pkt ss (Done (Ret (r, ss')))) \<Longrightarrow> r \<noteq> Panic \<Longrightarrow>
    srv_step cfg S (put_conn S i (Waiting_packet ss'))"
| dies: "sv_conns S i = Some (Handling pkt ss (Done (Ret (Panic, ss')))) \<Longrightarrow>
    srv_step cfg S (S\<lparr>sv_conns := Map.empty\<rparr>)"
| import: "sv_conns S i = None \<Longrightarrow> import_call c \<Longrightarrow> srv_step cfg S (put_conn S i (Importing (store_code c)))"
| import_statement: "sv_conns S i = Some (Importing (Stmt g)) \<Longrightarrow> g (sv_world S) = (p, w') \<Longrightarrow>
    srv_step cfg S (put_conn (S\<lparr>sv_world := w'\<rparr>) i (Importing p))"
| imported: "sv_conns S i = Some (Importing (Done r)) \<Longrightarrow> srv_step cfg S (S\<lparr>sv_conns := (sv_conns S)(i := None)\<rparr>)"
| passage: "db_moves (sv_world S) w' \<Longrightarrow> srv_step cfg S (S\<lparr>sv_world := w'\<rparr>)"

inductive_cases srv_step_cases: "srv_step cfg S S'"

subsection \<open>Its invariant\<close>

text \<open>
  A waiting session's account and persona exist; a packet in progress only makes the database grow, will
  leave such a session, and touches no stat row but those of the persona it started with.
\<close>

definition spares :: "int \<Rightarrow> (world, 'a) prog \<Rightarrow> bool" where
  "spares P p \<longleftrightarrow> (\<forall>w. rgg anything (same_others P) p (\<lambda>_ _. True) w)"

definition ends_well :: "(world, string outcome \<times> Session) prog \<Rightarrow> world \<Rightarrow> bool" where
  "ends_well p w \<longleftrightarrow> rg grows p (\<lambda>r w. \<exists>x ss. r = Ret (x, ss) \<and> session_ok \<lparr>db = w, sess = ss\<rparr>) w"

fun conn_ok :: "world \<Rightarrow> connection_state \<Rightarrow> bool" where
  "conn_ok w (Waiting_packet ss) \<longleftrightarrow> session_ok \<lparr>db = w, sess = ss\<rparr>"
| "conn_ok w (Handling pkt ss p) \<longleftrightarrow> ends_well p w \<and> spares (personaID ss) p"
| "conn_ok w (Importing p) \<longleftrightarrow> rg grows p (\<lambda>_ _. True) w \<and> (\<forall>P. spares P p)"

definition srv_ok :: "server \<Rightarrow> bool" where
  "srv_ok S \<longleftrightarrow> tables_ok (sv_world S) \<and> (\<forall>i c. sv_conns S i = Some c \<longrightarrow> conn_ok (sv_world S) c)"

lemma spares_step:
  assumes "spares P (Stmt g)" "g w = (p, w')"
  shows "same_others P w w' \<and> spares P p"
proof -
  have "same_others P w w' \<and> rgg anything (same_others P) p (\<lambda>_ _. True) w'"
    using assms by (auto simp: spares_def dest: spec [of _ w])
  then show ?thesis by (cases p) (simp_all add: spares_def)
qed

lemma ends_well_step: "ends_well (Stmt g) w \<Longrightarrow> g w = (p, w') \<Longrightarrow> grows w w' \<and> ends_well p w'"
  using store_rg.grow_refl [of w] by (auto simp: ends_well_def dest: spec [of _ w])

lemma ends_well_Done: "ends_well (Done (Ret (r, ss))) w \<longleftrightarrow> session_ok \<lparr>db = w, sess = ss\<rparr>"
  by (simp add: ends_well_def)

lemma session_ok_grows: "session_ok \<lparr>db = w, sess = ss\<rparr> \<Longrightarrow> grows w w' \<Longrightarrow> session_ok \<lparr>db = w', sess = ss\<rparr>"
  by (rule session_with_beside) (auto simp: beside_def)

lemma conn_ok_grows:
  assumes "conn_ok w c" "grows w w'"
  shows "conn_ok w' c"
proof (cases c)
  case (Waiting_packet ss)
  with assms show ?thesis by (simp add: session_ok_grows)
next
  case (Handling pkt ss p)
  have "stable grows (\<lambda>(r :: (string outcome \<times> Session) outcome) w. \<exists>x ss'. r = Ret (x, ss') \<and> session_ok \<lparr>db = w, sess = ss'\<rparr>)"
    unfolding stable_def by (blast intro: session_ok_grows)
  from store_rg.rg_grow [OF this assms(2)] assms(1) show ?thesis
    unfolding Handling conn_ok.simps ends_well_def by blast
next
  case (Importing p)
  have "stable grows (\<lambda>(r :: store_value outcome) w. True)" by (simp add: stable_def)
  from store_rg.rg_grow [OF this assms(2)] assms(1) show ?thesis unfolding Importing conn_ok.simps by blast
qed

lemma packet_ok:
  assumes "session_ok \<lparr>db = w, sess = ss\<rparr>"
  shows "conn_ok w (Handling pkt ss (thread (dispatch_steps cfg pkt) ss))"
proof -
  let ?s = "\<lparr>db = w, sess = ss\<rparr>"
  have "rgg (beside grows) (shared grows) (dispatch_steps cfg pkt) (\<lambda>r s. session_ok s) ?s"
    by (rule rgg_conseq [OF ptripleD [OF dispatch_steps_ok [of "{}" "{}"] assms]]) (auto simp: ends_as_def split: outcome.splits)
  from rgg_thread [OF this] have "ends_well (thread (dispatch_steps cfg pkt) ss) w" by (simp add: ends_well_def)
  moreover have "rgg anything (same_others (personaID ss)) (thread (dispatch_steps cfg pkt) ss) (\<lambda>_ _. True) v" for v
  proof -
    have "rgg (beside anything) (shared (same_others (personaID ss))) (dispatch_steps cfg pkt) (ends_as (\<lambda>_ _. True) (\<lambda>_. True))
        \<lparr>db = v, sess = ss\<rparr>"
      by (rule ptripleD [OF dispatch_steps_guards]) simp
    from rgg_thread [OF this] show ?thesis by (simp add: rgg_conseq)
  qed
  ultimately show ?thesis by (simp add: spares_def)
qed

lemma import_ok:
  assumes "import_call c"
  shows "conn_ok w (Importing (store_code c))"
proof -
  have "may_call c w" using assms by (cases c) simp_all
  then have "rg grows (store_code c) (\<lambda>_ _. True) w" by (rule rgg_conseq [OF rg_store_code]) simp
  moreover have "guards anything (same_others P) (store_code c)" for P
    using assms by (cases c) (auto intro!: guards_intro)
  ultimately show ?thesis by (auto simp: spares_def guards_def ptriple_def intro: rgg_conseq)
qed

lemma srv_step_ok:
  assumes "srv_step cfg S S'" "srv_ok S"
  shows "srv_ok S' \<and> grows (sv_world S) (sv_world S')"
proof -
  have all: "conn_ok (sv_world S) c" if "sv_conns S i = Some c" for i c
    using assms(2) that by (simp add: srv_ok_def)
  have moved: "srv_ok (put_conn (S\<lparr>sv_world := w'\<rparr>) i c) \<and> grows (sv_world S) w'" if "grows (sv_world S) w'" "conn_ok w' c" for w' i c
  proof -
    have "tables_ok w'" using that(1) assms(2) by (simp add: srv_ok_def grows_def)
    moreover have "conn_ok w' d" if "sv_conns S j = Some d" for j d using conn_ok_grows [OF all [OF that] \<open>grows (sv_world S) w'\<close>] .
    ultimately show ?thesis using that by (simp add: srv_ok_def)
  qed
  have same: "srv_ok (S\<lparr>sv_conns := m\<rparr>) \<and> grows (sv_world S) (sv_world (S\<lparr>sv_conns := m\<rparr>))"
    if "\<And>i c. m i = Some c \<Longrightarrow> conn_ok (sv_world S) c" for m
    using that assms(2) store_rg.grow_refl by (auto simp: srv_ok_def)
  from assms(1) show ?thesis
  proof cases
    case (accept i)
    have "session_ok \<lparr>db = sv_world S, sess = new_session\<rparr>"
      using assms(2) by (simp add: srv_ok_def session_with_def db_ok_def held_def new_session_def)
    then show ?thesis unfolding accept(1) by (intro same) (auto split: if_splits intro: all)
  next
    case (leave i ss)
    show ?thesis unfolding leave(1) by (intro same) (auto split: if_splits intro: all simp del: conn_ok.simps)
  next
    case (packet i ss pkt)
    then have "conn_ok (sv_world S) (Handling pkt ss (thread (dispatch_steps cfg pkt) ss))"
      using all [OF packet(2)] by (intro packet_ok) simp
    then show ?thesis unfolding packet(1) by (intro same) (auto split: if_splits intro: all simp del: conn_ok.simps)
  next
    case (statement i pkt ss g p w')
    have "conn_ok (sv_world S) (Handling pkt ss (Stmt g))" using all statement(2) .
    then have "grows (sv_world S) w' \<and> conn_ok w' (Handling pkt ss p)"
      using ends_well_step [of g "sv_world S" p w'] spares_step [of _ g "sv_world S" p w'] statement(3) by simp
    with moved [of w' "Handling pkt ss p" i] statement(1) show ?thesis by simp
  next
    case (answered i pkt ss r ss')
    have "conn_ok (sv_world S) (Waiting_packet ss')" using all [OF answered(2)] by (simp add: ends_well_Done)
    then show ?thesis unfolding answered(1) by (intro same) (auto split: if_splits intro: all simp del: conn_ok.simps)
  next
    case (dies i pkt ss ss')
    show ?thesis unfolding dies(1) by (intro same) simp
  next
    case (import i c)
    show ?thesis unfolding import(1) using import_ok [OF import(3)]
      by (intro same) (auto split: if_splits intro: all simp del: conn_ok.simps)
  next
    case (import_statement i g p w')
    have c: "conn_ok (sv_world S) (Importing (Stmt g))" using all import_statement(2) .
    then have "rg grows (Stmt g) (\<lambda>_ _. True) (sv_world S)" by simp
    then have "grows (sv_world S) w' \<and> rg grows p (\<lambda>_ _. True) w'"
      using import_statement(3) store_rg.grow_refl [of "sv_world S"] by (auto dest: spec [of _ "sv_world S"])
    with c have "grows (sv_world S) w' \<and> conn_ok w' (Importing p)"
      using spares_step [of _ g "sv_world S" p w'] import_statement(3) by simp
    with moved [of w' "Importing p" i] import_statement(1) show ?thesis by simp
  next
    case (imported i r)
    show ?thesis unfolding imported(1) by (intro same) (auto split: if_splits intro: all simp del: conn_ok.simps)
  next
    case (passage w')
    have "grows (sv_world S) w'" using passage(2) by (rule db_moves_grows)
    moreover from this have "tables_ok w'" using assms(2) by (simp add: srv_ok_def grows_def)
    moreover have "conn_ok w' d" if "sv_conns S j = Some d" for j d using conn_ok_grows [OF all [OF that] calculation(1)] .
    ultimately show ?thesis using passage(1) by (simp add: srv_ok_def)
  qed
qed

text \<open>Nothing is in progress: every connection waits, with a session whose account and persona exist.\<close>

definition idle :: "server \<Rightarrow> bool" where
  "idle S \<longleftrightarrow> tables_ok (sv_world S) \<and> (\<forall>i c. sv_conns S i = Some c \<longrightarrow> (\<exists>ss. c = Waiting_packet ss
     \<and> held (accountID ss) \<subseteq> account_ids (sv_world S) \<and> held (personaID ss) \<subseteq> persona_ids (sv_world S)))"

lemma waiting_ok:
  "conn_ok w (Waiting_packet ss) \<longleftrightarrow> tables_ok w \<and> held (accountID ss) \<subseteq> account_ids w \<and> held (personaID ss) \<subseteq> persona_ids w"
  by (auto simp: session_with_def db_ok_def)

lemma idle_ok: "idle S \<Longrightarrow> srv_ok S"
  unfolding idle_def srv_ok_def using waiting_ok by blast

lemma srv_reachable:
  assumes "(srv_step cfg)\<^sup>*\<^sup>* S S'" "idle S"
  shows "srv_ok S' \<and> grows (sv_world S) (sv_world S')"
  using assms(1)
proof (induction rule: rtranclp_induct)
  case base
  then show ?case using idle_ok [OF assms(2)] store_rg.grow_refl by blast
next
  case (step S1 S2)
  then show ?case using srv_step_ok store_rg.grow_trans by blast
qed

text \<open>
  C5. The server stays sound when packets are handled at the same time. However the statements of any
  number of connections and imports interleave and whichever of them fail, the schema's constraints hold
  after every statement; no account is lost or renamed and no persona changes its id, its name or its
  owner; and every session between two packets has an account and a persona that exist.
\<close>

theorem interleaved_requests:
  assumes "(srv_step cfg)\<^sup>*\<^sup>* S S'" "idle S"
  shows "tables_ok (sv_world S') \<and> identities (sv_world S) \<subseteq> identities (sv_world S')
    \<and> set (personas (sv_world S)) \<subseteq> set (personas (sv_world S'))
    \<and> (\<forall>i ss. sv_conns S' i = Some (Waiting_packet ss) \<longrightarrow>
        (accountID ss \<noteq> 0 \<longrightarrow> accountID ss \<in> account_ids (sv_world S'))
        \<and> (personaID ss \<noteq> 0 \<longrightarrow> personaID ss \<in> persona_ids (sv_world S')))"
proof -
  note r = srv_reachable [OF assms]
  have "(accountID ss \<noteq> 0 \<longrightarrow> accountID ss \<in> account_ids (sv_world S'))
      \<and> (personaID ss \<noteq> 0 \<longrightarrow> personaID ss \<in> persona_ids (sv_world S'))"
    if "sv_conns S' i = Some (Waiting_packet ss)" for i ss
  proof -
    have "conn_ok (sv_world S') (Waiting_packet ss)" using r that by (simp add: srv_ok_def del: conn_ok.simps)
    then show ?thesis unfolding waiting_ok by (simp add: held_def split: if_splits)
  qed
  with r show ?thesis by (auto simp: srv_ok_def grows_def)
qed

text \<open>
  C11. Only the player changes a player's stats, also under concurrency: if a step of the server changes the
  stat rows of a persona, then this step is one statement of a packet in progress, and the connection that
  this very packet came in on was playing the persona when it came.
\<close>

theorem interleaved_stats:
  assumes "(srv_step cfg)\<^sup>*\<^sup>* S S'" "idle S" "srv_step cfg S' S''"
    and "filter (\<lambda>r. st_persona_id r = q) (stats (sv_world S'')) \<noteq> filter (\<lambda>r. st_persona_id r = q) (stats (sv_world S'))"
  shows "\<exists>i pkt ss g p w'. sv_conns S' i = Some (Handling pkt ss (Stmt g)) \<and> g (sv_world S') = (p, w')
    \<and> S'' = put_conn (S'\<lparr>sv_world := w'\<rparr>) i (Handling pkt ss p) \<and> personaID ss = q"
proof -
  have all: "conn_ok (sv_world S') c" if "sv_conns S' i = Some c" for i c
    using srv_reachable [OF assms(1,2)] that by (simp add: srv_ok_def)
  have own: "P = q" if "same_others P (sv_world S') (sv_world S'')" for P
  proof (rule ccontr)
    assume "P \<noteq> q"
    then have "filter (\<lambda>r. st_persona_id r = q) (stats w) = filter (\<lambda>r. st_persona_id r = q) (stats_of_others P w)" for w
      by (auto simp: stats_of_others_def intro: filter_cong)
    with that assms(4) show False by (simp add: same_others_def)
  qed
  from assms(3) show ?thesis
  proof cases
    case (statement i pkt ss g p w')
    have "conn_ok (sv_world S') (Handling pkt ss (Stmt g))" using all statement(2) .
    then have "same_others (personaID ss) (sv_world S') w'" using spares_step [of _ g "sv_world S'" p w'] statement(3) by simp
    then have "personaID ss = q" using own statement(1) by simp
    with statement show ?thesis by blast
  next
    case (import_statement i g p w')
    have "conn_ok (sv_world S') (Importing (Stmt g))" using all import_statement(2) .
    then have "same_others P (sv_world S') w'" for P using spares_step [of _ g "sv_world S'" p w'] import_statement(3) by simp
    then have "P = q" for P using own import_statement(1) by auto
    from this [of "q + 1"] show ?thesis by simp
  next
    case (passage w')
    then have "same_others P (sv_world S') (sv_world S'')" for P
      by (auto simp: same_others_def stats_of_others_def db_moves_def)
    from own [OF this [of "q + 1"]] show ?thesis by simp
  qed (use assms(4) in auto)
qed

subsection \<open>The atomic model is a part of it\<close>

text \<open>Left alone, a packet in progress runs to its end, and an import too.\<close>

lemma alone_runs:
  assumes "sv_conns S i = Some (Handling pkt ss p)"
  shows "(srv_step cfg)\<^sup>*\<^sup>* S (put_conn (S\<lparr>sv_world := snd (solo p (sv_world S))\<rparr>) i (Handling pkt ss (Done (fst (solo p (sv_world S))))))"
  using assms
proof (induction p arbitrary: S)
  case (Done r)
  then have "put_conn (S\<lparr>sv_world := sv_world S\<rparr>) i (Handling pkt ss (Done r)) = S" by (simp add: fun_upd_idem)
  then show ?case by (simp only: solo.simps fst_conv snd_conv rtranclp.rtrancl_refl)
next
  case (Stmt g)
  obtain p w where g: "g (sv_world S) = (p, w)" by force
  let ?S = "put_conn (S\<lparr>sv_world := w\<rparr>) i (Handling pkt ss p)"
  have "srv_step cfg S ?S" using Stmt.prems g by (rule srv_step.statement)
  moreover have "(srv_step cfg)\<^sup>*\<^sup>* ?S (put_conn (?S\<lparr>sv_world := snd (solo p w)\<rparr>) i (Handling pkt ss (Done (fst (solo p w)))))"
    using Stmt.IH [of "(p, w)" p ?S] g rangeI [of g "sv_world S"] by (simp add: prod_set_simps fun_upd_same del: fun_upd_apply)
  ultimately show ?case using g by (simp add: converse_rtranclp_into_rtranclp del: fun_upd_apply)
qed

lemma alone_imports:
  assumes "sv_conns S i = Some (Importing p)"
  shows "(srv_step cfg)\<^sup>*\<^sup>* S (put_conn (S\<lparr>sv_world := snd (solo p (sv_world S))\<rparr>) i (Importing (Done (fst (solo p (sv_world S))))))"
  using assms
proof (induction p arbitrary: S)
  case (Done r)
  then have "put_conn (S\<lparr>sv_world := sv_world S\<rparr>) i (Importing (Done r)) = S" by (simp add: fun_upd_idem)
  then show ?case by (simp only: solo.simps fst_conv snd_conv rtranclp.rtrancl_refl)
next
  case (Stmt g)
  obtain p w where g: "g (sv_world S) = (p, w)" by force
  let ?S = "put_conn (S\<lparr>sv_world := w\<rparr>) i (Importing p)"
  have "srv_step cfg S ?S" using Stmt.prems g by (rule srv_step.import_statement)
  moreover have "(srv_step cfg)\<^sup>*\<^sup>* ?S (put_conn (?S\<lparr>sv_world := snd (solo p w)\<rparr>) i (Importing (Done (fst (solo p w)))))"
    using Stmt.IH [of "(p, w)" p ?S] g rangeI [of g "sv_world S"] by (simp add: prod_set_simps fun_upd_same del: fun_upd_apply)
  ultimately show ?case using g by (simp add: converse_rtranclp_into_rtranclp del: fun_upd_apply)
qed

definition at_rest :: "system \<Rightarrow> server" where
  "at_rest S = \<lparr>sv_world = sys_world S, sv_conns = map_option Waiting_packet \<circ> sys_sessions S\<rparr>"

lemma import_runs:
  assumes "sys_sessions S i = None" "import_call c"
  shows "(srv_step cfg)\<^sup>*\<^sup>* (at_rest S) (at_rest (S\<lparr>sys_world := snd (solo (store_code c) (sys_world S))\<rparr>))"
proof -
  let ?S1 = "put_conn (at_rest S) i (Importing (store_code c))"
  let ?w = "snd (solo (store_code c) (sys_world S))"
  have free: "sv_conns (at_rest S) i = None" using assms(1) by (simp add: at_rest_def)
  have "srv_step cfg (at_rest S) ?S1" using free assms(2) by (rule srv_step.import)
  moreover have "(srv_step cfg)\<^sup>*\<^sup>* ?S1 (put_conn (?S1\<lparr>sv_world := ?w\<rparr>) i (Importing (Done (fst (solo (store_code c) (sys_world S))))))"
    using alone_imports [of ?S1 i "store_code c" cfg] by (simp add: at_rest_def)
  moreover have "srv_step cfg (put_conn (?S1\<lparr>sv_world := ?w\<rparr>) i (Importing (Done (fst (solo (store_code c) (sys_world S))))))
      (at_rest (S\<lparr>sys_world := ?w\<rparr>))"
    using srv_step.imported [of "put_conn (?S1\<lparr>sv_world := ?w\<rparr>) i (Importing (Done (fst (solo (store_code c) (sys_world S)))))" i] free
    by (simp add: at_rest_def fun_upd_idem)
  ultimately show ?thesis by (meson converse_rtranclp_into_rtranclp rtranclp.rtrancl_into_rtrancl)
qed

lemma packet_runs:
  assumes "sys_sessions S i = Some ss" "dispatch cfg pkt \<lparr>db = sys_world S, sess = ss\<rparr> = (r, s')"
  shows "(srv_step cfg)\<^sup>*\<^sup>* (at_rest S)
    (put_conn ((at_rest S)\<lparr>sv_world := db s'\<rparr>) i (Handling pkt ss (Done (Ret (r, sess s')))))"
proof -
  let ?p = "thread (dispatch_steps cfg pkt) ss"
  let ?S1 = "put_conn (at_rest S) i (Handling pkt ss ?p)"
  have run: "solo ?p (sys_world S) = (Ret (r, sess s'), db s')"
    by (simp add: solo_thread solo_dispatch assms(2))
  have "srv_step cfg (at_rest S) ?S1" using assms(1) by (intro srv_step.packet) (simp add: at_rest_def)
  moreover have "(srv_step cfg)\<^sup>*\<^sup>* ?S1 (put_conn (?S1\<lparr>sv_world := db s'\<rparr>) i (Handling pkt ss (Done (Ret (r, sess s')))))"
    using alone_runs [of ?S1 i pkt ss ?p cfg] run by (simp add: at_rest_def)
  ultimately show ?thesis by (simp add: converse_rtranclp_into_rtranclp)
qed

lemma at_rest_update:
  "put_conn (at_rest S) i (Waiting_packet ss) = at_rest (S\<lparr>sys_sessions := (sys_sessions S)(i \<mapsto> ss)\<rparr>)"
  "(at_rest S)\<lparr>sv_conns := (sv_conns (at_rest S))(i := None)\<rparr> = at_rest (S\<lparr>sys_sessions := (sys_sessions S)(i := None)\<rparr>)"
  by (auto simp: at_rest_def fun_eq_iff)

lemma atomic_step:
  assumes "sys_step cfg S S'" "finite (dom (sys_sessions S))"
  shows "(srv_step cfg)\<^sup>*\<^sup>* (at_rest S) (at_rest S') \<and> finite (dom (sys_sessions S'))"
proof -
  obtain j where free: "sys_sessions S j = None" using assms(2) ex_new_if_finite [OF infinite_UNIV_nat] by blast
  have sub: "(srv_step cfg)\<^sup>*\<^sup>* (at_rest S) (at_rest (S\<lparr>sys_world := w'\<rparr>))"
    if "import_call c" "snd (store_method c (sys_world S)) = w'" for c w'
    using import_runs [of S j c cfg] free that by (simp add: store_code_solo)
  from assms(1) show ?thesis
  proof cases
    case (connect i)
    have "srv_step cfg (at_rest S) (put_conn (at_rest S) i (Waiting_packet new_session))"
      using connect(2) by (intro srv_step.accept) (simp add: at_rest_def)
    then show ?thesis using assms(2) connect(1) by (simp add: at_rest_update r_into_rtranclp)
  next
    case (disconnect i)
    show ?thesis
    proof (cases "sys_sessions S i")
      case None
      then have "S' = S" using disconnect by (simp add: fun_upd_idem)
      then show ?thesis using assms(2) by simp
    next
      case (Some ss)
      have "srv_step cfg (at_rest S) ((at_rest S)\<lparr>sv_conns := (sv_conns (at_rest S))(i := None)\<rparr>)"
        using Some by (intro srv_step.leave) (simp add: at_rest_def)
      then show ?thesis using assms(2) disconnect by (simp add: at_rest_update r_into_rtranclp)
    qed
  next
    case (handled i ss pkt r s')
    let ?S1 = "put_conn ((at_rest S)\<lparr>sv_world := db s'\<rparr>) i (Handling pkt ss (Done (Ret (r, sess s'))))"
    have "srv_step cfg ?S1 (put_conn ?S1 i (Waiting_packet (sess s')))"
      using handled(4) by (intro srv_step.answered) simp_all
    moreover have "put_conn ?S1 i (Waiting_packet (sess s')) = at_rest S'"
      unfolding handled(1) by (auto simp: at_rest_def fun_eq_iff)
    ultimately show ?thesis using packet_runs [OF handled(2,3)] assms(2) handled(1)
      by (metis dom_fun_upd finite_insert option.distinct(1) rtranclp.rtrancl_into_rtrancl system.select_convs(2))
  next
    case (process_dies i ss pkt s')
    let ?S1 = "put_conn ((at_rest S)\<lparr>sv_world := db s'\<rparr>) i (Handling pkt ss (Done (Ret (Panic, sess s'))))"
    have "srv_step cfg ?S1 (?S1\<lparr>sv_conns := Map.empty\<rparr>)" by (rule srv_step.dies [where i = i]) simp
    moreover have "?S1\<lparr>sv_conns := Map.empty\<rparr> = at_rest S'"
      unfolding process_dies(1) by (simp add: at_rest_def fun_eq_iff)
    ultimately show ?thesis using packet_runs [OF process_dies(2,3)] process_dies(1)
      by (metis dom_empty finite.emptyI rtranclp.rtrancl_into_rtrancl system.select_convs(2))
  next
    case (import_run sourceKey name stretchID key v period runID weblink updatedAt r w')
    then show ?thesis
      using sub [of "AddHistoricalRunCall sourceKey name stretchID key v period runID weblink updatedAt"] assms(2)
      by (simp add: gbind_def gret_def split: outcome.splits)
  next
    case (link sourceKey pid r w')
    then show ?thesis using sub [of "LinkHistoricalAccountCall sourceKey pid"] assms(2)
      by (simp add: gbind_def gret_def split: outcome.splits)
  next
    case (unlink sourceKey r w')
    then show ?thesis using sub [of "UnlinkHistoricalAccountCall sourceKey"] assms(2)
      by (simp add: gbind_def gret_def split: outcome.splits)
  next
    case (environment f n rnd rows fs t)
    have "sys_world S' = (sys_world S)\<lparr>clock := t, faults := fs, row_order := rows, random := rnd,
        random_pos := n, scan_timestamp := f\<rparr>" using environment by simp
    then have "db_moves (sys_world S) (sys_world S')" unfolding db_moves_def by (intro exI)
    then have "srv_step cfg (at_rest S) ((at_rest S)\<lparr>sv_world := sys_world S'\<rparr>)"
      by (intro srv_step.passage) (simp add: at_rest_def)
    moreover have "(at_rest S)\<lparr>sv_world := sys_world S'\<rparr> = at_rest S'" unfolding environment(1) by (simp add: at_rest_def)
    ultimately show ?thesis using assms(2) environment(1) by (simp add: r_into_rtranclp)
  qed
qed

lemma sequential_runs:
  assumes "(sys_step cfg)\<^sup>*\<^sup>* S S'" "finite (dom (sys_sessions S))"
  shows "(srv_step cfg)\<^sup>*\<^sup>* (at_rest S) (at_rest S')"
proof -
  have "(srv_step cfg)\<^sup>*\<^sup>* (at_rest S) (at_rest S') \<and> finite (dom (sys_sessions S'))"
    using assms(1)
  proof (induction rule: rtranclp_induct)
    case (step S1 S2)
    then show ?case using atomic_step [of cfg S1 S2] by (meson rtranclp_trans)
  qed (simp add: assms(2))
  then show ?thesis by blast
qed

subsection \<open>Two players at once\<close>

definition player :: "int \<Rightarrow> Session" where
  "player i = new_session\<lparr>accountID := i, personaID := i\<rparr>"

definition two_players :: system where
  "two_players = \<lparr>sys_world = two_personas, sys_sessions = [0 \<mapsto> player 1, 1 \<mapsto> player 2]\<rparr>"

definition score_packet :: packet where
  "score_packet = \<lparr>Type = ''rank'', ID = 5, Params = kvs [''TXN'', ''UpdateStats'', ''u.[]'', ''1'', ''u.0.s.[]'', ''1'',
     ''u.0.s.0.k'', ''TD_1_20'', ''u.0.s.0.v'', ''42'']\<rparr>"

lemma two_players_idle: "idle (at_rest two_players)" "finite (dom (sys_sessions two_players))"
proof -
  have "account_ids two_personas = {1, 2}" "persona_ids two_personas = {1, 2}"
    by (auto simp: account_ids_def persona_ids_def two_personas_def one_account_def)
  then show "idle (at_rest two_players)"
    by (simp add: idle_def at_rest_def two_players_def player_def two_personas_ok held_def)
  show "finite (dom (sys_sessions two_players))" by (simp add: two_players_def)
qed

abbreviation score_dispatch where
  "score_dispatch \<equiv> dispatch defaults score_packet \<lparr>db = two_personas, sess = player 1\<rparr>"

lemma score_stored: "fst score_dispatch \<noteq> Panic \<and> map st_persona_id (stats (db (snd score_dispatch))) = [1]"
proof -
  let ?p = "ParamsMap (Params score_packet)"
  have "packet_txn score_packet = ''UpdateStats''" "atoi (mget ?p ''u.[]'') = 1"
    "atoi (mget ?p (indexed ''u'' 0 @ ''.s.[]'')) = 1"
    "mget ?p (indexed (indexed ''u'' 0 @ ''.s'') 0 @ ''.k'') = ''TD_1_20''"
    "parsePeriods (mget ?p (indexed (indexed ''u'' 0 @ ''.s'') 0 @ ''.pt'')) = []"
    "atof (mget ?p (indexed (indexed ''u'' 0 @ ''.s'') 0 @ ''.v'')) = Fin 42"
    by code_simp+
  moreover have "stats two_personas = []" by (simp add: two_personas_def one_account_def empty_world_def)
  ultimately show ?thesis
    using two_personas_ok(2)
    by (simp add: dispatch_def handlers_def handleUpdateStats_def submit_owner_def submit_stat_def submit_periods_def
        UpdateStats_def upsert_stat_def on_store_def player_def reply_def insert_or_update_def go_run Let_def)
qed

theorem interleaved_requests_witness:
  "\<exists>S. (srv_step defaults)\<^sup>*\<^sup>* (at_rest two_players) S
     \<and> sv_conns S 0 = Some (Handling score_packet (player 1) (thread (dispatch_steps defaults score_packet) (player 1)))
     \<and> (\<exists>r. sv_conns S 1 = Some (Handling score_packet (player 2) (Done r))) \<and> tables_ok (sv_world S)"
proof -
  let ?c = "\<lambda>ss. Handling score_packet ss (thread (dispatch_steps defaults score_packet) ss)"
  let ?S0 = "at_rest two_players" and ?r = "solo (thread (dispatch_steps defaults score_packet) (player 2)) two_personas"
  let ?S1 = "put_conn ?S0 0 (?c (player 1))"
  let ?S2 = "put_conn ?S1 1 (?c (player 2))"
  let ?S3 = "put_conn (?S2\<lparr>sv_world := snd ?r\<rparr>) 1 (Handling score_packet (player 2) (Done (fst ?r)))"
  have "srv_step defaults ?S0 ?S1" "srv_step defaults ?S1 ?S2"
    by (intro srv_step.packet; simp add: at_rest_def two_players_def)+
  moreover have "(srv_step defaults)\<^sup>*\<^sup>* ?S2 ?S3"
    using alone_runs [of ?S2 1 score_packet "player 2" "thread (dispatch_steps defaults score_packet) (player 2)" defaults]
    by (simp add: at_rest_def two_players_def del: fun_upd_apply add: fun_upd_same)
  ultimately have run: "(srv_step defaults)\<^sup>*\<^sup>* ?S0 ?S3" by (meson converse_rtranclp_into_rtranclp)
  have "sv_conns ?S3 0 = Some (?c (player 1))" "sv_conns ?S3 1 = Some (Handling score_packet (player 2) (Done (fst ?r)))"
    by simp_all
  with run interleaved_requests [OF run two_players_idle(1)] show ?thesis by blast
qed

lemma first_change:
  assumes "R\<^sup>*\<^sup>* S S'" "f S \<noteq> f S'"
  shows "\<exists>T T'. R\<^sup>*\<^sup>* S T \<and> R T T' \<and> f T' \<noteq> f T"
  using assms
proof (induction rule: rtranclp_induct)
  case (step T T')
  then show ?case by (cases "f T' = f T") auto
qed simp

theorem interleaved_stats_witness:
  "\<exists>T T'. srv_step defaults T T'
     \<and> filter (\<lambda>r. st_persona_id r = 1) (stats (sv_world T')) \<noteq> filter (\<lambda>r. st_persona_id r = 1) (stats (sv_world T))
     \<and> (\<exists>i pkt ss g p w'. sv_conns T i = Some (Handling pkt ss (Stmt g)) \<and> g (sv_world T) = (p, w')
           \<and> T' = put_conn (T\<lparr>sv_world := w'\<rparr>) i (Handling pkt ss p) \<and> personaID ss = 1)"
proof -
  let ?f = "\<lambda>S. filter (\<lambda>r. st_persona_id r = 1) (stats (sv_world S))"
  obtain r s' where d: "score_dispatch = (r, s')" by force
  have "(srv_step defaults)\<^sup>*\<^sup>* (at_rest two_players)
      (put_conn ((at_rest two_players)\<lparr>sv_world := db s'\<rparr>) 0 (Handling score_packet (player 1) (Done (Ret (r, sess s')))))"
    using d by (intro packet_runs) (simp_all add: two_players_def)
  moreover have "?f (at_rest two_players) = []"
    by (simp add: at_rest_def two_players_def two_personas_def one_account_def empty_world_def)
  moreover have "filter (\<lambda>r. st_persona_id r = 1) (stats (db s')) \<noteq> []" using score_stored unfolding d by auto
  ultimately obtain T T' where T: "(srv_step defaults)\<^sup>*\<^sup>* (at_rest two_players) T" "srv_step defaults T T'" "?f T' \<noteq> ?f T"
    using first_change [of "srv_step defaults" _ _ ?f] by fastforce
  from interleaved_stats [OF T(1) two_players_idle(1) T(2,3)] T(2,3) show ?thesis by blast
qed

end
