(* ===== verification/Spec2Isabelle.thy ===== *)
theory Spec2Isabelle
  imports Prelude Go_Strings Go_Numbers Go_Utf8 Go_Bytes Stream Go_Float Go_Time Go_Path Sql
    Packet Periods Crypto Config World Store_Accounts Store_Personas Store_Stats Leaderboard
    Session Associations Rank Dispatch Safety Panics
    Go_Fs Go_Json Go_Url Go_Quote Store_Listing Xml_Chars Locker_Xml Locker_Meta Locker_Http Locker
    Locker_Safety Locker_Files Locker_Listing Locker_Answers Mlog Isolation Replies
    Ddl Migration Interleave Concurrency Process Codec Exchange Readonly Requests Parallel
begin

text \<open>
  MedgeNet is a server that stands in for the retired online services of Mirror's Edge. This
  development models its Go code under \<open>src/server\<close> and proves what makes it correct.

  \<^bold>\<open>The program.\<close> One process runs two TCP servers over one SQLite database. The FESL server
  (\<open>fesl/\<close>) speaks a binary protocol of packets with key-value payloads: accounts, personas, friend
  lists, stats and leaderboards. The locker (\<open>locker/\<close>) is a small HTTP server for ghost files, kept in a
  directory with their metadata in JSON files beside them. Both use the store (\<open>storage/storage.go\<close>);
  \<open>config/config.go\<close> reads the settings, \<open>mlog/log.go\<close> writes and rotates the log files.

  \<^bold>\<open>Vocabulary.\<close> Go strings and byte slices are lists of bytes (\<open>string\<close>). \<open>int\<close> and \<open>int64\<close> are
  integers with \<open>i64\<close> where arithmetic can wrap; the 32-bit fields of a packet are words; a \<open>float64\<close> is
  a datatype of finite values, infinities and NaN. A call that may fail is \<open>('s, 'a) go\<close>: a function of
  the state that returns a value, an error or a panic, with the new state (\<open>Prelude\<close>: \<open>gbind\<close> is a call
  whose error is passed on, \<open>gtry\<close> one whose error is handled). A failure of the database is the next
  element of \<open>faults\<close>, a failure of the file system the next element of \<open>io\<close>; the theorems that do not
  assume these lists to be empty hold for every pattern of failures.

  \<^bold>\<open>The standard library\<close> as far as the server calls it: \<open>Go_Strings\<close>, \<open>Go_Numbers\<close>, \<open>Go_Utf8\<close>,
  \<open>Go_Bytes\<close> (hex, base64, big-endian words), \<open>Go_Float\<close>, \<open>Go_Time\<close>, \<open>Go_Path\<close> (\<open>path/filepath\<close>),
  \<open>Go_Url\<close>, \<open>Go_Json\<close>, \<open>Go_Quote\<close> (the verb \<open>%q\<close>), \<open>Go_Fs\<close> (files of a disk), and in \<open>Crypto\<close> SHA-256 and HMAC. \<open>Sql\<close> has the
  statements on one table, with the locales \<open>first_row_wins\<close> (insert or ignore) and \<open>last_row_wins\<close>
  (upsert) that the tables of the store interpret. \<open>Stream\<close> has the receive loop of both servers over a
  parser and a handler, and the locale \<open>incremental_parser\<close>, the contract under which the framing of the
  reads cannot matter; \<open>Decode\<close> and \<open>parseHTTPRequest\<close> interpret it. \<open>Codec\<close> extends it by the writer at
  the other end (\<open>framed_codec\<close>).

  \<^bold>\<open>The store\<close> (\<open>storage/storage.go\<close>).
  \<^item> \<open>World\<close>: the tables as lists of rows, the schema's constraints as \<open>tables_ok\<close>, and what the
    database may do on its own (fail a statement, choose the order of tied rows). What SQLite makes of a
    value in a \<open>REAL\<close> or \<open>TIMESTAMP\<close> column is written out (\<open>real_column\<close>; \<open>numeric_text\<close> in \<open>Periods\<close>).
  \<^item> \<open>Periods\<close>: week and month cutoffs. \<open>Crypto\<close>: password hashes and login tokens.
  \<^item> \<open>Store_Accounts\<close>, \<open>Store_Personas\<close>, \<open>Store_Stats\<close>, \<open>Leaderboard\<close>, \<open>Store_Listing\<close>: one
    definition per method of \<open>Store\<close>, with the lemmas that every method keeps \<open>tables_ok\<close> and the
    functional theorems: a created account validates with its password and no other, a token logs in its
    account until the next one is issued, a persona belongs to one account, friend lists refine a set,
    submitted stats are read back, a leaderboard page is the stated part of the sorted best rows, ranks
    count as stated, and the ghost tags are exactly those of the stat rows.
  \<^item> \<open>Ddl\<close> and \<open>Migration\<close> (\<open>Open\<close>, \<open>Init\<close>, \<open>migrateHistoricalAccountLinks\<close>, \<open>Close\<close>): a database file as
    tables with their constraints, the statements of the schema and of the migration on it, in a
    transaction or outside one. Opening never loses a link, is done completely or not at all, and succeeds
    exactly on the files whose links are sound.
  \<^item> \<open>Interleave\<close> and \<open>Concurrency\<close>: the methods that write, statement by statement. \<open>prog\<close> is a call as a
    sequence of statements, \<open>pool_step\<close> the step relation of a pool of running calls, and the locales
    \<open>rely_guarantee\<close> and \<open>concurrent_calls\<close> have the proof rules, interpreted on the store
    (\<open>store_rg\<close>, \<open>store_calls\<close>). The schema's constraints hold after every statement of every interleaving,
    and two accounts never both get a persona name. Run alone (\<open>solo\<close>) the calls are the methods of the
    other theories (\<open>steps_solo\<close>).

  \<^bold>\<open>The FESL server\<close>.
  \<^item> \<open>Packet\<close> (\<open>packet.go\<close>): round trips of \<open>Encode\<close> and \<open>Decode\<close>, and that nothing decoded can inject a
    line into a reply.
  \<^item> \<open>Session\<close> (\<open>server.go\<close>), \<open>Associations\<close> (\<open>associations.go\<close>), \<open>Rank\<close> (\<open>rank.go\<close>): the session
    and one definition per handler, in full; the exact language of the validators, the effect of a friend
    request, the size limit of leaderboard packets.
  \<^item> \<open>Dispatch\<close> (\<open>dispatch\<close>, \<open>run\<close>): the receive loop, and the step relation \<open>sys_step\<close> of all sessions
    on one database with the invariant of its reachable states.
  \<^item> \<open>Safety\<close>: a session gets an account only by a valid password or token, and a persona only of its
    account. \<open>Isolation\<close>: no packet changes another player's stats. \<open>Replies\<close>: one reply for each packet.
    \<open>Panics\<close>: exactly which packets end the process.
  \<^item> \<open>Readonly\<close>, \<open>Requests\<close> and \<open>Parallel\<close>: all connections at once. \<open>Readonly\<close> shows which packets
    change no row. \<open>Requests\<close> gives the other handlers statement by statement (\<open>dispatch_steps\<close>; run alone
    they are the handlers above, \<open>solo_dispatch\<close>). In \<open>srv_step\<close> of \<open>Parallel\<close> the statements of any
    number of connections and imports interleave: the constraints hold after every statement, and
    only the player's own packets change stat rows. The lemma \<open>sequential_runs\<close> relates the two models: a run
    of \<open>sys_step\<close> is a run in which the packets happen not to overlap.

  \<^bold>\<open>The locker\<close>.
  \<^item> \<open>Locker_Http\<close> (\<open>parseHTTPRequest\<close>, \<open>buildHTTPResponse\<close>, \<open>safeIdentifier\<close>), \<open>Locker_Xml\<close> (\<open>xml.go\<close>) and
    \<open>Locker_Meta\<close> (the JSON form of an \<open>Entry\<close>): requests and responses are read as they were written. The
    listing is compared with what a conforming XML reader makes of it (\<open>read_locker\<close>, with the characters of
    XML in \<open>Xml_Chars\<close>), which shows what \<open>attr\<close> leaves unescaped.
  \<^item> \<open>Locker\<close> (\<open>server.go\<close>): listing, metadata, aliases and the requests, on a state of disk and database.
    The log is a file on that disk; each of the server's log lines is a step (\<open>log_write\<close>).
  \<^item> \<open>Locker_Safety\<close>: a connection changes nothing but checked files in the ghost directory and the log, to
    which it appends, whatever it receives. \<open>Locker_Files\<close>: what is downloaded is a ghost, an upload comes
    back byte for byte, and so does its metadata. \<open>Locker_Listing\<close>: the listing of a player, exactly.
    \<open>Locker_Answers\<close>: every complete request is answered in order, and which requests end the process.

  \<^bold>\<open>Configuration and logs\<close>. \<open>Config\<close>: the INI reader and the precedence of environment, file and
  defaults. \<open>Mlog\<close>: names of log files, and a clean-up that keeps the newest logs and touches no other file.

  \<^bold>\<open>The process\<close>. \<open>Process\<close> (\<open>main.go\<close> and the two \<open>Listen\<close> functions): the accept loop is a partial function,
  whose result is \<open>None\<close> if it runs for ever; the theorems say exactly when it returns and how the
  process exits, with the panic of a session (\<open>Panics\<close>, \<open>Locker_Answers\<close>) as one of the ways. What the sessions
  do meanwhile is a parameter of \<open>main\<close>: the database they leave and whether one of them panics before \<open>main\<close>
  has its result; a panic in the short time between that result and the exit is not a case. \<open>Exchange\<close> puts the parts together: what a client writes, cut into reads in any way, is
  what the handlers get, and what they answer is what the client reads.

  \<^bold>\<open>Proof technique.\<close> Invariants go through the code by \<open>keeps\<close> and \<open>triple\<close> (collection \<open>keeps_intro\<close>),
  the absence of panics by \<open>no_panic_intro\<close>, the shape of answers by \<open>replies_intro\<close> and \<open>answers_intro\<close>,
  concrete runs by \<open>go_run\<close>. What may change on the disk is the order \<open>changes_only\<close>, which \<open>keeps\<close>
  carries through a handler.

  \<^bold>\<open>Bounds.\<close> All loops of the model are total: loops over packets by the length of the buffer, other
  loops by structure or by the stated measures. JSON documents may nest 10000 levels, the limit of
  \<open>encoding/json\<close>; nothing else is fuelled. The accept loop, which need not end, returns an option.

  \<^bold>\<open>Assumptions of the model.\<close> In \<open>sys_step\<close> and in the locker a handler runs from its first to its last
  statement without another in between. In \<open>Concurrency\<close> and \<open>Parallel\<close> the unit is one statement of SQL;
  only the reads of a handler that writes nothing, and those that make up the answer to a change of a
  friend list, are one step together. The clock stands still during a handler, and during a connection of the locker for the times in its log
  lines and new files. The texts of errors in log lines and the table of printable runes above U+00FF are parameters (\<open>log_context\<close>). A panic leaves what was
  written. The ghost directory and the logs are on a disk without symbolic links. Conversions of
  floating-point numbers to integers are those of amd64. Whether \<open>url.Parse\<close> accepts the authority of a
  target that starts with two slashes is a parameter (\<open>authority_ok\<close>). HTTP header names are lowered on
  ASCII letters only, which is enough to find \<open>content-length\<close>.

  \<^bold>\<open>Not modelled.\<close> Log lines on the console, the log lines of the FESL server (its state has no disk), the mutex of the log, deadlines and failing writes on sockets,
  and the sockets themselves: what they deliver is an input (a list of reads, of events, the outcomes of
  \<open>Accept\<close>). The file operations of different locker connections are not interleaved. The SQL driver is
  modelled as far as the statements of the server use it. The C and C++ code of the game client under \<open>src/client\<close> is left aside: it patches
  the process of the game and shares nothing with the server but the protocol.
\<close>

end
